(* ===== verification/Prelude.thy ===== *)
theory Prelude
  imports Complex_Main "HOL-Library.Word" "HOL-Library.Sublist" "HOL-Library.Multiset"
begin

text \<open>
  Shared vocabulary of the development: byte strings, ranges of characters, the collections of
  rewrite rules the component theories extend, and generic facts on lists, prefixes and decimal
  numerals.

  A \<open>std::string\<close> or \<open>std::string_view\<close> of the program is a HOL \<open>string\<close>, a list of 8-bit
  characters: \<open>length\<close> counts bytes, as \<open>size()\<close> does, and \<open>byte_of\<close> is the program's
  \<open>static_cast<unsigned char>\<close>.
\<close>

named_theorems char_class_simps "membership of a concrete character in a class"
named_theorems json_eval "rules that evaluate queries on a concrete JSON value"

unbundle bit_operations_syntax

type_synonym bytes = "nat list"

definition byte_of :: "char \<Rightarrow> nat" where
  "byte_of c = of_char c"

definition bytes_of :: "string \<Rightarrow> bytes" where
  "bytes_of s = map byte_of s"

lemma byte_of_less [simp]: "byte_of c < 256"
  by (simp add: byte_of_def)

lemma byte_of_inject [simp]: "byte_of c = byte_of d \<longleftrightarrow> c = d"
  by (simp add: byte_of_def)

lemma bytes_of_Nil [simp]: "bytes_of [] = []"
  by (simp add: bytes_of_def)

lemma bytes_of_Cons [simp]: "bytes_of (c # s) = byte_of c # bytes_of s"
  by (simp add: bytes_of_def)

lemma bytes_of_append [simp]: "bytes_of (s @ t) = bytes_of s @ bytes_of t"
  by (simp add: bytes_of_def)

lemma length_bytes_of [simp]: "length (bytes_of s) = length s"
  by (simp add: bytes_of_def)

text \<open>Character classes the parsers of the program share.\<close>

definition char_between :: "char \<Rightarrow> char \<Rightarrow> char \<Rightarrow> bool" where
  "char_between lo hi c \<longleftrightarrow> byte_of lo \<le> byte_of c \<and> byte_of c \<le> byte_of hi"

definition is_digit :: "char \<Rightarrow> bool" where
  "is_digit c \<longleftrightarrow> char_between CHR ''0'' CHR ''9'' c"

definition is_lower_hex :: "char \<Rightarrow> bool" where
  "is_lower_hex c \<longleftrightarrow> char_between CHR ''0'' CHR ''9'' c \<or> char_between CHR ''a'' CHR ''f'' c"

definition is_alpha :: "char \<Rightarrow> bool" where
  "is_alpha c \<longleftrightarrow> char_between CHR ''A'' CHR ''Z'' c \<or> char_between CHR ''a'' CHR ''z'' c"

definition is_alnum :: "char \<Rightarrow> bool" where
  "is_alnum c \<longleftrightarrow> is_alpha c \<or> is_digit c"

lemmas char_classes [char_class_simps] =
  char_between_def is_digit_def is_lower_hex_def is_alpha_def is_alnum_def byte_of_def

text \<open>Facts on the size and the keys of a sorted list, for recursions that sort before they descend.\<close>

lemma size_list_mset: "size_list f ys = sum_mset (image_mset f (mset ys)) + size (mset ys)"
  by (induction ys) simp_all

lemma size_list_sort_key [simp]: "size_list f (sort_key k xs) = size_list f xs"
  by (simp add: size_list_mset)

text \<open>Searching a table whose keys are distinct.\<close>

lemma find_SomeD: "find P xs = Some x \<Longrightarrow> x \<in> set xs \<and> P x"
  by (auto simp: find_Some_iff)

lemma find_someI: "x \<in> set xs \<Longrightarrow> P x \<Longrightarrow> \<exists>y. find P xs = Some y"
  using find_None_iff [of P xs] by (cases "find P xs") auto

lemma find_key:
  assumes "distinct (map f xs)"
  shows "find (\<lambda>x. f x = k) xs = Some x \<longleftrightarrow> x \<in> set xs \<and> f x = k"
proof
  assume *: "x \<in> set xs \<and> f x = k"
  then obtain y where y: "find (\<lambda>x. f x = k) xs = Some y"
    using find_someI [of x xs "\<lambda>x. f x = k"] by blast
  from find_SomeD [OF y] * assms have "y = x" by (metis distinct_map inj_onD)
  with y show "find (\<lambda>x. f x = k) xs = Some x" by simp
qed (rule find_SomeD)

lemma split_at_first:
  "x \<in> set xs \<Longrightarrow> xs = takeWhile (\<lambda>c. c \<noteq> x) xs @ x # drop (length (takeWhile (\<lambda>c. c \<noteq> x) xs) + 1) xs"
  by (induction xs) auto

subsection \<open>Machines with an invariant\<close>

text \<open>The contract of a component that moves from state to state: its invariant holds at the start and
  every step keeps it. Then it holds in every reachable state, and a property that steps keep under
  the invariant, once true, stays true.\<close>

locale invariant_machine =
  fixes initial :: "'s \<Rightarrow> bool" and move :: "'s \<Rightarrow> 's \<Rightarrow> bool" and invariant :: "'s \<Rightarrow> bool"
  assumes initial_invariant: "initial s \<Longrightarrow> invariant s"
    and move_invariant: "invariant s \<Longrightarrow> move s s' \<Longrightarrow> invariant s'"
begin

lemma moves_invariant: "move\<^sup>*\<^sup>* s s' \<Longrightarrow> invariant s \<Longrightarrow> invariant s'"
  by (induction rule: rtranclp_induct) (auto intro: move_invariant)

lemma reachable_invariant: "initial s \<Longrightarrow> move\<^sup>*\<^sup>* s s' \<Longrightarrow> invariant s'"
  by (rule moves_invariant [OF _ initial_invariant])

lemma stable:
  assumes "\<And>s s'. invariant s \<Longrightarrow> P s \<Longrightarrow> move s s' \<Longrightarrow> P s'" "move\<^sup>*\<^sup>* s s'" "invariant s" "P s"
  shows "P s'"
  using assms(2-4) by (induction rule: rtranclp_induct) (auto intro: assms(1) moves_invariant)

end

end
