(* ===== verification/Utf8.thy ===== *)
theory Utf8
  imports Prelude
begin

text \<open>
  \<^bold>\<open>common/utf8.hpp\<close>: the strict UTF-8 validator every text field passes through, and
  \<open>utf8_scalar_count\<close> of \<open>daemon/account_audit.cpp\<close>. The validator's index loop is a recursion on
  the unread suffix. The reference is the standard encoder of Unicode scalar values: the
  validator accepts exactly the encodings of scalar sequences, and the scalar count is the number
  of scalars encoded.
\<close>

subsection \<open>The validator\<close>

definition utf8_lead :: "nat \<Rightarrow> (nat \<times> nat) option" where
  "utf8_lead first =
     (if first \<le> 0x7F then Some (1, first)
      else if 0xC2 \<le> first \<and> first \<le> 0xDF then Some (2, first AND 0x1F)
      else if 0xE0 \<le> first \<and> first \<le> 0xEF then Some (3, first AND 0x0F)
      else if 0xF0 \<le> first \<and> first \<le> 0xF4 then Some (4, first AND 0x07)
      else None)"

fun utf8_continuations :: "nat \<Rightarrow> bytes \<Rightarrow> nat option" where
  "utf8_continuations codepoint [] = Some codepoint"
| "utf8_continuations codepoint (byte # rest) =
     (if byte AND 0xC0 \<noteq> 0x80 then None
      else utf8_continuations (push_bit 6 codepoint OR (byte AND 0x3F)) rest)"

definition utf8_rejected :: "nat \<Rightarrow> nat \<Rightarrow> bool" where
  "utf8_rejected len codepoint \<longleftrightarrow>
     len = 3 \<and> codepoint < 0x800 \<or> len = 4 \<and> codepoint < 0x10000 \<or>
     0xD800 \<le> codepoint \<and> codepoint \<le> 0xDFFF \<or> codepoint > 0x10FFFF"

function utf8_loop :: "bytes \<Rightarrow> bool" where
  "utf8_loop [] = True"
| "utf8_loop (first # rest) =
     (case utf8_lead first of
        None \<Rightarrow> False
      | Some (len, codepoint) \<Rightarrow>
          if len > length (first # rest) then False
          else (case utf8_continuations codepoint (take (len - 1) rest) of
                  None \<Rightarrow> False
                | Some codepoint' \<Rightarrow>
                    if utf8_rejected len codepoint' then False
                    else utf8_loop (drop (len - 1) rest)))"
  by pat_completeness auto
termination
  by (relation "measure length") auto

definition valid_utf8 :: "string \<Rightarrow> bool" where
  "valid_utf8 value = utf8_loop (bytes_of value)"

definition utf8_first :: "nat \<Rightarrow> bool" where
  "utf8_first byte \<longleftrightarrow> byte AND 0xC0 \<noteq> 0x80"

definition utf8_scalar_count :: "string \<Rightarrow> nat option" where
  "utf8_scalar_count value =
     (if \<not> valid_utf8 value then None
      else Some (length (filter (\<lambda>c. utf8_first (byte_of c)) value)))"

text \<open>Two sources decode a text that has passed \<open>valid_utf8\<close> once more, to look for a forbidden scalar:
  \<open>contains_control_scalar\<close> of \<open>daemon/m6_domain.cpp\<close> and \<open>valid_safe_basename\<close> of
  \<open>daemon/account_audit.cpp\<close>. The loop is the same, the test of the lead byte differs. Every continuation
  byte it reads is there, since the text is valid.\<close>

function scan_scalars :: "(nat \<Rightarrow> nat \<times> nat) \<Rightarrow> (nat \<Rightarrow> bool) \<Rightarrow> bytes \<Rightarrow> bool" where
  "scan_scalars lead bad [] = False"
| "scan_scalars lead bad (first # rest) =
     (let (len, start) = lead first;
          codepoint = foldl (\<lambda>cp byte. push_bit 6 cp OR (byte AND 0x3F)) start (take (len - 1) rest)
      in if bad codepoint then True else scan_scalars lead bad (drop (len - 1) rest))"
  by pat_completeness auto
termination
  by (relation "measure (\<lambda>(l, b, bs). length bs)") auto

subsection \<open>The reference encoder\<close>

definition is_scalar :: "nat \<Rightarrow> bool" where
  "is_scalar s \<longleftrightarrow> s \<le> 0x10FFFF \<and> \<not> (0xD800 \<le> s \<and> s \<le> 0xDFFF)"

definition encode_scalar :: "nat \<Rightarrow> bytes" where
  "encode_scalar s =
     (if s < 0x80 then [s]
      else if s < 0x800 then [0xC0 + s div 64, 0x80 + s mod 64]
      else if s < 0x10000 then [0xE0 + s div 4096, 0x80 + s div 64 mod 64, 0x80 + s mod 64]
      else [0xF0 + s div 262144, 0x80 + s div 4096 mod 64, 0x80 + s div 64 mod 64, 0x80 + s mod 64])"

definition encode_scalars :: "nat list \<Rightarrow> bytes" where
  "encode_scalars ss = concat (map encode_scalar ss)"

subsection \<open>Masks as arithmetic\<close>

lemma and_mask_mod:
  "(n::nat) AND 0x3F = n mod 64" "n AND 0x1F = n mod 32" "n AND 0x0F = n mod 16" "n AND 0x07 = n mod 8"
  using take_bit_eq_mask [of 6 n] take_bit_eq_mask [of 5 n] take_bit_eq_mask [of 4 n] take_bit_eq_mask [of 3 n]
  by (simp_all add: take_bit_eq_mod mask_eq_exp_minus_1)

lemma shift_or_add: "push_bit 6 c OR ((b::nat) AND 0x3F) = c * 64 + b mod 64"
proof -
  have *: "b AND 0x3F = take_bit 6 b"
    by (simp add: take_bit_eq_mask mask_eq_exp_minus_1)
  have "push_bit 6 c AND take_bit 6 b = 0"
    by (rule bit_eqI) (auto simp: bit_simps)
  then have "push_bit 6 c OR take_bit 6 b = push_bit 6 c + take_bit 6 b"
    by (rule disjunctive_add_eq_or [symmetric])
  then show ?thesis
    by (simp add: * push_bit_eq_mult take_bit_eq_mod)
qed
lemma top_mask: "(b::nat) AND 0xC0 = 64 * (b div 64 mod 4)"
proof -
  have "b AND push_bit 6 m = push_bit 6 (drop_bit 6 b AND m)" for m
    by (rule bit_eqI) (auto simp: bit_simps)
  from this [of 3] have "b AND push_bit 6 3 = push_bit 6 (drop_bit 6 b AND 3)" .
  moreover have "drop_bit 6 b AND 3 = drop_bit 6 b mod 4"
    using take_bit_eq_mask [of 2 "drop_bit 6 b"] by (simp add: take_bit_eq_mod mask_eq_exp_minus_1)
  ultimately show ?thesis by (simp add: push_bit_eq_mult drop_bit_eq_div)
qed

lemma continuation_byte: "a < 64 \<Longrightarrow> (128 + a) AND 0xC0 = (0x80::nat)"
proof -
  assume "a < 64"
  then have "(128 + a) div 64 = 2" by simp
  then show ?thesis by (simp add: top_mask)
qed

lemma continuation_byteE:
  assumes "b AND 0xC0 = 0x80" and "b < (256::nat)"
  obtains a where "b = 128 + a" and "a < 64"
proof -
  have "b div 64 mod 4 = 2" using assms(1) by (simp add: top_mask)
  moreover have "b div 64 < 4" using assms(2) by simp
  ultimately have "b div 64 = 2" by simp
  then have "b = 128 + b mod 64" using div_mult_mod_eq [of b 64] by simp
  then show thesis using that [of "b mod 64"] by simp
qed

lemma mask_top: "a < 64 \<Longrightarrow> (128 + a) mod 64 = (a::nat)" "a < 32 \<Longrightarrow> (192 + a) mod 32 = a"
  "a < 16 \<Longrightarrow> (224 + a) mod 16 = a" "a < 8 \<Longrightarrow> (240 + a) mod 8 = a"
  by (simp_all add: mod_add_eq [symmetric, of 128] mod_add_eq [symmetric, of 192] mod_add_eq [symmetric, of 224] mod_add_eq [symmetric, of 240])
lemma digits2: "b < 64 \<Longrightarrow> (a * 64 + b) div 64 = a \<and> (a * 64 + b) mod 64 = (b::nat)"
  by simp
lemma digits3: "b < 64 \<Longrightarrow> c < 64 \<Longrightarrow> ((a * 64 + b) * 64 + c) div 4096 = (a::nat)"
proof -
  assume "b < 64" "c < 64"
  have "((a * 64 + b) * 64 + c) div (64 * 64) = ((a * 64 + b) * 64 + c) div 64 div 64"
    by (rule div_mult2_eq)
  then show ?thesis using \<open>b < 64\<close> \<open>c < 64\<close> by simp
qed
lemma digits4: "b < 64 \<Longrightarrow> c < 64 \<Longrightarrow> d < 64 \<Longrightarrow> (((a * 64 + b) * 64 + c) * 64 + d) div 262144 = (a::nat)"
proof -
  assume "b < 64" "c < 64" "d < 64"
  have "(((a * 64 + b) * 64 + c) * 64 + d) div (64 * 4096) = (((a * 64 + b) * 64 + c) * 64 + d) div 64 div 4096"
    by (rule div_mult2_eq)
  then show ?thesis using \<open>b < 64\<close> \<open>c < 64\<close> \<open>d < 64\<close> by (simp add: digits3)
qed

lemma base64_3: obtains a b c :: nat where "s = (a * 64 + b) * 64 + c" and "b < 64" and "c < 64"
  by (rule that [of "s div 64 div 64" "s div 64 mod 64" "s mod 64"]) simp_all

lemma shift_or_digit: "a < 64 \<Longrightarrow> push_bit 6 c OR a = c * 64 + (a::nat)"
  using shift_or_add [of c a] by (simp add: and_mask_mod)

lemmas utf8_arith = and_mask_mod shift_or_digit continuation_byte mask_top digits2 digits3 digits4

lemma encode_scalar_1: "s < 0x80 \<Longrightarrow> encode_scalar s = [s]"
  by (simp add: encode_scalar_def)

lemma encode_scalar_2:
  "b < 64 \<Longrightarrow> 2 \<le> a \<Longrightarrow> a < 32 \<Longrightarrow> encode_scalar (a * 64 + b) = [192 + a, 128 + b]"
  by (simp add: encode_scalar_def)

lemma encode_scalar_3:
  assumes "b < 64" "c < 64" "a < 16" "0x800 \<le> (a * 64 + b) * 64 + c"
  shows "encode_scalar ((a * 64 + b) * 64 + c) = [224 + a, 128 + b, 128 + c]"
proof -
  have "a \<le> 15" "b \<le> 63" "c \<le> 63" using assms by simp_all
  then have "(a * 64 + b) * 64 + c < 0x10000" by simp
  moreover have "((a * 64 + b) * 64 + c) div 64 = a * 64 + b" "((a * 64 + b) * 64 + c) mod 64 = c"
    using assms by (simp_all only: digits2)
  ultimately show ?thesis using assms unfolding encode_scalar_def by (simp only: digits3 digits2) simp
qed

lemma encode_scalar_4:
  assumes "b < 64" "c < 64" "d < 64" "0x10000 \<le> ((a * 64 + b) * 64 + c) * 64 + d"
  shows "encode_scalar (((a * 64 + b) * 64 + c) * 64 + d) = [240 + a, 128 + b, 128 + c, 128 + d]"
proof -
  have "(((a * 64 + b) * 64 + c) * 64 + d) div 64 = (a * 64 + b) * 64 + c" using assms by simp
  moreover have "(((a * 64 + b) * 64 + c) * 64 + d) div 4096 = a * 64 + b" using assms by (simp only: digits3)
  moreover have "((a * 64 + b) * 64 + c) mod 64 = c" "(((a * 64 + b) * 64 + c) * 64 + d) mod 64 = d"
    using assms by (simp_all only: digits2)
  ultimately show ?thesis using assms unfolding encode_scalar_def by (simp only: digits4 digits2) simp
qed

subsection \<open>Every encoding is accepted\<close>

lemma encode_scalar_parts:
  assumes "is_scalar s"
  obtains first cs len cp where "encode_scalar s = first # cs" "utf8_lead first = Some (len, cp)"
    "length cs = len - 1" "utf8_continuations cp cs = Some s" "\<not> utf8_rejected len s"
proof -
  have "s \<le> 0x10FFFF" using assms by (simp add: is_scalar_def)
  then consider "s < 0x80" | "0x80 \<le> s" "s < 0x800" | "0x800 \<le> s" "s < 0x10000" | "0x10000 \<le> s" "s \<le> 0x10FFFF"
    by linarith
  then show thesis
  proof cases
    case 1
    then show thesis by (intro that [of s "[]" 1 s]) (simp_all add: encode_scalar_def utf8_lead_def utf8_rejected_def)
  next
    case 2
    define a b where "a = s div 64" and "b = s mod 64"
    have s: "s = a * 64 + b" and b: "b < 64" by (simp_all add: a_def b_def)
    then have a: "2 \<le> a" "a < 32" using 2 by simp_all
    then have "utf8_lead (192 + a) = Some (2, a)"
      by (simp add: utf8_lead_def utf8_arith)
    moreover have "\<not> utf8_rejected 2 (a * 64 + b)"
      using 2 unfolding s [symmetric] by (simp add: utf8_rejected_def)
    ultimately show thesis
      using a b unfolding s by (intro that [of "192 + a" "[128 + b]" 2 a]) (simp_all add: encode_scalar_2 utf8_arith s)
  next
    case 3
    obtain a b c where s: "s = (a * 64 + b) * 64 + c" and bc: "b < 64" "c < 64" by (rule base64_3)
    then have a: "a < 16" using 3 by simp
    then have "utf8_lead (224 + a) = Some (3, a)"
      by (simp add: utf8_lead_def utf8_arith)
    moreover have "\<not> utf8_rejected 3 s"
      using 3 assms by (auto simp: utf8_rejected_def is_scalar_def)
    moreover have "encode_scalar s = [224 + a, 128 + b, 128 + c]"
      using 3 a bc unfolding s by (intro encode_scalar_3) auto
    moreover have "utf8_continuations a [128 + b, 128 + c] = Some s"
      using bc by (simp add: utf8_arith s)
    ultimately show thesis by (intro that [of "224 + a" "[128 + b, 128 + c]" 3 a]) simp_all
  next
    case 4
    obtain e c d where s': "s = (e * 64 + c) * 64 + d" and cd: "c < 64" "d < 64" by (rule base64_3)
    define a b where "a = e div 64" and "b = e mod 64"
    have e: "e = a * 64 + b" and b: "b < 64" by (simp_all add: a_def b_def)
    have s: "s = ((a * 64 + b) * 64 + c) * 64 + d" using s' e by simp
    then have a: "a < 5" using 4 by simp
    then have "utf8_lead (240 + a) = Some (4, a)"
      by (simp add: utf8_lead_def utf8_arith)
    moreover have "\<not> utf8_rejected 4 s"
      using 4 assms by (auto simp: utf8_rejected_def is_scalar_def)
    moreover have "encode_scalar s = [240 + a, 128 + b, 128 + c, 128 + d]"
      using 4 b cd unfolding s by (intro encode_scalar_4) auto
    moreover have "utf8_continuations a [128 + b, 128 + c, 128 + d] = Some s"
      using b cd by (simp add: utf8_arith s)
    ultimately show thesis by (intro that [of "240 + a" "[128 + b, 128 + c, 128 + d]" 4 a]) simp_all
  qed
qed

lemma utf8_loop_encode_scalar:
  assumes "is_scalar s"
  shows "utf8_loop (encode_scalar s @ rest) = utf8_loop rest"
proof -
  obtain first cs len cp where "encode_scalar s = first # cs" "utf8_lead first = Some (len, cp)"
    "length cs = len - 1" "utf8_continuations cp cs = Some s" "\<not> utf8_rejected len s"
    using assms by (rule encode_scalar_parts)
  moreover have "\<not> Suc (len - Suc 0 + length rest) < len" by arith
  ultimately show ?thesis by simp
qed

lemma utf8_loop_encode_scalars: "\<forall>s \<in> set ss. is_scalar s \<Longrightarrow> utf8_loop (encode_scalars ss)"
  by (induction ss) (simp_all add: encode_scalars_def utf8_loop_encode_scalar)

subsection \<open>Everything accepted is an encoding\<close>

lemma utf8_leadE:
  assumes "utf8_lead first = Some (len, cp)"
  obtains "len = 1" "first < 0x80" "cp = first"
    | "len = 2" "2 \<le> cp" "cp < 32" "first = 192 + cp"
    | "len = 3" "cp < 16" "first = 224 + cp"
    | "len = 4" "cp < 5" "first = 240 + cp"
proof -
  consider (1) "first \<le> 0x7F" | (2) "0xC2 \<le> first" "first \<le> 0xDF" | (3) "0xE0 \<le> first" "first \<le> 0xEF"
    | (4) "0xF0 \<le> first" "first \<le> 0xF4"
    using assms unfolding utf8_lead_def by (metis option.distinct(1))
  then show thesis
  proof cases
    case 1
    then have "utf8_lead first = Some (1, first)" by (simp add: utf8_lead_def)
    with assms have "len = 1" "cp = first" by simp_all
    with 1 show thesis using that(1) by simp
  next
    case 2
    then obtain a where "first = 192 + a" using le_Suc_ex [of 192 first] by auto
    with 2 have "first = 192 + a" "2 \<le> a" "a < 32" by simp_all
    then have "utf8_lead first = Some (2, a)" by (simp add: utf8_lead_def utf8_arith)
    with assms have "len = 2" "cp = a" by simp_all
    then show thesis using that(2) \<open>first = 192 + a\<close> \<open>2 \<le> a\<close> \<open>a < 32\<close> by simp
  next
    case 3
    then obtain a where "first = 224 + a" using le_Suc_ex [of 224 first] by auto
    with 3 have "first = 224 + a" "a < 16" by simp_all
    then have "utf8_lead first = Some (3, a)" by (simp add: utf8_lead_def utf8_arith)
    with assms have "len = 3" "cp = a" by simp_all
    then show thesis using that(3) \<open>first = 224 + a\<close> \<open>a < 16\<close> by simp
  next
    case 4
    then obtain a where "first = 240 + a" using le_Suc_ex [of 240 first] by auto
    with 4 have "first = 240 + a" "a < 5" by simp_all
    then have "utf8_lead first = Some (4, a)" by (simp add: utf8_lead_def utf8_arith)
    with assms have "len = 4" "cp = a" by simp_all
    then show thesis using that(4) \<open>first = 240 + a\<close> \<open>a < 5\<close> by simp
  qed
qed

lemma utf8_continuations_ConsE:
  assumes "utf8_continuations cp (b # rest) = Some cp'" and "b < 256"
  obtains a where "b = 128 + a" "a < 64" "utf8_continuations (cp * 64 + a) rest = Some cp'"
proof -
  from assms have "b AND 0xC0 = 0x80" by (auto split: if_splits)
  then obtain a where "b = 128 + a" "a < 64" using assms(2) by (rule continuation_byteE)
  with assms(1) show thesis using that by (simp add: utf8_arith)
qed

lemma encode_scalar_decoded:
  assumes lead: "utf8_lead first = Some (len, cp)"
    and cont: "utf8_continuations cp cs = Some cp'" and len: "length cs = len - 1"
    and bytes: "\<forall>b \<in> set cs. b < 256" and ok: "\<not> utf8_rejected len cp'"
  shows "is_scalar cp' \<and> encode_scalar cp' = first # cs"
proof -
  have scalar: "is_scalar cp'"
    using ok by (auto simp: utf8_rejected_def is_scalar_def)
  from lead have "encode_scalar cp' = first # cs"
  proof (cases rule: utf8_leadE)
    case 1
    then show ?thesis using cont len by (simp add: encode_scalar_1)
  next
    case 2
    then obtain b where cs: "cs = [b]" using len by (auto simp: length_Suc_conv)
    have "b < 256" using bytes cs by simp
    from utf8_continuations_ConsE [OF cont [unfolded cs] this] obtain a
      where "b = 128 + a" "a < 64" "cp' = cp * 64 + a" by (metis option.inject utf8_continuations.simps(1))
    then show ?thesis using 2 cs by (simp add: encode_scalar_2)
  next
    case 3
    then obtain b c where cs: "cs = [b, c]" using len by (auto simp: length_Suc_conv numeral_eq_Suc)
    have "b < 256" "c < 256" using bytes cs by simp_all
    from utf8_continuations_ConsE [OF cont [unfolded cs] this(1)] obtain a
      where a: "b = 128 + a" "a < 64" and rest: "utf8_continuations (cp * 64 + a) [c] = Some cp'" .
    from utf8_continuations_ConsE [OF rest \<open>c < 256\<close>] obtain d
      where "c = 128 + d" "d < 64" "cp' = (cp * 64 + a) * 64 + d" by (metis option.inject utf8_continuations.simps(1))
    note a this
    moreover from this have "0x800 \<le> (cp * 64 + a) * 64 + d"
      using ok 3 by (auto simp: utf8_rejected_def)
    ultimately show ?thesis using 3 cs by (simp only: encode_scalar_3)
  next
    case 4
    then obtain b c d where cs: "cs = [b, c, d]" using len by (auto simp: length_Suc_conv numeral_eq_Suc)
    have "b < 256" "c < 256" "d < 256" using bytes cs by simp_all
    from utf8_continuations_ConsE [OF cont [unfolded cs] this(1)] obtain a
      where a: "b = 128 + a" "a < 64" and rest: "utf8_continuations (cp * 64 + a) [c, d] = Some cp'" .
    from utf8_continuations_ConsE [OF rest \<open>c < 256\<close>] obtain e
      where e: "c = 128 + e" "e < 64" and rest': "utf8_continuations ((cp * 64 + a) * 64 + e) [d] = Some cp'" .
    from utf8_continuations_ConsE [OF rest' \<open>d < 256\<close>] obtain f
      where "d = 128 + f" "f < 64" "cp' = ((cp * 64 + a) * 64 + e) * 64 + f"
      by (metis option.inject utf8_continuations.simps(1))
    note a e this
    moreover from this have "0x10000 \<le> ((cp * 64 + a) * 64 + e) * 64 + f"
      using ok 4 by (auto simp: utf8_rejected_def)
    ultimately show ?thesis using 4 cs by (simp only: encode_scalar_4)
  qed
  with scalar show ?thesis ..
qed

lemma utf8_loop_decodes:
  "utf8_loop bs \<Longrightarrow> \<forall>b \<in> set bs. b < 256 \<Longrightarrow> \<exists>ss. (\<forall>s \<in> set ss. is_scalar s) \<and> bs = encode_scalars ss"
proof (induction bs rule: utf8_loop.induct)
  case 1
  show ?case by (rule exI [of _ "[]"]) (simp add: encode_scalars_def)
next
  case (2 first rest)
  from "2.prems"(1) obtain len cp cp' where lead: "utf8_lead first = Some (len, cp)"
    and fits: "\<not> len > length (first # rest)"
    and cont: "utf8_continuations cp (take (len - 1) rest) = Some cp'"
    and ok: "\<not> utf8_rejected len cp'" and tail: "utf8_loop (drop (len - 1) rest)"
    by (cases "utf8_lead first"; cases "utf8_continuations (snd (the (utf8_lead first)))
           (take (fst (the (utf8_lead first)) - 1) rest)") (auto split: if_splits)
  have "\<forall>b \<in> set (drop (len - 1) rest). b < 256"
    using "2.prems"(2) by (auto dest: in_set_dropD)
  from "2.IH" [OF lead refl fits cont ok tail this] obtain ss
    where ss: "\<forall>s \<in> set ss. is_scalar s" "drop (len - 1) rest = encode_scalars ss" by blast
  have "is_scalar cp' \<and> encode_scalar cp' = first # take (len - 1) rest"
    using lead cont _ _ ok
  proof (rule encode_scalar_decoded)
    show "length (take (len - 1) rest) = len - 1" using fits by simp
    show "\<forall>b \<in> set (take (len - 1) rest). b < 256"
      using "2.prems"(2) by (auto dest: in_set_takeD)
  qed
  then have "\<forall>s \<in> set (cp' # ss). is_scalar s" "first # rest = encode_scalars (cp' # ss)"
    using ss append_take_drop_id [of "len - 1" rest] by (simp_all add: encode_scalars_def)
  then show ?case by blast
qed

lemma bytes_of_bounded: "\<forall>b \<in> set (bytes_of s). b < 256"
  by (auto simp: bytes_of_def)

lemma valid_utf8_iff:
  "valid_utf8 value \<longleftrightarrow> (\<exists>ss. (\<forall>s \<in> set ss. is_scalar s) \<and> bytes_of value = encode_scalars ss)"
  unfolding valid_utf8_def
  by (metis bytes_of_bounded utf8_loop_decodes utf8_loop_encode_scalars)

subsection \<open>Counting scalars\<close>

lemma length_filter_bytes_of:
  "length (filter (\<lambda>c. utf8_first (byte_of c)) value) = length (filter utf8_first (bytes_of value))"
  by (induction "value") simp_all

lemma utf8_first_lead: "b < 128 \<or> 192 \<le> b \<and> b < 256 \<Longrightarrow> utf8_first b"
  by (auto simp: utf8_first_def top_mask)

lemma utf8_first_continuation: "a < 64 \<Longrightarrow> \<not> utf8_first (128 + a)"
  by (simp add: utf8_first_def continuation_byte)

lemma filter_encode_scalar: "is_scalar s \<Longrightarrow> length (filter utf8_first (encode_scalar s)) = 1"
  by (auto simp: encode_scalar_def is_scalar_def utf8_first_continuation intro!: utf8_first_lead)

lemma filter_encode_scalars:
  "\<forall>s \<in> set ss. is_scalar s \<Longrightarrow> length (filter utf8_first (encode_scalars ss)) = length ss"
  by (induction ss) (simp_all add: encode_scalars_def filter_encode_scalar)

lemma utf8_scalar_count_encoded:
  assumes "\<forall>s \<in> set ss. is_scalar s" and "bytes_of value = encode_scalars ss"
  shows "utf8_scalar_count value = Some (length ss)"
  using assms valid_utf8_iff [of "value"]
  by (auto simp: utf8_scalar_count_def length_filter_bytes_of filter_encode_scalars)

lemma utf8_scalar_count_le: "utf8_scalar_count value = Some n \<Longrightarrow> n \<le> length value"
  by (auto simp: utf8_scalar_count_def split: if_splits)

lemma foldl_continuations:
  "utf8_continuations cp bs = Some cp' \<Longrightarrow> foldl (\<lambda>cp byte. push_bit 6 cp OR (byte AND 0x3F)) cp bs = cp'"
  by (induction bs arbitrary: cp) (auto split: if_splits)

lemma scan_scalars_encode_scalar:
  assumes "is_scalar s" and "\<And>first len cp. utf8_lead first = Some (len, cp) \<Longrightarrow> lead first = (len, cp)"
  shows "scan_scalars lead bad (encode_scalar s @ rest) \<longleftrightarrow> bad s \<or> scan_scalars lead bad rest"
proof -
  obtain first cs len cp where e: "encode_scalar s = first # cs" "utf8_lead first = Some (len, cp)"
    "length cs = len - 1" "utf8_continuations cp cs = Some s" "\<not> utf8_rejected len s"
    using assms(1) by (rule encode_scalar_parts)
  from assms(2) [OF e(2)] e foldl_continuations [OF e(4)] show ?thesis by simp
qed

lemma scan_scalars_encode:
  assumes "\<And>first len cp. utf8_lead first = Some (len, cp) \<Longrightarrow> lead first = (len, cp)"
  shows "list_all is_scalar ss \<Longrightarrow> scan_scalars lead bad (encode_scalars ss) \<longleftrightarrow> list_ex bad ss"
  by (induction ss) (simp_all add: encode_scalars_def scan_scalars_encode_scalar [OF _ assms])

lemma valid_utf8_Nil [simp]: "valid_utf8 []"
  by (simp add: valid_utf8_def)

lemma utf8_loop_ascii: "\<forall>b \<in> set bs. b < 128 \<Longrightarrow> utf8_loop bs"
  by (induction bs) (simp_all add: utf8_lead_def utf8_rejected_def)

lemma valid_utf8_ascii: "\<forall>c \<in> set s. byte_of c < 128 \<Longrightarrow> valid_utf8 s"
  by (simp add: valid_utf8_def bytes_of_def utf8_loop_ascii)

subsection \<open>Properties\<close>

text \<open>
  C15: the validator accepts a byte string exactly when it is the UTF-8 encoding of a
  sequence of Unicode scalar values: no overlong form, no surrogate, nothing above U+10FFFF and
  no truncated sequence passes, and every encoded text does.
\<close>

theorem valid_utf8_correct:
  "valid_utf8 value \<longleftrightarrow> (\<exists>ss. list_all is_scalar ss \<and> bytes_of value = encode_scalars ss)"
  unfolding valid_utf8_iff list_all_iff ..

text \<open>
  C17: on the encoding of a sequence of scalars, counting the bytes that are not
  continuation bytes gives the number of scalars.
\<close>

theorem utf8_scalar_count_correct:
  assumes "list_all is_scalar ss" and "bytes_of value = encode_scalars ss"
  shows "utf8_scalar_count value = Some (length ss)"
  using assms by (simp add: list_all_iff utf8_scalar_count_encoded)

theorem utf8_scalar_count_correct_witness:
  "list_all is_scalar [0x41, 0xE9, 0x1F600] \<and>
   bytes_of [CHR 0x41, CHR 0xC3, CHR 0xA9, CHR 0xF0, CHR 0x9F, CHR 0x98, CHR 0x80] =
     encode_scalars [0x41, 0xE9, 0x1F600] \<and>
   utf8_scalar_count [CHR 0x41, CHR 0xC3, CHR 0xA9, CHR 0xF0, CHR 0x9F, CHR 0x98, CHR 0x80] = Some 3"
proof -
  let ?ss = "[0x41, 0xE9, 0x1F600] :: nat list"
  let ?v = "[CHR 0x41, CHR 0xC3, CHR 0xA9, CHR 0xF0, CHR 0x9F, CHR 0x98, CHR 0x80]"
  have 1: "list_all is_scalar ?ss" by (simp add: is_scalar_def)
  have 2: "bytes_of ?v = encode_scalars ?ss"
    by (simp add: encode_scalars_def encode_scalar_def byte_of_def)
  from utf8_scalar_count_correct [OF 1 2] 1 2 show ?thesis by simp
qed

end
