(* ===== verification/File_Status.thy ===== *)
theory File_Status
  imports Utf8
begin

text \<open>
  Files as the daemon sees them: the members of \<open>struct stat\<close> that its checks read, and a file of an
  account state directory with its contents. The kind and the permission bits of a file, one
  member \<open>st_mode\<close> in C, are two members here; \<open>st_perm\<close> is the mode masked with \<open>07777\<close>, so that
  \<open>0700\<close> is 448 and \<open>0600\<close> is 384.
\<close>

datatype file_kind = RegularFile | DirectoryFile | SymbolicLink | OtherFile

record stat =
  st_dev :: nat
  st_ino :: nat
  st_kind :: file_kind
  st_perm :: nat
  st_uid :: nat
  st_nlink :: nat
  st_size :: int

record stored_file =
  file_dev :: nat
  file_ino :: nat
  file_kind :: file_kind
  file_perm :: nat
  file_uid :: nat
  file_nlink :: nat
  file_contents :: string

definition stat_of :: "stored_file \<Rightarrow> stat" where
  "stat_of f =
     \<lparr>st_dev = file_dev f, st_ino = file_ino f, st_kind = file_kind f, st_perm = file_perm f, st_uid = file_uid f,
      st_nlink = file_nlink f, st_size = int (length (file_contents f))\<rparr>"

end
