(* ===== verification/Json_Value.thy ===== *)
theory Json_Value
  imports Utf8 "HOL-Library.List_Lexorder" "HOL-Library.Char_ord"
begin

text \<open>
  The JSON values the program reads and writes: \<open>nlohmann::json\<close> as the sources use it. An object
  is an association list in the order of its keys (\<open>nlohmann\<close> keeps a \<open>std::map\<close>), \<open>wf_json\<close>
  says that the keys are strictly increasing, that integers fit their 64-bit representation and
  that a negative number is never stored as unsigned. Binary values and values discarded by a
  parser callback never occur in the program and have no constructor; a float is a finite double,
  given as the rational it denotes. \<open>field v k\<close> is \<open>value["k"]\<close>, which the sources only evaluate
  behind a check that the key is present.
\<close>

subsection \<open>Values and their queries\<close>

datatype json =
    JNull
  | JBool bool
  | JInt int
  | JUInt nat
  | JFloat rat
  | JString string
  | JArray "json list"
  | JObject "(string \<times> json) list"

fun is_object :: "json \<Rightarrow> bool" where
  "is_object (JObject _) = True"
| "is_object _ = False"

fun is_array :: "json \<Rightarrow> bool" where
  "is_array (JArray _) = True"
| "is_array _ = False"

fun is_string :: "json \<Rightarrow> bool" where
  "is_string (JString _) = True"
| "is_string _ = False"

fun is_boolean :: "json \<Rightarrow> bool" where
  "is_boolean (JBool _) = True"
| "is_boolean _ = False"

fun is_number_unsigned :: "json \<Rightarrow> bool" where
  "is_number_unsigned (JUInt _) = True"
| "is_number_unsigned _ = False"

fun is_number_integer :: "json \<Rightarrow> bool" where
  "is_number_integer (JInt _) = True"
| "is_number_integer (JUInt _) = True"
| "is_number_integer _ = False"

fun is_number_float :: "json \<Rightarrow> bool" where
  "is_number_float (JFloat _) = True"
| "is_number_float _ = False"

definition is_number :: "json \<Rightarrow> bool" where
  "is_number v \<longleftrightarrow> is_number_integer v \<or> is_number_float v"

definition is_structured :: "json \<Rightarrow> bool" where
  "is_structured v \<longleftrightarrow> is_object v \<or> is_array v"

fun members_of :: "json \<Rightarrow> (string \<times> json) list" where
  "members_of (JObject ms) = ms"
| "members_of _ = []"

fun items_of :: "json \<Rightarrow> json list" where
  "items_of (JArray vs) = vs"
| "items_of _ = []"

fun string_of :: "json \<Rightarrow> string" where
  "string_of (JString s) = s"
| "string_of _ = []"

fun bool_of :: "json \<Rightarrow> bool" where
  "bool_of (JBool b) = b"
| "bool_of _ = False"

definition contains :: "json \<Rightarrow> string \<Rightarrow> bool" where
  "contains v k \<longleftrightarrow> map_of (members_of v) k \<noteq> None"

definition field :: "json \<Rightarrow> string \<Rightarrow> json" where
  "field v k = (case map_of (members_of v) k of None \<Rightarrow> JNull | Some x \<Rightarrow> x)"

text \<open>\<open>size()\<close> and \<open>empty()\<close>: null has size 0, every other scalar has size 1.\<close>

fun jsize :: "json \<Rightarrow> nat" where
  "jsize JNull = 0"
| "jsize (JArray vs) = length vs"
| "jsize (JObject ms) = length ms"
| "jsize _ = 1"

definition jempty :: "json \<Rightarrow> bool" where
  "jempty v \<longleftrightarrow> jsize v = 0"

text \<open>\<open>exact_fields(value, {names})\<close>, which several sources define for themselves: an object whose
  keys are the given ones.\<close>

definition exact_fields :: "json \<Rightarrow> string list \<Rightarrow> bool" where
  "exact_fields v names \<longleftrightarrow>
     is_object v \<and> jsize v = length names \<and> list_all (contains v) names"

subsection \<open>Numbers\<close>

text \<open>\<open>get<std::int64_t>()\<close> of an unsigned value converts modulo \<open>2 ^ 64\<close>, \<open>get<double>()\<close> of an
  integer rounds to 53 significant bits, ties to even.\<close>

definition as_int64 :: "nat \<Rightarrow> int" where
  "as_int64 n = (let m = n mod 2 ^ 64 in if m < 2 ^ 63 then int m else int m - 2 ^ 64)"

definition as_uint64 :: "int \<Rightarrow> nat" where
  "as_uint64 i = nat (i mod 2 ^ 64)"

fun get_int64 :: "json \<Rightarrow> int" where
  "get_int64 (JInt i) = i"
| "get_int64 (JUInt n) = as_int64 n"
| "get_int64 _ = 0"

fun get_uint64 :: "json \<Rightarrow> nat" where
  "get_uint64 (JInt i) = as_uint64 i"
| "get_uint64 (JUInt n) = n"
| "get_uint64 _ = 0"

fun bit_width :: "nat \<Rightarrow> nat" where
  "bit_width n = (if n = 0 then 0 else Suc (bit_width (n div 2)))"

declare bit_width.simps [simp del]

definition double_of_int :: "int \<Rightarrow> rat" where
  "double_of_int i =
     (let m = nat \<bar>i\<bar>; e = bit_width m - 53; q = m div 2 ^ e; r = m mod 2 ^ e;
          up = (e > 0 \<and> (2 * r > 2 ^ e \<or> 2 * r = 2 ^ e \<and> odd q));
          m' = (if up then q + 1 else q) * 2 ^ e
      in of_int (sgn i * int m'))"

text \<open>\<open>operator==\<close>: numbers of different representation are converted, containers are compared
  member by member.\<close>

fun json_eq :: "json \<Rightarrow> json \<Rightarrow> bool"
  and json_list_eq :: "json list \<Rightarrow> json list \<Rightarrow> bool"
  and json_members_eq :: "(string \<times> json) list \<Rightarrow> (string \<times> json) list \<Rightarrow> bool"
where
  "json_eq JNull w = (w = JNull)"
| "json_eq (JBool b) w = (w = JBool b)"
| "json_eq (JString s) w = (w = JString s)"
| "json_eq (JInt i) w =
     (case w of JInt j \<Rightarrow> i = j | JUInt n \<Rightarrow> i = as_int64 n | JFloat q \<Rightarrow> double_of_int i = q | _ \<Rightarrow> False)"
| "json_eq (JUInt n) w =
     (case w of JInt j \<Rightarrow> as_int64 n = j | JUInt m \<Rightarrow> n = m | JFloat q \<Rightarrow> double_of_int (int n) = q
      | _ \<Rightarrow> False)"
| "json_eq (JFloat q) w =
     (case w of JInt j \<Rightarrow> q = double_of_int j | JUInt m \<Rightarrow> q = double_of_int (int m) | JFloat r \<Rightarrow> q = r
      | _ \<Rightarrow> False)"
| "json_eq (JArray vs) w = (case w of JArray ws \<Rightarrow> json_list_eq vs ws | _ \<Rightarrow> False)"
| "json_eq (JObject ms) w = (case w of JObject ns \<Rightarrow> json_members_eq ms ns | _ \<Rightarrow> False)"
| "json_list_eq [] ws = (ws = [])"
| "json_list_eq (v # vs) ws = (case ws of [] \<Rightarrow> False | w # ws' \<Rightarrow> json_eq v w \<and> json_list_eq vs ws')"
| "json_members_eq [] ns = (ns = [])"
| "json_members_eq ((k, v) # ms) ns =
     (case ns of [] \<Rightarrow> False | (l, w) # ns' \<Rightarrow> k = l \<and> json_eq v w \<and> json_members_eq ms ns')"

subsection \<open>Well-formed values\<close>

definition strict_keys :: "(string \<times> 'a) list \<Rightarrow> bool" where
  "strict_keys ms \<longleftrightarrow> sorted_wrt (<) (map fst ms)"

fun wf_json :: "json \<Rightarrow> bool"
  and wf_items :: "json list \<Rightarrow> bool"
  and wf_members :: "(string \<times> json) list \<Rightarrow> bool"
where
  "wf_json (JInt i) = (- (2 ^ 63) \<le> i \<and> i < 2 ^ 63)"
| "wf_json (JUInt n) = (n < 2 ^ 64)"
| "wf_json (JArray vs) = wf_items vs"
| "wf_json (JObject ms) = (strict_keys ms \<and> wf_members ms)"
| "wf_json _ = True"
| "wf_items [] = True"
| "wf_items (v # vs) = (wf_json v \<and> wf_items vs)"
| "wf_members [] = True"
| "wf_members ((k, v) # ms) = (wf_json v \<and> wf_members ms)"

subsection \<open>Facts the components share\<close>

lemmas json_queries [json_eval] = contains_def field_def exact_fields_def jempty_def as_int64_def

lemma is_object_iff: "is_object v \<longleftrightarrow> (\<exists>ms. v = JObject ms)"
  by (cases v) simp_all

lemma is_array_iff: "is_array v \<longleftrightarrow> (\<exists>vs. v = JArray vs)"
  by (cases v) simp_all

lemma is_string_iff: "is_string v \<longleftrightarrow> (\<exists>s. v = JString s)"
  by (cases v) simp_all

lemma is_boolean_iff: "is_boolean v \<longleftrightarrow> (\<exists>b. v = JBool b)"
  by (cases v) simp_all

lemma is_number_integer_iff: "is_number_integer v \<longleftrightarrow> (\<exists>i. v = JInt i) \<or> (\<exists>n. v = JUInt n)"
  by (cases v) simp_all

lemma is_number_unsigned_iff: "is_number_unsigned v \<longleftrightarrow> (\<exists>n. v = JUInt n)"
  by (cases v) simp_all

lemmas json_shapes = is_object_iff is_array_iff is_string_iff is_boolean_iff is_number_integer_iff
  is_number_unsigned_iff

lemma contains_field: "field v k \<noteq> JNull \<Longrightarrow> contains v k"
  by (auto simp: field_def contains_def split: option.splits)

lemma contains_iff: "contains v k \<longleftrightarrow> k \<in> fst ` set (members_of v)"
  by (simp add: contains_def map_of_eq_None_iff)

lemma exact_fields_keys:
  assumes "exact_fields v names" and "distinct names"
  shows "fst ` set (members_of v) = set names"
proof -
  from assms(1) obtain ms where v: "v = JObject ms" and n: "length ms = length names"
    and sub: "set names \<subseteq> fst ` set ms"
    unfolding exact_fields_def is_object_iff list_all_iff contains_iff by fastforce
  have "card (fst ` set ms) \<le> length ms"
    by (metis card_length length_map list.set_map)
  then have "card (fst ` set ms) \<le> card (set names)"
    using n distinct_card [OF assms(2)] by simp
  with sub show ?thesis using card_seteq [OF _ sub] v by simp
qed

lemma exact_fields_contains: "exact_fields v names \<Longrightarrow> k \<in> set names \<Longrightarrow> contains v k"
  by (simp add: exact_fields_def list_all_iff)

lemma exact_fields_absent:
  "exact_fields v names \<Longrightarrow> distinct names \<Longrightarrow> k \<notin> set names \<Longrightarrow> \<not> contains v k"
  using exact_fields_keys [of v names] by (simp add: contains_iff)

lemma as_int64_small: "n < 2 ^ 63 \<Longrightarrow> as_int64 n = int n"
  by (simp add: as_int64_def)

lemma as_int64_range: "- (2 ^ 63) \<le> as_int64 n \<and> as_int64 n < 2 ^ 63"
proof -
  have "n mod 2 ^ 64 < 2 ^ 64" by simp
  then show ?thesis unfolding as_int64_def Let_def by (simp split: if_splits) linarith
qed

lemma json_eq_refl: "json_eq v v"
  and json_list_eq_refl: "json_list_eq vs vs"
  and json_members_eq_refl: "json_members_eq ms ms"
  by (induction v and vs and ms rule: wf_json_wf_items_wf_members.induct) auto

lemma json_eq_string [simp]: "json_eq v (JString s) \<longleftrightarrow> v = JString s"
  by (cases v) auto

lemma json_eq_bool [simp]: "json_eq v (JBool b) \<longleftrightarrow> v = JBool b"
  by (cases v) auto

lemma json_eq_null [simp]: "json_eq v JNull \<longleftrightarrow> v = JNull"
  by (cases v) auto

lemma strict_keys_distinct: "strict_keys ms \<Longrightarrow> distinct (map fst ms)"
  unfolding strict_keys_def using strict_sorted_iff by blast

end
