(* ===== verification/Operations.thy ===== *)
theory Operations
  imports Json_Value
begin

text \<open>
  \<^bold>\<open>proto/operation.hpp\<close>, \<^bold>\<open>daemon/m6_write_policy.cpp\<close>, \<^bold>\<open>daemon/write_operation.cpp\<close> and the tables at
  the head of \<^bold>\<open>daemon/account_audit.cpp\<close>: the operations of the program, under the names the wire
  and the audit log use. The enumerations overlap (a message edit is an \<open>M3Operation\<close> and an
  \<open>AccountAuditOperation\<close>), so the constructors carry the prefixes \<open>M3_\<close>, \<open>M6_\<close> and \<open>A_\<close>. The contract
  of a name table, that names and values determine each other, is a locale, interpreted on each
  table.
\<close>

subsection \<open>Operations of the message commands\<close>

datatype (plugins only: code size) m3_operation =
    M3_Send | M3_MsgEdit | M3_MsgDelete | M3_MsgForward | M3_MsgReact | M3_MsgPin | M3_MsgUnpin
  | M3_ChatMarkRead | M3_ChatMute | M3_ChatUnmute | M3_ChatPin | M3_ChatUnpin | M3_ChatArchive
  | M3_ChatUnarchive | M3_ChatJoin | M3_ChatLeave | M3_SavedAttach

record m3_identity =
  m3_operation :: m3_operation
  m3_canonical_name :: string
  m3_command_path :: string

definition m3_row :: "m3_operation \<Rightarrow> string \<Rightarrow> string \<Rightarrow> m3_identity" where
  "m3_row operation name path =
     \<lparr>m3_operation = operation, m3_canonical_name = name, m3_command_path = path\<rparr>"

definition kM3OperationIdentities :: "m3_identity list" where
  "kM3OperationIdentities =
    [m3_row M3_Send ''send'' ''send'',
     m3_row M3_MsgEdit ''msg_edit'' ''msg edit'',
     m3_row M3_MsgDelete ''msg_delete'' ''msg delete'',
     m3_row M3_MsgForward ''msg_forward'' ''msg forward'',
     m3_row M3_MsgReact ''msg_react'' ''msg react'',
     m3_row M3_MsgPin ''msg_pin'' ''msg pin'',
     m3_row M3_MsgUnpin ''msg_unpin'' ''msg unpin'',
     m3_row M3_ChatMarkRead ''chat_mark_read'' ''chat mark-read'',
     m3_row M3_ChatMute ''chat_mute'' ''chat mute'',
     m3_row M3_ChatUnmute ''chat_unmute'' ''chat unmute'',
     m3_row M3_ChatPin ''chat_pin'' ''chat pin'',
     m3_row M3_ChatUnpin ''chat_unpin'' ''chat unpin'',
     m3_row M3_ChatArchive ''chat_archive'' ''chat archive'',
     m3_row M3_ChatUnarchive ''chat_unarchive'' ''chat unarchive'',
     m3_row M3_ChatJoin ''chat_join'' ''chat join'',
     m3_row M3_ChatLeave ''chat_leave'' ''chat leave'',
     m3_row M3_SavedAttach ''saved_attach'' ''saved attach'']"

definition m3_operation_identity :: "m3_operation \<Rightarrow> m3_identity option" where
  "m3_operation_identity operation = find (\<lambda>i. m3_operation i = operation) kM3OperationIdentities"

definition parse_m3_operation :: "string \<Rightarrow> m3_operation option" where
  "parse_m3_operation name =
     map_option m3_operation (find (\<lambda>i. m3_canonical_name i = name) kM3OperationIdentities)"

definition m3_operation_for_path :: "string \<Rightarrow> m3_operation option" where
  "m3_operation_for_path path =
     map_option m3_operation (find (\<lambda>i. m3_command_path i = path) kM3OperationIdentities)"

text \<open>\<open>command_matches\<close>: the loop cuts one token off the path per element of the command.\<close>

function command_matches :: "string list \<Rightarrow> string \<Rightarrow> bool" where
  "command_matches command path =
     (if path = [] then command = []
      else case command of
             [] \<Rightarrow> False
           | part # parts \<Rightarrow>
               let token = takeWhile (\<lambda>c. c \<noteq> CHR '' '') path in
               if part \<noteq> token then False
               else command_matches parts (drop (length token + 1) path))"
  by pat_completeness auto
termination
  by (relation "measure (\<lambda>(c, p). length p)") auto

declare command_matches.simps [simp del]

definition m3_operation_for_command :: "string list \<Rightarrow> m3_operation option" where
  "m3_operation_for_command command =
     map_option m3_operation (find (\<lambda>i. command_matches command (m3_command_path i)) kM3OperationIdentities)"

subsection \<open>Operations of the account management commands\<close>

datatype (plugins only: code size) m6_operation =
    M6_ContactList | M6_ContactSearch | M6_ContactAdd | M6_ContactRemove | M6_ContactBlock
  | M6_ContactUnblock | M6_FolderList | M6_FolderShow | M6_FolderCreate | M6_FolderEdit
  | M6_FolderDelete | M6_FolderAddChat | M6_FolderRemoveChat | M6_TopicList | M6_TopicCreate
  | M6_TopicEdit | M6_TopicClose | M6_TopicReopen | M6_ChatSetTitle | M6_ChatSetPhoto
  | M6_ChatSetDescription | M6_ChatInviteLink | M6_ChatPromote | M6_ChatDemote | M6_ChatBan
  | M6_ChatUnban | M6_ChatKick | M6_ChatSetPermissions | M6_StorageStats | M6_StorageOptimize

datatype m6_tier = TierRead | TierWrite | TierDestructive

datatype session_operation = SessionList | SessionTerminate

fun session_operation_name :: "session_operation \<Rightarrow> string" where
  "session_operation_name SessionList = ''session_list''"
| "session_operation_name SessionTerminate = ''session_terminate''"

record m6_identity =
  m6_operation :: m6_operation
  m6_canonical_name :: string
  m6_command_path :: string
  m6_tier :: m6_tier
  m6_mutation :: bool
  m6_idempotent :: bool

definition m6_row :: "m6_operation \<Rightarrow> string \<Rightarrow> string \<Rightarrow> m6_tier \<Rightarrow> bool \<Rightarrow> bool \<Rightarrow> m6_identity" where
  "m6_row operation name path tier mutation idempotent =
     \<lparr>m6_operation = operation, m6_canonical_name = name, m6_command_path = path, m6_tier = tier,
      m6_mutation = mutation, m6_idempotent = idempotent\<rparr>"

definition kM6OperationIdentities :: "m6_identity list" where
  "kM6OperationIdentities =
    [m6_row M6_ContactList ''contact_list'' ''contact list'' TierRead False False,
     m6_row M6_ContactSearch ''contact_search'' ''contact search'' TierRead False False,
     m6_row M6_ContactAdd ''contact_add'' ''contact add'' TierWrite True True,
     m6_row M6_ContactRemove ''contact_remove'' ''contact remove'' TierWrite True True,
     m6_row M6_ContactBlock ''contact_block'' ''contact block'' TierWrite True True,
     m6_row M6_ContactUnblock ''contact_unblock'' ''contact unblock'' TierWrite True True,
     m6_row M6_FolderList ''folder_list'' ''folder list'' TierRead False False,
     m6_row M6_FolderShow ''folder_show'' ''folder show'' TierRead False False,
     m6_row M6_FolderCreate ''folder_create'' ''folder create'' TierWrite True True,
     m6_row M6_FolderEdit ''folder_edit'' ''folder edit'' TierWrite True True,
     m6_row M6_FolderDelete ''folder_delete'' ''folder delete'' TierDestructive True True,
     m6_row M6_FolderAddChat ''folder_add_chat'' ''folder add-chat'' TierWrite True True,
     m6_row M6_FolderRemoveChat ''folder_remove_chat'' ''folder remove-chat'' TierWrite True True,
     m6_row M6_TopicList ''topic_list'' ''topic list'' TierRead False False,
     m6_row M6_TopicCreate ''topic_create'' ''topic create'' TierWrite True True,
     m6_row M6_TopicEdit ''topic_edit'' ''topic edit'' TierWrite True True,
     m6_row M6_TopicClose ''topic_close'' ''topic close'' TierWrite True True,
     m6_row M6_TopicReopen ''topic_reopen'' ''topic reopen'' TierWrite True True,
     m6_row M6_ChatSetTitle ''chat_set_title'' ''chat set-title'' TierWrite True True,
     m6_row M6_ChatSetPhoto ''chat_set_photo'' ''chat set-photo'' TierWrite True True,
     m6_row M6_ChatSetDescription ''chat_set_description'' ''chat set-description'' TierWrite True True,
     m6_row M6_ChatInviteLink ''chat_invite_link'' ''chat invite-link'' TierDestructive True False,
     m6_row M6_ChatPromote ''chat_promote'' ''chat promote'' TierWrite True True,
     m6_row M6_ChatDemote ''chat_demote'' ''chat demote'' TierWrite True True,
     m6_row M6_ChatBan ''chat_ban'' ''chat ban'' TierDestructive True True,
     m6_row M6_ChatUnban ''chat_unban'' ''chat unban'' TierWrite True True,
     m6_row M6_ChatKick ''chat_kick'' ''chat kick'' TierDestructive True True,
     m6_row M6_ChatSetPermissions ''chat_set_permissions'' ''chat set-permissions'' TierWrite True True,
     m6_row M6_StorageStats ''storage_stats'' ''storage stats'' TierRead False False,
     m6_row M6_StorageOptimize ''storage_optimize'' ''storage optimize'' TierDestructive True False]"

definition m6_operation_identity :: "m6_operation \<Rightarrow> m6_identity option" where
  "m6_operation_identity operation = find (\<lambda>i. m6_operation i = operation) kM6OperationIdentities"

definition parse_m6_operation :: "string \<Rightarrow> m6_operation option" where
  "parse_m6_operation name =
     map_option m6_operation (find (\<lambda>i. m6_canonical_name i = name) kM6OperationIdentities)"

definition m6_operation_for_path :: "string \<Rightarrow> m6_operation option" where
  "m6_operation_for_path path =
     map_option m6_operation (find (\<lambda>i. m6_command_path i = path) kM6OperationIdentities)"

definition m6_operation_for_command :: "string list \<Rightarrow> m6_operation option" where
  "m6_operation_for_command command =
     map_option m6_operation (find (\<lambda>i. command_matches command (m6_command_path i)) kM6OperationIdentities)"

text \<open>\<open>valid_idempotency_key\<close>.\<close>

definition valid_idempotency_key :: "string \<Rightarrow> bool" where
  "valid_idempotency_key key \<longleftrightarrow>
     (if key = [] \<or> length key > 128 then False
      else if \<not> is_alnum (hd key) then False
      else list_all (\<lambda>c. is_alnum c \<or> c = CHR ''.'' \<or> c = CHR ''_'' \<or> c = CHR '':'' \<or> c = CHR ''-'') (tl key))"

subsection \<open>Write policies\<close>

record m6_write_policy =
  policy_operation :: m6_operation
  policy_audit_name :: string
  policy_functions :: "string \<times> string"
  policy_function_count :: nat
  policy_idempotent :: bool
  policy_uses_photo_spool :: bool

definition policy_row ::
  "m6_operation \<Rightarrow> string \<Rightarrow> string \<times> string \<Rightarrow> nat \<Rightarrow> bool \<Rightarrow> bool \<Rightarrow> m6_write_policy" where
  "policy_row operation name functions n idempotent photo =
     \<lparr>policy_operation = operation, policy_audit_name = name, policy_functions = functions,
      policy_function_count = n, policy_idempotent = idempotent, policy_uses_photo_spool = photo\<rparr>"

definition kPolicies :: "m6_write_policy list" where
  "kPolicies =
    [policy_row M6_ContactAdd ''contact_add'' (''addContact'', '''') 1 True False,
     policy_row M6_ContactRemove ''contact_remove'' (''removeContacts'', '''') 1 True False,
     policy_row M6_ContactBlock ''contact_block'' (''setMessageSenderBlockList'', '''') 1 True False,
     policy_row M6_ContactUnblock ''contact_unblock'' (''setMessageSenderBlockList'', '''') 1 True False,
     policy_row M6_FolderCreate ''folder_create'' (''createChatFolder'', '''') 1 True False,
     policy_row M6_FolderEdit ''folder_edit'' (''editChatFolder'', '''') 1 True False,
     policy_row M6_FolderDelete ''folder_delete'' (''deleteChatFolder'', '''') 1 True False,
     policy_row M6_FolderAddChat ''folder_add_chat'' (''editChatFolder'', '''') 1 True False,
     policy_row M6_FolderRemoveChat ''folder_remove_chat'' (''editChatFolder'', '''') 1 True False,
     policy_row M6_TopicCreate ''topic_create'' (''createForumTopic'', '''') 1 True False,
     policy_row M6_TopicEdit ''topic_edit'' (''editForumTopic'', '''') 1 True False,
     policy_row M6_TopicClose ''topic_close'' (''toggleForumTopicIsClosed'', '''') 1 True False,
     policy_row M6_TopicReopen ''topic_reopen'' (''toggleForumTopicIsClosed'', '''') 1 True False,
     policy_row M6_ChatSetTitle ''chat_set_title'' (''setChatTitle'', '''') 1 True False,
     policy_row M6_ChatSetPhoto ''chat_set_photo'' (''setChatPhoto'', '''') 1 True True,
     policy_row M6_ChatSetDescription ''chat_set_description'' (''setChatDescription'', '''') 1 True False,
     policy_row M6_ChatInviteLink ''chat_invite_link'' (''createChatInviteLink'', ''revokeChatInviteLink'') 2 False False,
     policy_row M6_ChatPromote ''chat_promote'' (''setChatMemberStatus'', '''') 1 True False,
     policy_row M6_ChatDemote ''chat_demote'' (''setChatMemberStatus'', '''') 1 True False,
     policy_row M6_ChatBan ''chat_ban'' (''setChatMemberStatus'', '''') 1 True False,
     policy_row M6_ChatUnban ''chat_unban'' (''setChatMemberStatus'', '''') 1 True False,
     policy_row M6_ChatKick ''chat_kick'' (''setChatMemberStatus'', '''') 1 True False,
     policy_row M6_ChatSetPermissions ''chat_set_permissions'' (''setChatPermissions'', '''') 1 True False,
     policy_row M6_StorageOptimize ''storage_optimize'' (''optimizeStorage'', '''') 1 False False]"

definition find_policy :: "m6_operation \<Rightarrow> m6_write_policy option" where
  "find_policy operation = find (\<lambda>p. policy_operation p = operation) kPolicies"

definition parse_m6_write_operation :: "string \<Rightarrow> m6_operation option" where
  "parse_m6_write_operation name = map_option policy_operation (find (\<lambda>p. policy_audit_name p = name) kPolicies)"

definition valid_m6_tdlib_function :: "m6_operation \<Rightarrow> string \<Rightarrow> bool" where
  "valid_m6_tdlib_function operation function_name =
     (case find_policy operation of
        None \<Rightarrow> False
      | Some p \<Rightarrow>
          function_name \<in> set (take (policy_function_count p) [fst (policy_functions p), snd (policy_functions p)]))"

subsection \<open>Operations and stages of the audit log\<close>

datatype (plugins only: code size) audit_operation =
    A_Send | A_MsgEdit | A_MsgDelete | A_MsgForward | A_MsgReact | A_MsgPin | A_MsgUnpin
  | A_ChatMarkRead | A_ChatMute | A_ChatUnmute | A_ChatPin | A_ChatUnpin | A_ChatArchive
  | A_ChatUnarchive | A_ChatJoin | A_ChatLeave | A_SavedAttach | A_SessionTerminate
  | A_ContactAdd | A_ContactRemove | A_ContactBlock | A_ContactUnblock | A_FolderCreate
  | A_FolderEdit | A_FolderDelete | A_FolderAddChat | A_FolderRemoveChat | A_TopicCreate
  | A_TopicEdit | A_TopicClose | A_TopicReopen | A_ChatSetTitle | A_ChatSetPhoto
  | A_ChatSetDescription | A_ChatInviteLink | A_ChatPromote | A_ChatDemote | A_ChatBan
  | A_ChatUnban | A_ChatKick | A_ChatSetPermissions | A_StorageOptimize

datatype (plugins only: code size) audit_stage =
    IdempotencyPending | SpoolReady | DispatchStarted | TemporaryIdsObserved | ForwardProgress
  | MutationConfirmed

datatype mutation_state = MutationNone | MutationPossible | MutationCertain

datatype (plugins only: code size) durability_reason =
    DR_PathInvalid | DR_WrongOwner | DR_WrongType | DR_WrongMode | DR_WrongLinkCount
  | DR_TooLarge | DR_CapacityExhausted | DR_OpenFailed | DR_LockFailed | DR_ReadFailed
  | DR_WriteFailed | DR_SyncFailed | DR_RenameFailed | DR_DirectorySyncFailed | DR_ParseError
  | DR_SchemaError | DR_Contradiction

definition kOperations :: "(audit_operation \<times> string) list" where
  "kOperations =
    [(A_Send, ''send''),
     (A_MsgEdit, ''msg_edit''),
     (A_MsgDelete, ''msg_delete''),
     (A_MsgForward, ''msg_forward''),
     (A_MsgReact, ''msg_react''),
     (A_MsgPin, ''msg_pin''),
     (A_MsgUnpin, ''msg_unpin''),
     (A_ChatMarkRead, ''chat_mark_read''),
     (A_ChatMute, ''chat_mute''),
     (A_ChatUnmute, ''chat_unmute''),
     (A_ChatPin, ''chat_pin''),
     (A_ChatUnpin, ''chat_unpin''),
     (A_ChatArchive, ''chat_archive''),
     (A_ChatUnarchive, ''chat_unarchive''),
     (A_ChatJoin, ''chat_join''),
     (A_ChatLeave, ''chat_leave''),
     (A_SavedAttach, ''saved_attach''),
     (A_SessionTerminate, ''session_terminate''),
     (A_ContactAdd, ''contact_add''),
     (A_ContactRemove, ''contact_remove''),
     (A_ContactBlock, ''contact_block''),
     (A_ContactUnblock, ''contact_unblock''),
     (A_FolderCreate, ''folder_create''),
     (A_FolderEdit, ''folder_edit''),
     (A_FolderDelete, ''folder_delete''),
     (A_FolderAddChat, ''folder_add_chat''),
     (A_FolderRemoveChat, ''folder_remove_chat''),
     (A_TopicCreate, ''topic_create''),
     (A_TopicEdit, ''topic_edit''),
     (A_TopicClose, ''topic_close''),
     (A_TopicReopen, ''topic_reopen''),
     (A_ChatSetTitle, ''chat_set_title''),
     (A_ChatSetPhoto, ''chat_set_photo''),
     (A_ChatSetDescription, ''chat_set_description''),
     (A_ChatInviteLink, ''chat_invite_link''),
     (A_ChatPromote, ''chat_promote''),
     (A_ChatDemote, ''chat_demote''),
     (A_ChatBan, ''chat_ban''),
     (A_ChatUnban, ''chat_unban''),
     (A_ChatKick, ''chat_kick''),
     (A_ChatSetPermissions, ''chat_set_permissions''),
     (A_StorageOptimize, ''storage_optimize'')]"

definition kStages :: "(audit_stage \<times> string) list" where
  "kStages =
    [(IdempotencyPending, ''idempotency_pending''),
     (SpoolReady, ''spool_ready''),
     (DispatchStarted, ''dispatch_started''),
     (TemporaryIdsObserved, ''temporary_ids_observed''),
     (ForwardProgress, ''forward_progress''),
     (MutationConfirmed, ''mutation_confirmed'')]"

definition kDurabilityReasons :: "(durability_reason \<times> string) list" where
  "kDurabilityReasons =
    [(DR_PathInvalid, ''path_invalid''),
     (DR_WrongOwner, ''wrong_owner''),
     (DR_WrongType, ''wrong_type''),
     (DR_WrongMode, ''wrong_mode''),
     (DR_WrongLinkCount, ''wrong_link_count''),
     (DR_TooLarge, ''too_large''),
     (DR_CapacityExhausted, ''capacity_exhausted''),
     (DR_OpenFailed, ''open_failed''),
     (DR_LockFailed, ''lock_failed''),
     (DR_ReadFailed, ''read_failed''),
     (DR_WriteFailed, ''write_failed''),
     (DR_SyncFailed, ''sync_failed''),
     (DR_RenameFailed, ''rename_failed''),
     (DR_DirectorySyncFailed, ''directory_sync_failed''),
     (DR_ParseError, ''parse_error''),
     (DR_SchemaError, ''schema_error''),
     (DR_Contradiction, ''contradiction'')]"

definition table_name :: "('o \<times> string) list \<Rightarrow> 'o \<Rightarrow> string" where
  "table_name table value =
     (case find (\<lambda>item. fst item = value) table of None \<Rightarrow> [] | Some item \<Rightarrow> snd item)"

definition table_parse :: "('o \<times> string) list \<Rightarrow> string \<Rightarrow> 'o option" where
  "table_parse table name = map_option fst (find (\<lambda>item. snd item = name) table)"

definition account_audit_operation_name :: "audit_operation \<Rightarrow> string" where
  "account_audit_operation_name = table_name kOperations"

definition parse_account_audit_operation :: "string \<Rightarrow> audit_operation option" where
  "parse_account_audit_operation = table_parse kOperations"

definition account_audit_stage_name :: "audit_stage \<Rightarrow> string" where
  "account_audit_stage_name = table_name kStages"

definition parse_account_audit_stage :: "string \<Rightarrow> audit_stage option" where
  "parse_account_audit_stage = table_parse kStages"

definition account_audit_durability_reason_name :: "durability_reason \<Rightarrow> string" where
  "account_audit_durability_reason_name = table_name kDurabilityReasons"

fun account_audit_mutation_state_name :: "mutation_state \<Rightarrow> string" where
  "account_audit_mutation_state_name MutationNone = ''none''"
| "account_audit_mutation_state_name MutationPossible = ''possible''"
| "account_audit_mutation_state_name MutationCertain = ''confirmed''"

definition m6_operation_for_audit :: "audit_operation \<Rightarrow> m6_operation option" where
  "m6_operation_for_audit operation =
     (case find (\<lambda>entry. fst entry = operation) kOperations of
        None \<Rightarrow> None
      | Some found \<Rightarrow>
          (case parse_m6_operation (snd found) of
             None \<Rightarrow> None
           | Some parsed \<Rightarrow> if find_policy parsed \<noteq> None then Some parsed else None))"

subsection \<open>Write operations\<close>

text \<open>\<open>WriteOperation\<close> holds an optional audit operation; it is built from an operation of either kind.\<close>

type_synonym write_operation = "audit_operation option"

definition audit_for_m3 :: "m3_operation \<Rightarrow> audit_operation option" where
  "audit_for_m3 operation =
     (case m3_operation_identity operation of
        None \<Rightarrow> None
      | Some identity \<Rightarrow> parse_account_audit_operation (m3_canonical_name identity))"

definition audit_for_m6 :: "m6_operation \<Rightarrow> audit_operation option" where
  "audit_for_m6 operation =
     (case m6_operation_identity operation of
        None \<Rightarrow> None
      | Some identity \<Rightarrow>
          if \<not> m6_mutation identity then None else parse_account_audit_operation (m6_canonical_name identity))"

definition m6_of_audit :: "audit_operation \<Rightarrow> m6_operation option" where
  "m6_of_audit operation =
     (case parse_m6_operation (account_audit_operation_name operation) of
        None \<Rightarrow> None
      | Some parsed \<Rightarrow> if find_policy parsed \<noteq> None then Some parsed else None)"

definition write_operation_default :: write_operation where
  "write_operation_default = audit_for_m3 M3_Send"

definition write_operation_of_m3 :: "m3_operation \<Rightarrow> write_operation" where
  "write_operation_of_m3 operation = audit_for_m3 operation"

definition write_operation_of_m6 :: "m6_operation \<Rightarrow> write_operation" where
  "write_operation_of_m6 operation = audit_for_m6 operation"

definition write_operation_name :: "write_operation \<Rightarrow> string" where
  "write_operation_name w = (case w of None \<Rightarrow> [] | Some a \<Rightarrow> account_audit_operation_name a)"

definition write_operation_destructive :: "write_operation \<Rightarrow> bool" where
  "write_operation_destructive w =
     (case w of
        None \<Rightarrow> False
      | Some a \<Rightarrow>
          if a = A_SessionTerminate \<or> a = A_MsgDelete \<or> a = A_ChatLeave then True
          else (case m6_of_audit a of
                  None \<Rightarrow> False
                | Some operation \<Rightarrow>
                    (case m6_operation_identity operation of
                       None \<Rightarrow> False
                     | Some identity \<Rightarrow> m6_tier identity = TierDestructive)))"

definition write_operation_idempotent :: "write_operation \<Rightarrow> bool" where
  "write_operation_idempotent w =
     (case w of
        None \<Rightarrow> False
      | Some a \<Rightarrow>
          (case Option.bind (m6_of_audit a) find_policy of
             None \<Rightarrow> a \<noteq> A_SessionTerminate
           | Some policy \<Rightarrow> policy_idempotent policy))"

definition write_operation_uses_photo_spool :: "write_operation \<Rightarrow> bool" where
  "write_operation_uses_photo_spool w =
     (case w of
        None \<Rightarrow> False
      | Some a \<Rightarrow>
          (case Option.bind (m6_of_audit a) find_policy of
             None \<Rightarrow> False
           | Some policy \<Rightarrow> policy_uses_photo_spool policy))"

definition write_operation_equals_m3 :: "write_operation \<Rightarrow> m3_operation \<Rightarrow> bool" where
  "write_operation_equals_m3 w operation \<longleftrightarrow> w = audit_for_m3 operation"

definition write_operation_equals_m6 :: "write_operation \<Rightarrow> m6_operation \<Rightarrow> bool" where
  "write_operation_equals_m6 w operation \<longleftrightarrow> w = audit_for_m6 operation"

subsection \<open>The contract of a name table\<close>

locale name_table =
  fixes table :: "('o \<times> string) list"
  assumes distinct_values: "distinct (map fst table)"
    and distinct_names: "distinct (map snd table)"
    and total: "value \<in> fst ` set table"
    and named: "[] \<notin> snd ` set table"
begin

lemma table_name_member: "(value, table_name table value) \<in> set table"
proof -
  from total [of "value"] obtain item where "item \<in> set table" "fst item = value" by blast
  then have "find (\<lambda>item. fst item = value) table = Some item"
    using find_key [OF distinct_values] by blast
  with \<open>item \<in> set table\<close> \<open>fst item = value\<close> show ?thesis by (auto simp: table_name_def)
qed

lemma table_parse_iff: "table_parse table name = Some value \<longleftrightarrow> (value, name) \<in> set table"
  using find_key [OF distinct_names] by (force simp: table_parse_def)

lemma parse_name: "table_parse table (table_name table value) = Some value"
  by (simp add: table_parse_iff table_name_member)

lemma parse_some_iff: "table_parse table name = Some value \<longleftrightarrow> table_name table value = name"
proof
  assume "table_parse table name = Some value"
  then have "(value, name) \<in> set table" by (simp add: table_parse_iff)
  with table_name_member [of "value"] distinct_values show "table_name table value = name"
    by (metis eq_key_imp_eq_value)
qed (auto simp: parse_name)

lemma name_inject: "table_name table a = table_name table b \<longleftrightarrow> a = b"
  by (metis parse_name option.inject)

lemma name_nonempty: "table_name table value \<noteq> []"
  using table_name_member [of "value"] named by force

end

interpretation operation_table: name_table kOperations
proof
  show "v \<in> fst ` set kOperations" for v unfolding kOperations_def by (simp, cases v; simp)
qed (code_simp+)

interpretation stage_table: name_table kStages
proof
  show "v \<in> fst ` set kStages" for v unfolding kStages_def by (simp, cases v; simp)
qed (code_simp+)

interpretation reason_table: name_table kDurabilityReasons
proof
  show "v \<in> fst ` set kDurabilityReasons" for v unfolding kDurabilityReasons_def by (simp, cases v; simp)
qed (code_simp+)

subsection \<open>Commands and their tokens\<close>

text \<open>The reference for \<open>command_matches\<close>: the tokens of a path.\<close>

function path_tokens :: "string \<Rightarrow> string list" where
  "path_tokens path =
     (if path = [] then []
      else let token = takeWhile (\<lambda>c. c \<noteq> CHR '' '') path in token # path_tokens (drop (length token + 1) path))"
  by pat_completeness auto
termination
  by (relation "measure length") auto

declare path_tokens.simps [simp del]

lemma command_matches_iff: "command_matches command path \<longleftrightarrow> command = path_tokens path"
proof (induction command path rule: command_matches.induct)
  case (1 command path)
  show ?case
  proof (cases "path = []")
    case True
    then show ?thesis by (simp add: command_matches.simps path_tokens.simps)
  next
    case False
    then show ?thesis
      using "1.IH" by (subst command_matches.simps, subst path_tokens.simps)
        (auto simp: Let_def split: list.splits)
  qed
qed

definition m3_tokens :: "string list list" where
  "m3_tokens = map (\<lambda>i. path_tokens (m3_command_path i)) kM3OperationIdentities"

definition m6_tokens :: "string list list" where
  "m6_tokens = map (\<lambda>i. path_tokens (m6_command_path i)) kM6OperationIdentities"

lemma tokens_distinct: "distinct (m3_tokens @ m6_tokens)"
  by code_simp

lemma m3_for_command_iff:
  "m3_operation_for_command command = Some operation \<longleftrightarrow>
     (\<exists>i \<in> set kM3OperationIdentities. m3_operation i = operation \<and> command = path_tokens (m3_command_path i))"
proof -
  have d: "distinct (map (\<lambda>i. path_tokens (m3_command_path i)) kM3OperationIdentities)"
    using tokens_distinct by (simp add: m3_tokens_def)
  show ?thesis
    using find_key [OF d, of command]
    by (auto simp: m3_operation_for_command_def command_matches_iff eq_commute [of command])
qed

lemma m6_for_command_iff:
  "m6_operation_for_command command = Some operation \<longleftrightarrow>
     (\<exists>i \<in> set kM6OperationIdentities. m6_operation i = operation \<and> command = path_tokens (m6_command_path i))"
proof -
  have d: "distinct (map (\<lambda>i. path_tokens (m6_command_path i)) kM6OperationIdentities)"
    using tokens_distinct by (simp add: m6_tokens_def)
  show ?thesis
    using find_key [OF d, of command]
    by (auto simp: m6_operation_for_command_def command_matches_iff eq_commute [of command])
qed

lemma m3_identity_total: "\<exists>i. m3_operation_identity operation = Some i \<and> i \<in> set kM3OperationIdentities \<and> m3_operation i = operation"
proof -
  have "m3_operation_identity operation \<noteq> None" by (cases operation; hypsubst; code_simp)
  then show ?thesis unfolding m3_operation_identity_def by (auto dest: find_SomeD)
qed

lemma m6_identity_total: "\<exists>i. m6_operation_identity operation = Some i \<and> i \<in> set kM6OperationIdentities \<and> m6_operation i = operation"
proof -
  have "m6_operation_identity operation \<noteq> None" by (cases operation; hypsubst; code_simp)
  then show ?thesis unfolding m6_operation_identity_def by (auto dest: find_SomeD)
qed

subsection \<open>Properties\<close>

text \<open>
  C20: the names of audit operations, stages and durability reasons determine their
  values: parsing returns a value exactly for that value's name, and distinct values have distinct,
  non-empty names.
\<close>

theorem audit_names_roundtrip:
  "(parse_account_audit_operation name = Some operation \<longleftrightarrow> account_audit_operation_name operation = name) \<and>
   (parse_account_audit_stage name = Some stage \<longleftrightarrow> account_audit_stage_name stage = name) \<and>
   (account_audit_durability_reason_name r = account_audit_durability_reason_name r' \<longleftrightarrow> r = r') \<and>
   account_audit_operation_name operation \<noteq> [] \<and> account_audit_stage_name stage \<noteq> [] \<and>
   account_audit_durability_reason_name r \<noteq> []"
  by (simp add: parse_account_audit_operation_def account_audit_operation_name_def
      parse_account_audit_stage_def account_audit_stage_name_def account_audit_durability_reason_name_def
      operation_table.parse_some_iff stage_table.parse_some_iff reason_table.name_inject
      operation_table.name_nonempty stage_table.name_nonempty reason_table.name_nonempty)

text \<open>
  C21: routing of a command line is unambiguous. An operation of either family is found
  exactly for the tokens of its own command path, and no command line is claimed by both families.
\<close>

theorem command_routing:
  "(m3_operation_for_command command = Some a \<longleftrightarrow>
      (\<exists>i. m3_operation_identity a = Some i \<and> command = path_tokens (m3_command_path i))) \<and>
   (m6_operation_for_command command = Some b \<longleftrightarrow>
      (\<exists>i. m6_operation_identity b = Some i \<and> command = path_tokens (m6_command_path i))) \<and>
   (m3_operation_for_command command = None \<or> m6_operation_for_command command = None)"
proof (intro conjI)
  have u3: "i = j" if "i \<in> set kM3OperationIdentities" "j \<in> set kM3OperationIdentities" "m3_operation i = m3_operation j" for i j
  proof -
    have "distinct (map m3_operation kM3OperationIdentities)" by code_simp
    with that show ?thesis by (metis distinct_map inj_onD)
  qed
  have u6: "i = j" if "i \<in> set kM6OperationIdentities" "j \<in> set kM6OperationIdentities" "m6_operation i = m6_operation j" for i j
  proof -
    have "distinct (map m6_operation kM6OperationIdentities)" by code_simp
    with that show ?thesis by (metis distinct_map inj_onD)
  qed
  show "m3_operation_for_command command = Some a \<longleftrightarrow>
      (\<exists>i. m3_operation_identity a = Some i \<and> command = path_tokens (m3_command_path i))"
    unfolding m3_for_command_iff using m3_identity_total [of a] u3 by auto
  show "m6_operation_for_command command = Some b \<longleftrightarrow>
      (\<exists>i. m6_operation_identity b = Some i \<and> command = path_tokens (m6_command_path i))"
    unfolding m6_for_command_iff using m6_identity_total [of b] u6 by auto
  have "False" if "m3_operation_for_command command = Some x" "m6_operation_for_command command = Some y" for x y
  proof -
    from that have "command \<in> set m3_tokens" "command \<in> set m6_tokens"
      by (auto simp: m3_for_command_iff m6_for_command_iff m3_tokens_def m6_tokens_def)
    with tokens_distinct show False by auto
  qed
  then show "m3_operation_for_command command = None \<or> m6_operation_for_command command = None" by fastforce
qed

text \<open>
  C22: the classification a \<open>WriteOperation\<close> derives from audit names agrees with the
  operation's own row: it exists for mutations only, is destructive for the destructive tier only,
  idempotent as the row says, and a write policy exists exactly for the mutations, under the same name
  and with the same idempotence.
\<close>

theorem write_operation_classification:
  "case m6_operation_identity operation of
     None \<Rightarrow> False
   | Some i \<Rightarrow>
       (write_operation_of_m6 operation \<noteq> None \<longleftrightarrow> m6_mutation i) \<and>
       (write_operation_destructive (write_operation_of_m6 operation) \<longleftrightarrow> m6_mutation i \<and> m6_tier i = TierDestructive) \<and>
       (write_operation_idempotent (write_operation_of_m6 operation) \<longleftrightarrow> m6_mutation i \<and> m6_idempotent i) \<and>
       (case find_policy operation of
          None \<Rightarrow> \<not> m6_mutation i
        | Some p \<Rightarrow> m6_mutation i \<and> policy_audit_name p = m6_canonical_name i \<and> policy_idempotent p = m6_idempotent i \<and>
            parse_m6_write_operation (policy_audit_name p) = Some operation \<and>
            write_operation_name (write_operation_of_m6 operation) = policy_audit_name p)"
  by (cases operation; hypsubst; code_simp)

end
