(* ===== verification/Canonical_Json.thy ===== *)
theory Canonical_Json
  imports Json_Value
begin

text \<open>
  \<^bold>\<open>common/canonical_json.cpp\<close>: the canonical serialisation whose digest identifies audit records,
  idempotency requests and destructive plans. The output string is threaded through the three
  mutually recursive writers; a failing writer returns the error its caller returns. The main
  result is unique readability: two values with the same canonical text are the same value up to
  the order of object members and the signed or unsigned storage of an integer.
\<close>

subsection \<open>The writer\<close>

datatype canonical_json_error = UnsupportedType | InvalidUtf8

fun unsigned_bytes_less :: "string \<Rightarrow> string \<Rightarrow> bool" where
  "unsigned_bytes_less l [] = False"
| "unsigned_bytes_less [] (r # rs) = True"
| "unsigned_bytes_less (l # ls) (r # rs) =
     (if byte_of l < byte_of r then True
      else if byte_of r < byte_of l then False
      else unsigned_bytes_less ls rs)"

fun to_string_nat :: "nat \<Rightarrow> string" where
  "to_string_nat n =
     (if n < 10 then [char_of (48 + n)] else to_string_nat (n div 10) @ [char_of (48 + n mod 10)])"

declare to_string_nat.simps [simp del]

definition to_string_int :: "int \<Rightarrow> string" where
  "to_string_int i = (if i < 0 then CHR ''-'' # to_string_nat (nat (- i)) else to_string_nat (nat i))"

definition hex_digits :: string where
  "hex_digits = ''0123456789abcdef''"

definition quote_char :: char where "quote_char = CHR 0x22"
definition backslash_char :: char where "backslash_char = CHR 0x5C"

definition append_character :: "string \<Rightarrow> char \<Rightarrow> string" where
  "append_character output c =
     (let byte = byte_of c in
      if byte = byte_of quote_char \<or> byte = byte_of backslash_char then output @ [backslash_char, c]
      else if byte \<le> 0x1F then
        output @ backslash_char # ''u00'' @ [hex_digits ! drop_bit 4 byte, hex_digits ! (byte AND 0x0F)]
      else output @ [c])"

definition append_string :: "string \<Rightarrow> string \<Rightarrow> canonical_json_error + string" where
  "append_string value output =
     (if \<not> valid_utf8 value then Inl InvalidUtf8
      else Inr (foldl append_character (output @ [quote_char]) value @ [quote_char]))"

function (sequential) append_value :: "json \<Rightarrow> string \<Rightarrow> canonical_json_error + string"
  and append_items :: "bool \<Rightarrow> json list \<Rightarrow> string \<Rightarrow> canonical_json_error + string"
  and append_members :: "bool \<Rightarrow> (string \<times> json) list \<Rightarrow> string \<Rightarrow> canonical_json_error + string"
where
  "append_value JNull output = Inr (output @ ''null'')"
| "append_value (JBool b) output = Inr (output @ (if b then ''true'' else ''false''))"
| "append_value (JUInt n) output = Inr (output @ to_string_nat n)"
| "append_value (JInt i) output = Inr (output @ to_string_int i)"
| "append_value (JString s) output = append_string s output"
| "append_value (JArray vs) output = append_items True vs (output @ ''['')"
| "append_value (JObject ms) output = append_members True (sort_key fst ms) (output @ ''{'')"
| "append_value (JFloat q) output = Inl UnsupportedType"
| "append_items first [] output = Inr (output @ '']'')"
| "append_items first (v # vs) output =
     (case append_value v (if first then output else output @ '','') of
        Inl e \<Rightarrow> Inl e
      | Inr output' \<Rightarrow> append_items False vs output')"
| "append_members first [] output = Inr (output @ ''}'')"
| "append_members first ((k, v) # ms) output =
     (case append_string k (if first then output else output @ '','') of
        Inl e \<Rightarrow> Inl e
      | Inr output' \<Rightarrow>
          (case append_value v (output' @ '':'') of
             Inl e \<Rightarrow> Inl e
           | Inr output'' \<Rightarrow> append_members False ms output''))"
  by pat_completeness auto
termination
  by (relation "measure (\<lambda>x. case x of Inl (v, _) \<Rightarrow> 2 * size v
        | Inr (Inl (_, vs, _)) \<Rightarrow> 2 * size_list size vs + 1
        | Inr (Inr (_, ms, _)) \<Rightarrow> 2 * size_list (size_prod (\<lambda>_. 0) size) ms + 1)") auto

definition canonical_json :: "json \<Rightarrow> canonical_json_error + string" where
  "canonical_json value = append_value value []"

subsection \<open>The text of a value, without an output buffer\<close>

definition esc :: "char \<Rightarrow> string" where
  "esc c = append_character [] c"

definition quoted :: "string \<Rightarrow> string" where
  "quoted s = quote_char # concat (map esc s) @ [quote_char]"

definition shift_out :: "string \<Rightarrow> 'e + string \<Rightarrow> 'e + string" where
  "shift_out output r = (case r of Inl e \<Rightarrow> Inl e | Inr t \<Rightarrow> Inr (output @ t))"

definition canon_string :: "string \<Rightarrow> canonical_json_error + string" where
  "canon_string s = (if valid_utf8 s then Inr (quoted s) else Inl InvalidUtf8)"

function (sequential) canon :: "json \<Rightarrow> canonical_json_error + string"
  and canon_items :: "bool \<Rightarrow> json list \<Rightarrow> canonical_json_error + string"
  and canon_members :: "bool \<Rightarrow> (string \<times> json) list \<Rightarrow> canonical_json_error + string"
where
  "canon JNull = Inr ''null''"
| "canon (JBool b) = Inr (if b then ''true'' else ''false'')"
| "canon (JUInt n) = Inr (to_string_nat n)"
| "canon (JInt i) = Inr (to_string_int i)"
| "canon (JString s) = canon_string s"
| "canon (JArray vs) = shift_out ''['' (canon_items True vs)"
| "canon (JObject ms) = shift_out ''{'' (canon_members True (sort_key fst ms))"
| "canon (JFloat q) = Inl UnsupportedType"
| "canon_items first [] = Inr '']''"
| "canon_items first (v # vs) =
     (case canon v of
        Inl e \<Rightarrow> Inl e
      | Inr t \<Rightarrow> shift_out ((if first then [] else '','') @ t) (canon_items False vs))"
| "canon_members first [] = Inr ''}''"
| "canon_members first ((k, v) # ms) =
     (case canon_string k of
        Inl e \<Rightarrow> Inl e
      | Inr kt \<Rightarrow>
          (case canon v of
             Inl e \<Rightarrow> Inl e
           | Inr t \<Rightarrow>
               shift_out ((if first then [] else '','') @ kt @ '':'' @ t) (canon_members False ms)))"
  by pat_completeness auto
termination
  by (relation "measure (\<lambda>x. case x of Inl v \<Rightarrow> 2 * size v
        | Inr (Inl (_, vs)) \<Rightarrow> 2 * size_list size vs + 1
        | Inr (Inr (_, ms)) \<Rightarrow> 2 * size_list (size_prod (\<lambda>_. 0) size) ms + 1)") auto

text \<open>What the canonical text determines: the order of the members of an object and the storage of an
  integer as signed or unsigned are forgotten.\<close>

function (sequential) norm_json :: "json \<Rightarrow> json"
  and norm_items :: "json list \<Rightarrow> json list"
  and norm_members :: "(string \<times> json) list \<Rightarrow> (string \<times> json) list"
where
  "norm_json (JUInt n) = JInt (int n)"
| "norm_json (JArray vs) = JArray (norm_items vs)"
| "norm_json (JObject ms) = JObject (norm_members (sort_key fst ms))"
| "norm_json v = v"
| "norm_items [] = []"
| "norm_items (v # vs) = norm_json v # norm_items vs"
| "norm_members [] = []"
| "norm_members ((k, v) # ms) = (k, norm_json v) # norm_members ms"
  by pat_completeness auto
termination
  by (relation "measure (\<lambda>x. case x of Inl v \<Rightarrow> 2 * size v
        | Inr (Inl vs) \<Rightarrow> 2 * size_list size vs + 1
        | Inr (Inr ms) \<Rightarrow> 2 * size_list (size_prod (\<lambda>_. 0) size) ms + 1)") auto

lemma append_character_esc: "append_character output c = output @ esc c"
  by (simp add: esc_def append_character_def Let_def)

lemma foldl_append_character: "foldl append_character output s = output @ concat (map esc s)"
  by (induction s arbitrary: "output") (simp_all add: append_character_esc)

lemma append_string_canon: "append_string s output = shift_out output (canon_string s)"
  by (simp add: append_string_def canon_string_def shift_out_def foldl_append_character quoted_def)

lemma shift_out_simps [simp]: "shift_out a (Inl e) = Inl e" "shift_out a (Inr t) = Inr (a @ t)"
  by (simp_all add: shift_out_def)

lemma shift_out_shift_out [simp]: "shift_out a (shift_out b r) = shift_out (a @ b) r"
  by (simp add: shift_out_def split: sum.splits)

lemma append_canon:
  "append_value v out = shift_out out (canon v)"
  "append_items f vs out' = shift_out out' (canon_items f vs)"
  "append_members g ms out'' = shift_out out'' (canon_members g ms)"
proof (induction v out and f vs out' and g ms out''
    rule: append_value_append_items_append_members.induct)
  case (10 first v vs out)
  then show ?case by (cases "canon v"; cases first) simp_all
next
  case (12 first k v ms out)
  then show ?case
    by (cases "canon_string k"; cases "canon v"; cases first) (simp_all add: append_string_canon)
qed (simp_all add: append_string_canon)

lemma canonical_json_canon: "canonical_json v = canon v"
  by (simp add: canonical_json_def append_canon shift_out_def split: sum.splits)

lemma shift_out_Inr: "shift_out a r = Inr t \<longleftrightarrow> (\<exists>u. r = Inr u \<and> t = a @ u)"
  by (auto simp: shift_out_def split: sum.splits)

lemma unsigned_bytes_less_iff: "unsigned_bytes_less l r \<longleftrightarrow> l < r"
  by (induction l r rule: unsigned_bytes_less.induct)
    (auto simp: byte_of_def less_char_def not_less order.order_iff_strict)

subsection \<open>Unique readability\<close>

definition digits_value :: "string \<Rightarrow> nat" where
  "digits_value s = foldl (\<lambda>n c. 10 * n + (byte_of c - 48)) 0 s"

definition nodigit :: "string \<Rightarrow> bool" where
  "nodigit r \<longleftrightarrow> (case r of [] \<Rightarrow> True | c # _ \<Rightarrow> \<not> is_digit c)"

lemma byte_of_digit [simp]: "d < 10 \<Longrightarrow> byte_of (char_of (48 + d)) = 48 + d"
  by (simp add: byte_of_def)

lemma is_digit_char_of: "(d::nat) < 10 \<Longrightarrow> is_digit (char_of (48 + d))"
  by (simp add: is_digit_def char_between_def) (simp add: byte_of_def)

lemma digits_value_snoc: "digits_value (s @ [c]) = 10 * digits_value s + (byte_of c - 48)"
  by (simp add: digits_value_def)

lemma to_string_nat_correct:
  "digits_value (to_string_nat n) = n \<and> to_string_nat n \<noteq> [] \<and> list_all is_digit (to_string_nat n)"
proof (induction n rule: to_string_nat.induct)
  case (1 n)
  show ?case
  proof (cases "n < 10")
    case True
    then show ?thesis
      by (subst (1 2 3) to_string_nat.simps) (simp add: digits_value_def is_digit_char_of)
  next
    case False
    with 1 show ?thesis
      by (subst (1 2 3) to_string_nat.simps) (simp add: digits_value_snoc is_digit_char_of)
  qed
qed

lemma digits_prefix:
  assumes "list_all is_digit a" "list_all is_digit b" "nodigit r" "nodigit q" "a @ r = b @ q"
  shows "a = b \<and> r = q"
proof -
  have *: "takeWhile is_digit (xs @ ys) = xs" if "list_all is_digit xs" "nodigit ys" for xs ys
    using that by (auto simp: takeWhile_append list_all_iff nodigit_def split: list.splits)
  have "a = b" using assms(5) * [OF assms(1,3)] * [OF assms(2,4)] by simp
  with assms(5) show ?thesis by simp
qed

lemma to_string_nat_readable:
  "to_string_nat n @ r = to_string_nat m @ q \<Longrightarrow> nodigit r \<Longrightarrow> nodigit q \<Longrightarrow> n = m \<and> r = q"
  by (metis digits_prefix to_string_nat_correct)

lemma to_string_nat_hd: "\<exists>c cs. to_string_nat n = c # cs \<and> is_digit c"
  using to_string_nat_correct [of n] by (cases "to_string_nat n") auto

lemma to_string_nat_inject: "to_string_nat n = to_string_nat m \<Longrightarrow> n = m"
  by (metis to_string_nat_correct)

lemma minus_not_digit: "CHR ''-'' # x \<noteq> to_string_nat n @ y"
  using to_string_nat_hd [of n] by (auto simp: char_classes)

lemma to_string_int_readable:
  assumes "to_string_int i @ r = to_string_int j @ q" "nodigit r" "nodigit q"
  shows "i = j \<and> r = q"
proof -
  consider "i < 0" "j < 0" | "0 \<le> i" "0 \<le> j" | "i < 0" "0 \<le> j" | "0 \<le> i" "j < 0" by linarith
  then show ?thesis
  proof cases
    case 1
    then have "to_string_nat (nat (- i)) @ r = to_string_nat (nat (- j)) @ q"
      using assms(1) by (simp add: to_string_int_def)
    from to_string_nat_readable [OF this assms(2,3)] 1 show ?thesis by linarith
  next
    case 2
    then have "to_string_nat (nat i) @ r = to_string_nat (nat j) @ q"
      using assms(1) by (simp add: to_string_int_def)
    from to_string_nat_readable [OF this assms(2,3)] 2 show ?thesis by linarith
  next
    case 3
    then show ?thesis using assms minus_not_digit by (simp add: to_string_int_def)
  next
    case 4
    then show ?thesis using assms(1) minus_not_digit [symmetric] by (simp add: to_string_int_def)
  qed
qed

lemma to_string_int_of_nat: "to_string_int (int n) = to_string_nat n"
  by (simp add: to_string_int_def)

lemma hex_digits_inject: "i < 16 \<Longrightarrow> j < 16 \<Longrightarrow> hex_digits ! i = hex_digits ! j \<Longrightarrow> i = j"
  by (rule nth_eq_iff_index_eq [THEN iffD1, of hex_digits]) (simp_all add: hex_digits_def)

lemma esc_not_quote: "esc c @ x \<noteq> quote_char # y"
  by (auto simp: esc_def append_character_def Let_def quote_char_def backslash_char_def)

lemma esc_readable: "esc c @ x = esc d @ y \<Longrightarrow> c = d \<and> x = y"
proof -
  assume eq: "esc c @ x = esc d @ y"
  have nib: "n div 16 < 16" "n mod 16 < 16" if "n \<le> 31" for n :: nat using that by simp_all
  have low: "byte_of u = 16 * (byte_of u div 16) + byte_of u mod 16" for u by simp
  have "(n::nat) AND 15 = n mod 16" "drop_bit 4 n = n div 16" for n
    by (simp_all add: and_mask_mod drop_bit_eq_div)
  note masks = this
  have ctl: "c = d" if "byte_of c \<le> 31" "byte_of d \<le> 31" 
      "hex_digits ! (byte_of c div 16) = hex_digits ! (byte_of d div 16)"
      "hex_digits ! (byte_of c mod 16) = hex_digits ! (byte_of d mod 16)"
    using that hex_digits_inject nib low by (metis byte_of_inject)
  show ?thesis using eq ctl
    by (auto simp: esc_def append_character_def Let_def masks quote_char_def backslash_char_def
        split: if_splits)
qed

lemma quoted_body_readable:
  "concat (map esc s) @ quote_char # r = concat (map esc t) @ quote_char # q \<Longrightarrow> s = t \<and> r = q"
proof (induction s arbitrary: t)
  case Nil
  then show ?case by (cases t) (auto dest: sym simp: esc_not_quote)
next
  case (Cons c s)
  show ?case
  proof (cases t)
    case Nil
    with Cons.prems show ?thesis by (simp add: esc_not_quote)
  next
    case (Cons d u)
    with Cons.prems Cons.IH [of u] show ?thesis by (auto dest!: esc_readable)
  qed
qed

lemma quoted_readable: "quoted s @ r = quoted t @ q \<Longrightarrow> s = t \<and> r = q"
  unfolding quoted_def by (rule quoted_body_readable) simp

lemma canon_string_Inr: "canon_string s = Inr t \<longleftrightarrow> valid_utf8 s \<and> t = quoted s"
  by (auto simp: canon_string_def)

lemma quoted_hd: "quoted s = quote_char # tl (quoted s)"
  by (simp add: quoted_def)

text \<open>The first character of a text tells the kind of the value.\<close>

fun kind_of :: "json \<Rightarrow> nat" where
  "kind_of JNull = 0"
| "kind_of (JBool b) = (if b then 1 else 2)"
| "kind_of (JString _) = 4"
| "kind_of (JArray _) = 5"
| "kind_of (JObject _) = 6"
| "kind_of _ = 3"

definition kind_of_char :: "char \<Rightarrow> nat" where
  "kind_of_char c =
     (if c = CHR ''n'' then 0 else if c = CHR ''t'' then 1 else if c = CHR ''f'' then 2
      else if c = quote_char then 4 else if c = CHR ''['' then 5 else if c = CHR ''{'' then 6
      else if is_digit c \<or> c = CHR ''-'' then 3 else 7)"

lemma kind_of_char_simps:
  "kind_of_char CHR ''n'' = 0" "kind_of_char CHR ''t'' = 1" "kind_of_char CHR ''f'' = 2"
  "kind_of_char quote_char = 4" "kind_of_char CHR ''['' = 5" "kind_of_char CHR ''{'' = 6"
  by (simp_all add: kind_of_char_def quote_char_def)

lemma kind_of_char_digit: "is_digit c \<Longrightarrow> kind_of_char c = 3"
  by (auto simp: kind_of_char_def char_classes quote_char_def)

lemma kind_of_char_numbers:
  "\<exists>c cs. to_string_nat n = c # cs \<and> kind_of_char c = 3"
  "\<exists>c cs. to_string_int i = c # cs \<and> kind_of_char c = 3"
proof -
  have "kind_of_char CHR ''-'' = 3" by (simp add: kind_of_char_def quote_char_def)
  then show "\<exists>c cs. to_string_int i = c # cs \<and> kind_of_char c = 3"
    using to_string_nat_hd [of "nat i"] by (auto simp: to_string_int_def kind_of_char_digit)
  show "\<exists>c cs. to_string_nat n = c # cs \<and> kind_of_char c = 3"
    using to_string_nat_hd [of n] by (auto simp: kind_of_char_digit)
qed

lemma canon_hd: "canon v = Inr t \<Longrightarrow> t \<noteq> [] \<and> kind_of_char (hd t) = kind_of v"
proof (cases v)
  case (JInt i)
  then show "canon v = Inr t \<Longrightarrow> ?thesis" using kind_of_char_numbers(2) [of i] by auto
next
  case (JUInt n)
  then show "canon v = Inr t \<Longrightarrow> ?thesis" using kind_of_char_numbers(1) [of n] by auto
qed (auto simp: shift_out_Inr canon_string_Inr quoted_def kind_of_char_simps)

lemma canon_kind:
  assumes "canon v = Inr t" "canon w = Inr u" "t @ r = u @ q"
  shows "kind_of v = kind_of w"
proof -
  have "hd t = hd u"
    using canon_hd [OF assms(1)] canon_hd [OF assms(2)] arg_cong [OF assms(3), of hd] by simp
  then show ?thesis using canon_hd [OF assms(1)] canon_hd [OF assms(2)] by simp
qed

lemma canon_not_closing:
  assumes "canon v = Inr t"
  shows "t @ r \<noteq> CHR '']'' # q" "CHR '']'' # q \<noteq> t @ r"
proof -
  have "kind_of v < 7" by (cases v) simp_all
  moreover have "kind_of_char CHR '']'' = 7" by (simp add: kind_of_char_def quote_char_def char_classes)
  ultimately have "hd t \<noteq> CHR '']''" "t \<noteq> []" using canon_hd [OF assms] by auto
  then show "t @ r \<noteq> CHR '']'' # q" "CHR '']'' # q \<noteq> t @ r" by (cases t; simp)+
qed

lemma canon_items_False:
  "canon_items False vs = Inr t \<Longrightarrow> nodigit (t @ r) \<and> (\<exists>c cs. t = c # cs \<and> (c = CHR '','' \<longleftrightarrow> vs \<noteq> []))"
  by (cases vs) (auto simp: shift_out_Inr nodigit_def char_classes split: sum.splits)

lemma canon_members_False:
  "canon_members False ms = Inr t \<Longrightarrow> nodigit (t @ r) \<and> (\<exists>c cs. t = c # cs \<and> (c = CHR '','' \<longleftrightarrow> ms \<noteq> []))"
  by (cases ms) (auto simp: shift_out_Inr nodigit_def char_classes split: sum.splits)

lemma canon_items_first:
  "canon_items first vs = Inr t \<Longrightarrow> canon_items first ws = Inr u \<Longrightarrow> t @ r = u @ q \<Longrightarrow> vs = [] \<longleftrightarrow> ws = []"
  by (cases vs; cases ws; cases first) (auto simp: shift_out_Inr split: sum.splits dest: canon_not_closing)

lemma canon_members_first:
  "canon_members first ms = Inr t \<Longrightarrow> canon_members first ns = Inr u \<Longrightarrow> t @ r = u @ q \<Longrightarrow> ms = [] \<longleftrightarrow> ns = []"
  by (cases ms; cases ns; cases first)
    (auto simp: shift_out_Inr canon_string_Inr quoted_def quote_char_def split: sum.splits)

lemma canon_items_ConsE:
  assumes "canon_items first (v # vs) = Inr t"
  obtains a b where "canon v = Inr a" "canon_items False vs = Inr b"
    "t = (if first then [] else '','') @ a @ b"
  using assms by (auto simp: shift_out_Inr split: sum.splits)

lemma canon_members_ConsE:
  assumes "canon_members first ((k, v) # ms) = Inr t"
  obtains a b where "canon v = Inr a" "canon_members False ms = Inr b"
    "t = (if first then [] else '','') @ quoted k @ '':'' @ a @ b"
  using assms by (auto simp: shift_out_Inr canon_string_Inr split: sum.splits)

lemma canon_items_readable_Cons:
  assumes IHv: "\<And>w t u r q. canon v = Inr t \<Longrightarrow> canon w = Inr u \<Longrightarrow> t @ r = u @ q \<Longrightarrow> nodigit r \<Longrightarrow> nodigit q
      \<Longrightarrow> norm_json v = norm_json w \<and> r = q"
    and IHs: "\<And>ws t u r q. canon_items False vs = Inr t \<Longrightarrow> canon_items False ws = Inr u \<Longrightarrow> t @ r = u @ q
      \<Longrightarrow> norm_items vs = norm_items ws \<and> r = q"
    and t: "canon_items first (v # vs) = Inr t" and u: "canon_items first ws = Inr u" and eq: "t @ r = u @ q"
  shows "norm_items (v # vs) = norm_items ws \<and> r = q"
proof -
  obtain w ws' where ws: "ws = w # ws'"
    using canon_items_first [OF t u eq] by (cases ws) auto
  obtain a b where a: "canon v = Inr a" "canon_items False vs = Inr b"
    and ta: "t = (if first then [] else '','') @ a @ b" using t by (rule canon_items_ConsE)
  obtain c d where c: "canon w = Inr c" "canon_items False ws' = Inr d"
    and uc: "u = (if first then [] else '','') @ c @ d" using u [unfolded ws] by (rule canon_items_ConsE)
  have "a @ (b @ r) = c @ (d @ q)" using eq ta uc by simp
  from IHv [OF a(1) c(1) this canon_items_False [OF a(2), THEN conjunct1] canon_items_False [OF c(2), THEN conjunct1]]
  have n: "norm_json v = norm_json w" and e: "b @ r = d @ q" by (rule conjunct1, rule conjunct2)
  from IHs [OF a(2) c(2) e] n ws show ?thesis by simp
qed

lemma canon_members_readable_Cons:
  assumes IHv: "\<And>w t u r q. canon v = Inr t \<Longrightarrow> canon w = Inr u \<Longrightarrow> t @ r = u @ q \<Longrightarrow> nodigit r \<Longrightarrow> nodigit q
      \<Longrightarrow> norm_json v = norm_json w \<and> r = q"
    and IHs: "\<And>ns t u r q. canon_members False ms = Inr t \<Longrightarrow> canon_members False ns = Inr u \<Longrightarrow> t @ r = u @ q
      \<Longrightarrow> norm_members ms = norm_members ns \<and> r = q"
    and t: "canon_members first ((k, v) # ms) = Inr t" and u: "canon_members first ns = Inr u"
    and eq: "t @ r = u @ q"
  shows "norm_members ((k, v) # ms) = norm_members ns \<and> r = q"
proof -
  obtain l w ns' where ns: "ns = (l, w) # ns'"
    using canon_members_first [OF t u eq] by (cases ns) auto
  obtain a b where a: "canon v = Inr a" "canon_members False ms = Inr b"
    and ta: "t = (if first then [] else '','') @ quoted k @ '':'' @ a @ b" using t by (rule canon_members_ConsE)
  obtain c d where c: "canon w = Inr c" "canon_members False ns' = Inr d"
    and uc: "u = (if first then [] else '','') @ quoted l @ '':'' @ c @ d"
    using u [unfolded ns] by (rule canon_members_ConsE)
  have "quoted k @ '':'' @ a @ (b @ r) = quoted l @ '':'' @ c @ (d @ q)" using eq ta uc by simp
  from quoted_readable [OF this] have kl: "k = l" and "a @ (b @ r) = c @ (d @ q)" by simp_all
  from IHv [OF a(1) c(1) this(2) canon_members_False [OF a(2), THEN conjunct1] canon_members_False [OF c(2), THEN conjunct1]]
  have n: "norm_json v = norm_json w" and e: "b @ r = d @ q" by (rule conjunct1, rule conjunct2)
  from IHs [OF a(2) c(2) e] n ns kl show ?thesis by simp
qed

lemma canon_number_readable:
  assumes "kind_of v = 3" "kind_of w = 3" "canon v = Inr t" "canon w = Inr u" "t @ r = u @ q"
    "nodigit r" "nodigit q"
  shows "norm_json v = norm_json w \<and> r = q"
proof -
  have *: "\<exists>i. norm_json x = JInt i \<and> s = to_string_int i" if "kind_of x = 3" "canon x = Inr s" for x s
    using that by (cases x) (auto simp: to_string_int_of_nat split: if_splits)
  from * [OF assms(1,3)] * [OF assms(2,4)] obtain i j
    where "norm_json v = JInt i" "t = to_string_int i" "norm_json w = JInt j" "u = to_string_int j" by blast
  with to_string_int_readable [of i r j q] assms(5-7) show ?thesis by simp
qed

lemma canon_readable:
  shows "\<And>w t u r q. canon v = Inr t \<Longrightarrow> canon w = Inr u \<Longrightarrow> t @ r = u @ q \<Longrightarrow> nodigit r \<Longrightarrow> nodigit q
      \<Longrightarrow> norm_json v = norm_json w \<and> r = q"
    and "\<And>ws t u r q. canon_items f vs = Inr t \<Longrightarrow> canon_items f ws = Inr u \<Longrightarrow> t @ r = u @ q
      \<Longrightarrow> norm_items vs = norm_items ws \<and> r = q"
    and "\<And>ns t u r q. canon_members g ms = Inr t \<Longrightarrow> canon_members g ns = Inr u \<Longrightarrow> t @ r = u @ q
      \<Longrightarrow> norm_members ms = norm_members ns \<and> r = q"
proof (induction v and f vs and g ms rule: canon_canon_items_canon_members.induct)
  case (5 s)
  with canon_kind [OF 5(1-3)] show ?case
    by (cases w) (auto simp: canon_string_Inr dest: quoted_readable split: if_splits)
next
  case (6 vs)
  from canon_kind [OF 6(2-4)] obtain ws where w: "w = JArray ws" by (cases w) (auto split: if_splits)
  from 6(2,3) w obtain t' u' where "canon_items True vs = Inr t'" "canon_items True ws = Inr u'"
    "t = ''['' @ t'" "u = ''['' @ u'" by (auto simp: shift_out_Inr)
  with 6(1) [of t' ws u' r q] 6(4) w show ?case by simp
next
  case (7 ms)
  from canon_kind [OF 7(2-4)] obtain ns where w: "w = JObject ns" by (cases w) (auto split: if_splits)
  from 7(2,3) w obtain t' u' where "canon_members True (sort_key fst ms) = Inr t'"
    "canon_members True (sort_key fst ns) = Inr u'"
    "t = ''{'' @ t'" "u = ''{'' @ u'" by (auto simp: shift_out_Inr)
  with 7(1) [of t' "sort_key fst ns" u' r q] 7(4) w show ?case by simp
next
  case (10 first v vs)
  show ?case
  proof (rule canon_items_readable_Cons [OF 10(1) _ 10(3-5)])
    obtain a where a: "canon v = Inr a" using 10(3) by (rule canon_items_ConsE)
    show "norm_items vs = norm_items ws \<and> r = q"
      if "canon_items False vs = Inr t" "canon_items False ws = Inr u" "t @ r = u @ q" for ws t u r q
      using 10(2) [OF a that] .
  qed
next
  case (12 first k v ms)
  show ?case
  proof (rule canon_members_readable_Cons [OF _ _ 12(3-5)])
    obtain a where a: "canon v = Inr a" using 12(3) by (rule canon_members_ConsE)
    from 12(3) have k: "canon_string k = Inr (quoted k)"
      by (auto simp: canon_string_def split: if_splits)
    show "norm_json v = norm_json w \<and> r = q"
      if "canon v = Inr t" "canon w = Inr u" "t @ r = u @ q" "nodigit r" "nodigit q" for w t u r q
      using 12(1) [OF k that] .
    show "norm_members ms = norm_members ns \<and> r = q"
      if "canon_members False ms = Inr t" "canon_members False ns = Inr u" "t @ r = u @ q" for ns t u r q
      using 12(2) [OF k a that] .
  qed
next
  case (9 first)
  from canon_items_first [OF 9] have "ws = []" by simp
  with 9 show ?case by simp
next
  case (11 first)
  from canon_members_first [OF 11] have "ns = []" by simp
  with 11 show ?case by simp
next
  case 1
  with canon_kind [OF 1(1-3)] show ?case by (cases w) (auto split: if_splits)
next
  case (2 b)
  with canon_kind [OF 2(1-3)] show ?case by (cases w) (auto split: if_splits)
next
  case (3 n)
  show ?case
    by (rule canon_number_readable [OF _ _ 3]) (use canon_kind [OF 3(1-3)] in simp_all)
next
  case (4 i)
  show ?case
    by (rule canon_number_readable [OF _ _ 4]) (use canon_kind [OF 4(1-3)] in simp_all)
qed simp

subsection \<open>The normal form has the same text\<close>

lemma fst_norm_members [simp]: "map fst (norm_members ms) = map fst ms"
  by (induction ms) auto

lemma sort_key_norm_members: "sort_key fst (norm_members (sort_key fst ms)) = norm_members (sort_key fst ms)"
  for ms :: "(string \<times> json) list"
  by (rule sort_key_id_if_sorted) simp

lemma canon_norm:
  "canon (norm_json v) = canon v"
  "canon_items f (norm_items vs) = canon_items f vs"
  "canon_members g (norm_members ms) = canon_members g ms"
proof (induction v and vs and ms arbitrary: f and f g and f g
    rule: norm_json_norm_items_norm_members.induct)
qed (auto simp: to_string_int_of_nat sort_key_norm_members split: sum.splits)

lemma canonical_json_text_iff:
  assumes "canonical_json v = Inr t" and "canonical_json w = Inr u"
  shows "t = u \<longleftrightarrow> norm_json v = norm_json w"
proof
  assume "t = u"
  with assms canon_readable(1) [of v t w u "[]" "[]"] show "norm_json v = norm_json w"
    by (simp add: canonical_json_canon nodigit_def)
next
  assume "norm_json v = norm_json w"
  with assms canon_norm(1) [of v] canon_norm(1) [of w] show "t = u"
    by (simp add: canonical_json_canon)
qed

subsection \<open>When there is a canonical text\<close>

fun canonicalisable :: "json \<Rightarrow> bool"
  and canonicalisable_items :: "json list \<Rightarrow> bool"
  and canonicalisable_members :: "(string \<times> json) list \<Rightarrow> bool"
where
  "canonicalisable (JFloat _) = False"
| "canonicalisable (JString s) = valid_utf8 s"
| "canonicalisable (JArray vs) = canonicalisable_items vs"
| "canonicalisable (JObject ms) = canonicalisable_members ms"
| "canonicalisable _ = True"
| "canonicalisable_items [] = True"
| "canonicalisable_items (v # vs) = (canonicalisable v \<and> canonicalisable_items vs)"
| "canonicalisable_members [] = True"
| "canonicalisable_members ((k, v) # ms) = (valid_utf8 k \<and> canonicalisable v \<and> canonicalisable_members ms)"

lemma canonicalisable_members_set:
  "canonicalisable_members ms \<longleftrightarrow> (\<forall>(k, v) \<in> set ms. valid_utf8 k \<and> canonicalisable v)"
  by (induction ms) auto

lemma canonicalisable_members_sort [simp]:
  "canonicalisable_members (sort_key fst ms) = canonicalisable_members ms"
  by (simp add: canonicalisable_members_set)

lemma canon_defined:
  "(\<exists>t. canon v = Inr t) \<longleftrightarrow> canonicalisable v"
  "(\<exists>t. canon_items f vs = Inr t) \<longleftrightarrow> canonicalisable_items vs"
  "(\<exists>t. canon_members g ms = Inr t) \<longleftrightarrow> canonicalisable_members ms"
proof (induction v and f vs and g ms rule: canon_canon_items_canon_members.induct)
  case (10 first v vs)
  then show ?case by (cases "canon v") (auto simp: shift_out_Inr)
next
  case (12 first k v ms)
  then show ?case by (cases "canon_string k"; cases "canon v") (auto simp: shift_out_Inr canon_string_def split: if_splits)
qed (auto simp: shift_out_Inr canon_string_def)

subsection \<open>Properties\<close>

text \<open>
  C13: two values have the same canonical text exactly when they are the same value up
  to the order of object members and the signed or unsigned storage of integers. A digest of the
  text therefore identifies the value.
\<close>

theorem canonical_json_injective:
  assumes "canonical_json v = Inr t" and "canonical_json w = Inr u"
  shows "t = u \<longleftrightarrow> norm_json v = norm_json w"
  using assms by (rule canonical_json_text_iff)

theorem canonical_json_injective_witness:
  "norm_json (JObject [(''a'', JUInt 7), (''b'', JArray [JNull])]) =
     norm_json (JObject [(''b'', JArray [JNull]), (''a'', JInt 7)]) \<and>
   canonical_json (JObject [(''b'', JArray [JNull]), (''a'', JInt 7)]) =
     canonical_json (JObject [(''a'', JUInt 7), (''b'', JArray [JNull])])"
proof -
  let ?v = "JObject [(''a'', JUInt 7), (''b'', JArray [JNull])]"
  let ?w = "JObject [(''b'', JArray [JNull]), (''a'', JInt 7)]"
  have n: "norm_json ?v = norm_json ?w" by (simp add: insort_key_def)
  have "canonicalisable ?v" "canonicalisable ?w"
    by (simp_all add: valid_utf8_ascii byte_of_def)
  then obtain t u where "canonical_json ?v = Inr t" "canonical_json ?w = Inr u"
    unfolding canonical_json_canon by (metis canon_defined(1))
  with canonical_json_injective [OF this] n show ?thesis by metis
qed

text \<open>
  C18: serialisation fails only for the reasons the error type names: a value has a
  canonical text exactly when it holds no floating point number and every string and key in it is
  valid UTF-8.
\<close>

theorem canonical_json_defined: "(\<exists>t. canonical_json v = Inr t) \<longleftrightarrow> canonicalisable v"
  unfolding canonical_json_canon by (rule canon_defined(1))

end
