(* ===== verification/Selectors.thy ===== *)
theory Selectors
  imports Canonical_Json
begin

text \<open>
  \<^bold>\<open>daemon/local_selector.cpp\<close>, \<^bold>\<open>common/invite_link.hpp\<close> and \<open>valid_account_name\<close> of \<^bold>\<open>common/paths.cpp\<close>: how
  the text a user types for a chat is classified without asking the server. \<open>std::from_chars\<close> on an
  \<open>int64_t\<close> is \<open>from_chars_int64\<close>: the value and the unread rest, \<open>None\<close> on a syntax or range error.
  Wiping of secret buffers is not modelled, an alias is its text. The main results: decimal selectors
  round-trip, and the classifier and the invite-link recogniser, two separate parsers, agree.
\<close>

subsection \<open>Numbers\<close>

definition from_chars_int64 :: "string \<Rightarrow> (int \<times> string) option" where
  "from_chars_int64 text =
     (let negative = (text \<noteq> [] \<and> hd text = CHR ''-'');
          body = (if negative then tl text else text);
          digits = takeWhile is_digit body;
          rest = dropWhile is_digit body;
          parsed = (if negative then - int (digits_value digits) else int (digits_value digits))
      in if digits = [] then None
         else if parsed < - (2 ^ 63) \<or> parsed > 2 ^ 63 - 1 then None
         else Some (parsed, rest))"

definition kMaximumInt53 :: int where
  "kMaximumInt53 = 9007199254740991"

definition decimal_syntax :: "string \<Rightarrow> bool" where
  "decimal_syntax value =
     (if value = [] then False
      else let offset = (if hd value = CHR ''-'' \<or> hd value = CHR ''+'' then 1 else 0)
           in offset < length value \<and> list_all is_digit (drop offset value))"

definition parse_chat_id :: "string \<Rightarrow> int option" where
  "parse_chat_id value =
     (let value' = (if value \<noteq> [] \<and> hd value = CHR ''+'' then tl value else value)
      in case from_chars_int64 value' of
           None \<Rightarrow> None
         | Some (parsed, rest) \<Rightarrow>
             if rest \<noteq> [] \<or> parsed = 0 \<or> parsed < - kMaximumInt53 \<or> parsed > kMaximumInt53 then None
             else Some parsed)"

subsection \<open>Links\<close>

definition ascii_lower :: "char \<Rightarrow> char" where
  "ascii_lower c = (if char_between CHR ''A'' CHR ''Z'' c then char_of (byte_of c + 32) else c)"

definition starts_with :: "string \<Rightarrow> string \<Rightarrow> bool" where
  "starts_with value prefix_text \<longleftrightarrow> take (length prefix_text) value = prefix_text"

definition ascii_starts_with_case_insensitive :: "string \<Rightarrow> string \<Rightarrow> bool" where
  "ascii_starts_with_case_insensitive value prefix_text \<longleftrightarrow>
     length value \<ge> length prefix_text \<and>
     map ascii_lower (take (length prefix_text) value) = map ascii_lower prefix_text"

definition has_scheme :: "string \<Rightarrow> bool" where
  "has_scheme value \<longleftrightarrow>
     value \<noteq> [] \<and> is_alpha (hd value) \<and>
     starts_with (dropWhile (\<lambda>c. is_alnum c \<or> c = CHR ''+'' \<or> c = CHR ''.'' \<or> c = CHR ''-'') (tl value)) ''://''"

fun host_like :: "string list \<Rightarrow> string \<Rightarrow> bool" where
  "host_like [] value = False"
| "host_like (host # hosts) value =
     (if \<not> ascii_starts_with_case_insensitive value host then host_like hosts value
      else if length value = length host then True
      else let next_char = value ! length host
           in next_char = CHR ''/'' \<or> next_char = CHR '':'' \<or> next_char = CHR ''?'' \<or> next_char = CHR ''#'')"

definition url_like :: "string \<Rightarrow> bool" where
  "url_like value \<longleftrightarrow> has_scheme value \<or> host_like [''t.me'', ''www.t.me''] value"

fun username_loop :: "bool \<Rightarrow> string \<Rightarrow> bool" where
  "username_loop previous_underscore [] = True"
| "username_loop previous_underscore (c # cs) =
     (if \<not> is_alnum c \<and> c \<noteq> CHR ''_'' then False
      else if c = CHR ''_'' \<and> previous_underscore then False
      else username_loop (c = CHR ''_'') cs)"

definition username :: "string \<Rightarrow> bool" where
  "username value =
     (if value = [] \<or> length value > 32 \<or> \<not> is_alpha (hd value) \<or> last value = CHR ''_'' then False
      else username_loop False value)"

definition component_character :: "char \<Rightarrow> bool" where
  "component_character c \<longleftrightarrow> is_alnum c \<or> c = CHR ''_'' \<or> c = CHR ''+'' \<or> c = CHR ''-''"

definition query_character :: "char \<Rightarrow> bool" where
  "query_character c \<longleftrightarrow> is_alnum c \<or> c = CHR ''_'' \<or> c = CHR ''-''"

definition base64url :: "string \<Rightarrow> bool" where
  "base64url value \<longleftrightarrow> value \<noteq> [] \<and> list_all query_character value"

definition positive_decimal :: "string \<Rightarrow> bool" where
  "positive_decimal value \<longleftrightarrow>
     value \<noteq> [] \<and> char_between CHR ''1'' CHR ''9'' (hd value) \<and> list_all is_digit value"

definition decimal_component :: "string \<Rightarrow> bool" where
  "decimal_component value \<longleftrightarrow> value \<noteq> [] \<and> list_all is_digit value"

function query_loop :: "string \<Rightarrow> bool" where
  "query_loop query =
     (if query = [] then False
      else let pair = takeWhile (\<lambda>c. c \<noteq> CHR ''&'') query;
               key = takeWhile (\<lambda>c. c \<noteq> CHR ''='') pair;
               val = drop (length key + 1) pair
           in if pair = [] then False
              else if key = [] \<or> \<not> list_all query_character key \<or> \<not> list_all query_character val then False
              else if CHR ''&'' \<notin> set query then True
              else query_loop (drop (length pair + 1) query))"
  by pat_completeness auto
termination
  by (relation "measure length") (auto simp: Let_def)

declare query_loop.simps [simp del]

definition valid_query_envelope :: "string \<Rightarrow> bool" where
  "valid_query_envelope query = (if query = [] then False else query_loop query)"

function component_loop :: "string \<Rightarrow> string list option" where
  "component_loop path =
     (if path = [] then Some []
      else let part = takeWhile (\<lambda>c. c \<noteq> CHR ''/'') path
           in if part = [] \<or> \<not> list_all component_character part then None
              else if CHR ''/'' \<notin> set path then Some [part]
              else map_option ((#) part) (component_loop (drop (length part + 1) path)))"
  by pat_completeness auto
termination
  by (relation "measure length") (auto simp: Let_def)

declare component_loop.simps [simp del]

definition path_components :: "string \<Rightarrow> string list option" where
  "path_components path = (if path = [] \<or> last path = CHR ''/'' then None else component_loop path)"

subsection \<open>Classification\<close>

datatype local_selector_kind =
    Numeric | Username | PublicChatLink | BotStartLink | MessageLink | ChatInviteLink
  | DirectMessagesChatLink | InvalidLink | UnsupportedLink | Title

record local_selector =
  selector_kind :: local_selector_kind
  selector_chat_id :: int
  selector_value :: string

definition classified :: "local_selector_kind \<Rightarrow> string \<Rightarrow> local_selector" where
  "classified kind value = \<lparr>selector_kind = kind, selector_chat_id = 0, selector_value = value\<rparr>"

definition classify_query_link :: "string list \<Rightarrow> string \<Rightarrow> local_selector" where
  "classify_query_link components query =
     (if length components \<noteq> 1 then classified UnsupportedLink []
      else let name = hd components
           in if \<not> username name then classified InvalidLink []
              else if query = ''direct'' then classified DirectMessagesChatLink name
              else if starts_with query ''start'' then
                (if \<not> starts_with query ''start='' \<or> \<not> list_all query_character (drop 6 query)
                 then classified InvalidLink []
                 else classified BotStartLink name)
              else classified UnsupportedLink [])"

definition classify_single_path :: "string \<Rightarrow> local_selector" where
  "classify_single_path value =
     (if starts_with value ''+'' then
        (if base64url (drop 1 value) then classified ChatInviteLink [] else classified InvalidLink [])
      else if username value then classified PublicChatLink value
      else classified InvalidLink [])"

definition classify_double_path :: "string \<Rightarrow> string \<Rightarrow> local_selector" where
  "classify_double_path first second =
     (if first = ''joinchat'' then
        (if base64url second then classified ChatInviteLink [] else classified InvalidLink [])
      else if \<not> username first then classified InvalidLink []
      else if positive_decimal second then classified MessageLink []
      else if decimal_component second then classified InvalidLink []
      else classified UnsupportedLink [])"

definition classify_private_path :: "string \<Rightarrow> string \<Rightarrow> string \<Rightarrow> local_selector" where
  "classify_private_path first second third =
     (if first \<noteq> ''c'' then classified UnsupportedLink []
      else if positive_decimal second \<and> positive_decimal third then classified MessageLink []
      else classified InvalidLink [])"

fun classify_path_link :: "string list \<Rightarrow> local_selector" where
  "classify_path_link [a] = classify_single_path a"
| "classify_path_link [a, b] = classify_double_path a b"
| "classify_path_link [a, b, c] = classify_private_path a b c"
| "classify_path_link _ = classified UnsupportedLink []"

definition classify_local_link :: "string \<Rightarrow> local_selector" where
  "classify_local_link text =
     (let link = drop (if starts_with text ''https://t.me/'' then 13 else 5) text
      in if link = [] \<or> list_ex (\<lambda>c. byte_of c > 0x7F \<or> c = CHR ''%'' \<or> c = CHR ''#'') link
         then classified InvalidLink []
         else let path = takeWhile (\<lambda>c. c \<noteq> CHR ''?'') link;
                  after = drop (length path + 1) link;
                  query = (if CHR ''?'' \<in> set link then Some after else None)
              in if query \<noteq> None \<and> CHR ''?'' \<in> set after then classified InvalidLink []
                 else (case path_components path of
                         None \<Rightarrow> classified InvalidLink []
                       | Some components \<Rightarrow>
                           (case query of
                              None \<Rightarrow> classify_path_link components
                            | Some q \<Rightarrow>
                                if \<not> valid_query_envelope q then classified InvalidLink []
                                else classify_query_link components q)))"

definition classify_local_selector :: "string \<Rightarrow> local_selector option" where
  "classify_local_selector selector =
     (if selector = [] \<or> \<not> valid_utf8 selector then None
      else if decimal_syntax selector then
        map_option (\<lambda>id. \<lparr>selector_kind = Numeric, selector_chat_id = id, selector_value = selector\<rparr>)
          (parse_chat_id selector)
      else if starts_with selector ''@'' then
        (if length selector = 1 then None
         else Some \<lparr>selector_kind = Username, selector_chat_id = 0, selector_value = drop 1 selector\<rparr>)
      else if starts_with selector ''https://t.me/'' \<or> starts_with selector ''t.me/'' then
        Some (classify_local_link selector)
      else if url_like selector then Some (classified InvalidLink [])
      else Some (classified Title selector))"

subsection \<open>Invite links and account names\<close>

definition valid_telegram_invite_token :: "string \<Rightarrow> bool" where
  "valid_telegram_invite_token value \<longleftrightarrow>
     value \<noteq> [] \<and> list_all (\<lambda>c. is_alpha c \<or> is_digit c \<or> c = CHR ''_'' \<or> c = CHR ''-'') value"

definition telegram_invite_token :: "string \<Rightarrow> string option" where
  "telegram_invite_token link =
     (case (if starts_with link ''https://t.me/'' then Some (drop 13 link)
            else if starts_with link ''t.me/'' then Some (drop 5 link)
            else None) of
        None \<Rightarrow> None
      | Some remainder \<Rightarrow>
          if starts_with remainder ''+'' then
            (let token = drop 1 remainder in if valid_telegram_invite_token token then Some token else None)
          else if \<not> starts_with remainder ''joinchat/'' then None
          else let token = drop 9 remainder in if valid_telegram_invite_token token then Some token else None)"

definition is_exact_telegram_invite_link :: "string \<Rightarrow> bool" where
  "is_exact_telegram_invite_link link \<longleftrightarrow> telegram_invite_token link \<noteq> None"

fun retain_new :: "string list \<Rightarrow> string list \<Rightarrow> string list" where
  "retain_new aliases [] = aliases"
| "retain_new aliases (candidate # candidates) =
     retain_new (if candidate \<notin> set aliases then aliases @ [candidate] else aliases) candidates"

definition exact_telegram_invite_aliases :: "string \<Rightarrow> string list" where
  "exact_telegram_invite_aliases link =
     (case telegram_invite_token link of
        None \<Rightarrow> []
      | Some token \<Rightarrow>
          retain_new []
            (link # map (\<lambda>p. p @ token) [''https://t.me/+'', ''t.me/+'', ''https://t.me/joinchat/'', ''t.me/joinchat/'']))"

definition kMaxAccountNameLength :: nat where
  "kMaxAccountNameLength = 32"

definition valid_account_name :: "string \<Rightarrow> bool" where
  "valid_account_name name =
     (if name = [] \<or> length name > kMaxAccountNameLength then False
      else list_all (\<lambda>c. is_alpha c \<or> is_digit c \<or> c = CHR ''_'' \<or> c = CHR ''-'') name)"

subsection \<open>Decimal selectors\<close>

lemma takeWhile_dropWhile_all: "list_all P xs \<Longrightarrow> takeWhile P xs = xs \<and> dropWhile P xs = []"
  by (simp add: list_all_iff)

lemma minus_no_digit [simp]: "\<not> is_digit CHR ''-''" "\<not> is_digit CHR ''+''" "\<not> is_digit CHR ''@''"
  by (simp_all add: char_classes)

lemma from_chars_digits_range:
  assumes "list_all is_digit ds" and "ds \<noteq> []"
  shows "from_chars_int64 ds = (if digits_value ds < 2 ^ 63 then Some (int (digits_value ds), []) else None)"
    and "from_chars_int64 (CHR ''-'' # ds) = (if digits_value ds \<le> 2 ^ 63 then Some (- int (digits_value ds), []) else None)"
proof -
  have "hd ds \<noteq> CHR ''-''" using assms minus_no_digit by (cases ds) auto
  moreover have "takeWhile is_digit ds = ds" "dropWhile is_digit ds = []"
    using takeWhile_dropWhile_all [OF assms(1)] by blast+
  ultimately show "from_chars_int64 ds = (if digits_value ds < 2 ^ 63 then Some (int (digits_value ds), []) else None)"
    and "from_chars_int64 (CHR ''-'' # ds) = (if digits_value ds \<le> 2 ^ 63 then Some (- int (digits_value ds), []) else None)"
    using assms(2) by (auto simp add: from_chars_int64_def Let_def simp del: takeWhile_eq_all_conv dropWhile_eq_Nil_conv)
qed

lemma from_chars_digits:
  assumes "list_all is_digit ds" and "ds \<noteq> []" and "digits_value ds < 2 ^ 63"
  shows "from_chars_int64 ds = Some (int (digits_value ds), [])"
    and "from_chars_int64 (CHR ''-'' # ds) = Some (- int (digits_value ds), [])"
  using from_chars_digits_range [OF assms(1,2)] assms(3) by simp_all

lemma from_chars_to_string:
  assumes "- (2 ^ 63) < i" and "i < 2 ^ 63"
  shows "from_chars_int64 (to_string_int i) = Some (i, [])"
proof (cases "i < 0")
  case True
  then show ?thesis
    using from_chars_digits(2) [of "to_string_nat (nat (- i))"] to_string_nat_correct [of "nat (- i)"] assms
    by (simp add: to_string_int_def)
next
  case False
  then show ?thesis
    using from_chars_digits(1) [of "to_string_nat (nat i)"] to_string_nat_correct [of "nat i"] assms
    by (simp add: to_string_int_def)
qed

lemma digit_ascii: "is_digit c \<Longrightarrow> byte_of c < 128"
  by (simp add: char_classes)

lemma to_string_int_ascii: "\<forall>c \<in> set (to_string_int i). byte_of c < 128"
proof -
  have "\<forall>c \<in> set (to_string_nat n). byte_of c < 128" for n
    using to_string_nat_correct [of n] digit_ascii by (auto simp: list_all_iff)
  moreover have "byte_of CHR ''-'' < 128" by (simp add: byte_of_def)
  ultimately show ?thesis by (auto simp: to_string_int_def)
qed

lemma to_string_int_decimal: "decimal_syntax (to_string_int i) \<and> to_string_int i \<noteq> [] \<and> hd (to_string_int i) \<noteq> CHR ''+''"
proof -
  have *: "to_string_nat n \<noteq> []" "list_all is_digit (to_string_nat n)" "is_digit (hd (to_string_nat n))" for n
    using to_string_nat_correct [of n] by (auto simp: list_all_iff)
  then have "hd (to_string_nat n) \<noteq> CHR ''+''" "hd (to_string_nat n) \<noteq> CHR ''-''" for n
    by (metis minus_no_digit(2), metis *(3) minus_no_digit(1))
  with * show ?thesis by (simp add: to_string_int_def decimal_syntax_def Let_def)
qed

subsection \<open>Classifier and invite-link recogniser\<close>

lemma starts_with_iff: "starts_with v p \<longleftrightarrow> (\<exists>r. v = p @ r)"
  unfolding starts_with_def by (metis append_eq_conv_conj append_take_drop_id)

lemma query_character_ascii: "query_character c \<Longrightarrow> byte_of c \<le> 127"
  by (auto simp: query_character_def char_classes)

lemma not_query_character [simp]:
  "\<not> query_character CHR ''%''" "\<not> query_character CHR ''#''" "\<not> query_character CHR ''?''"
  "\<not> query_character CHR ''/''"
  by (simp_all add: query_character_def char_classes)

lemma query_component: "query_character c \<Longrightarrow> component_character c"
  by (auto simp: query_character_def component_character_def)

lemma base64url_token: "base64url t \<longleftrightarrow> valid_telegram_invite_token t"
  by (simp add: base64url_def valid_telegram_invite_token_def query_character_def is_alnum_def list_all_iff)

fun join_slash :: "string list \<Rightarrow> string" where
  "join_slash [] = []"
| "join_slash [a] = a"
| "join_slash (a # b # cs) = a @ CHR ''/'' # join_slash (b # cs)"

lemma component_loop_join:
  "component_loop path = Some cs \<Longrightarrow> path \<noteq> [] \<Longrightarrow> last path \<noteq> CHR ''/'' \<Longrightarrow> cs \<noteq> [] \<and> path = join_slash cs"
proof (induction path arbitrary: cs rule: component_loop.induct)
  case (1 path)
  let ?part = "takeWhile (\<lambda>c. c \<noteq> CHR ''/'') path"
  let ?rest = "drop (length ?part + 1) path"
  from "1.prems" have ok: "?part \<noteq> []" "list_all component_character ?part"
    by (auto simp: component_loop.simps [of path] Let_def split: if_splits)
  show ?case
  proof (cases "CHR ''/'' \<in> set path")
    case False
    with "1.prems"(1,2) ok have cs: "cs = [?part]"
      by (simp add: component_loop.simps [of path] Let_def)
    from False have "?part = path" by (intro takeWhile_eq_all_conv [THEN iffD2]) auto
    with cs show ?thesis by (simp del: takeWhile_eq_all_conv)
  next
    case True
    obtain a r where a: "a = ?part" and r: "r = ?rest" by blast
    from split_at_first [OF True] have path: "path = a @ CHR ''/'' # r" unfolding a r .
    from ok have ok': "a \<noteq> []" "list_all component_character a" unfolding a by blast+
    have unf: "component_loop path = map_option ((#) a) (component_loop r)"
      using "1.prems"(2) ok' True unfolding r component_loop.simps [of path] Let_def a [symmetric] by simp
    with "1.prems"(1) obtain cs' where cs: "component_loop r = Some cs'" "cs = a # cs'" by auto
    have rest: "r \<noteq> []" "last r \<noteq> CHR ''/''" using "1.prems"(3) unfolding path by (auto split: if_splits)
    have "cs' \<noteq> [] \<and> r = join_slash cs'"
      using "1.IH" [OF "1.prems"(2) refl, folded r] ok True cs(1) rest by blast
    then show ?thesis unfolding cs(2) path by (cases cs') simp_all
  qed
qed

lemma component_loop_single:
  "list_all component_character a \<Longrightarrow> a \<noteq> [] \<Longrightarrow> CHR ''/'' \<notin> set a \<Longrightarrow> component_loop a = Some [a]"
proof -
  assume a: "list_all component_character a" "a \<noteq> []" "CHR ''/'' \<notin> set a"
  then have "takeWhile (\<lambda>c. c \<noteq> CHR ''/'') a = a" by (intro takeWhile_eq_all_conv [THEN iffD2]) auto
  with a show ?thesis by (subst component_loop.simps) (simp add: Let_def del: takeWhile_eq_all_conv)
qed

lemma component_loop_pair:
  assumes a: "list_all component_character a" "a \<noteq> []" "CHR ''/'' \<notin> set a"
    and b: "list_all component_character b" "b \<noteq> []" "CHR ''/'' \<notin> set b"
  shows "component_loop (a @ CHR ''/'' # b) = Some [a, b]"
proof -
  have "takeWhile (\<lambda>c. c \<noteq> CHR ''/'') (a @ CHR ''/'' # b) = a"
    using a(3) by (subst takeWhile_append2) auto
  with a component_loop_single [OF b] show ?thesis
    by (subst component_loop.simps) (simp add: Let_def)
qed

lemma token_chars:
  assumes "valid_telegram_invite_token t"
  shows "list_all component_character t" "t \<noteq> []" "CHR ''/'' \<notin> set t" "CHR ''?'' \<notin> set t"
    "\<not> list_ex (\<lambda>c. byte_of c > 0x7F \<or> c = CHR ''%'' \<or> c = CHR ''#'') t"
    "\<forall>c \<in> set t. byte_of c < 128" "last t \<noteq> CHR ''/''"
proof -
  from assms have q: "\<forall>c \<in> set t. query_character c" and n: "t \<noteq> []"
    by (simp_all add: base64url_token [symmetric] base64url_def list_all_iff)
  show "t \<noteq> []" by (rule n)
  show "list_all component_character t" using q query_component by (simp add: list_all_iff)
  show "CHR ''/'' \<notin> set t" "CHR ''?'' \<notin> set t" using q not_query_character by metis+
  have "\<not> (byte_of c > 0x7F \<or> c = CHR ''%'' \<or> c = CHR ''#'')" if "c \<in> set t" for c
    using q that query_character_ascii [of c] not_query_character by (metis not_less)
  then show "\<not> list_ex (\<lambda>c. byte_of c > 0x7F \<or> c = CHR ''%'' \<or> c = CHR ''#'') t"
    unfolding list_ex_iff by blast
  show "\<forall>c \<in> set t. byte_of c < 128" using q query_character_ascii by fastforce
  show "last t \<noteq> CHR ''/''" using q not_query_character(4) n last_in_set by metis
qed

lemma classify_path_invite_iff:
  "selector_kind (classify_path_link cs) = ChatInviteLink \<longleftrightarrow>
     (\<exists>t. valid_telegram_invite_token t \<and> (cs = [CHR ''+'' # t] \<or> cs = [''joinchat'', t]))"
proof -
  have single: "selector_kind (classify_single_path a) = ChatInviteLink \<longleftrightarrow>
      (\<exists>t. valid_telegram_invite_token t \<and> a = CHR ''+'' # t)" for a
    by (auto simp: classify_single_path_def classified_def starts_with_iff base64url_token)
  have double: "selector_kind (classify_double_path a b) = ChatInviteLink \<longleftrightarrow>
      a = ''joinchat'' \<and> valid_telegram_invite_token b" for a b
    by (simp add: classify_double_path_def classified_def base64url_token)
  have priv: "selector_kind (classify_private_path a b c) \<noteq> ChatInviteLink" for a b c
    by (simp add: classify_private_path_def classified_def)
  show ?thesis
    by (cases cs rule: classify_path_link.cases) (auto simp: single double priv classified_def)
qed

lemma classify_query_not_invite: "selector_kind (classify_query_link cs q) \<noteq> ChatInviteLink"
  by (simp add: classify_query_link_def classified_def Let_def)

definition invite_body :: "string \<Rightarrow> string \<Rightarrow> bool" where
  "invite_body link t \<longleftrightarrow> valid_telegram_invite_token t \<and> (link = CHR ''+'' # t \<or> link = ''joinchat/'' @ t)"

lemma join_pair: "join_slash [''joinchat'', t] = ''joinchat/'' @ t"
  by simp

lemma path_components_invite:
  "(\<exists>cs. path_components link = Some cs \<and> selector_kind (classify_path_link cs) = ChatInviteLink) \<longleftrightarrow>
     (\<exists>t. invite_body link t)"
proof
  assume "\<exists>cs. path_components link = Some cs \<and> selector_kind (classify_path_link cs) = ChatInviteLink"
  then obtain cs t where "path_components link = Some cs" "valid_telegram_invite_token t"
    "cs = [CHR ''+'' # t] \<or> cs = [''joinchat'', t]" by (auto simp: classify_path_invite_iff)
  moreover from this(1) have "link = join_slash cs"
    using component_loop_join by (auto simp: path_components_def split: if_splits)
  ultimately show "\<exists>t. invite_body link t" by (auto simp: invite_body_def)
next
  assume "\<exists>t. invite_body link t"
  then obtain t where t: "valid_telegram_invite_token t" and l: "link = CHR ''+'' # t \<or> link = ''joinchat'' @ CHR ''/'' # t"
    by (auto simp: invite_body_def)
  note tc = token_chars [OF t]
  have plus: "component_loop (CHR ''+'' # t) = Some [CHR ''+'' # t]"
    using tc by (intro component_loop_single) (auto simp: component_character_def)
  have join: "component_loop (''joinchat'' @ CHR ''/'' # t) = Some [''joinchat'', t]"
    using tc by (intro component_loop_pair) (auto simp: component_character_def char_classes)
  from l have "path_components link = Some [CHR ''+'' # t] \<or> path_components link = Some [''joinchat'', t]"
    using plus join tc(2,7) by (auto simp: path_components_def)
  then show "\<exists>cs. path_components link = Some cs \<and> selector_kind (classify_path_link cs) = ChatInviteLink"
    using t by (auto simp: classify_path_invite_iff)
qed

lemma invite_body_chars:
  assumes "invite_body body t"
  shows "body \<noteq> []" "CHR ''?'' \<notin> set body"
    "\<not> list_ex (\<lambda>c. byte_of c > 0x7F \<or> c = CHR ''%'' \<or> c = CHR ''#'') body" "\<forall>c \<in> set body. byte_of c < 128"
proof -
  from assms have t: "valid_telegram_invite_token t" and b: "body = CHR ''+'' # t \<or> body = ''joinchat/'' @ t"
    by (simp_all add: invite_body_def)
  note tc = token_chars [OF t]
  from b show "body \<noteq> []" by auto
  from b tc(4) show "CHR ''?'' \<notin> set body" by auto
  from b tc(5) show "\<not> list_ex (\<lambda>c. byte_of c > 0x7F \<or> c = CHR ''%'' \<or> c = CHR ''#'') body"
    by (auto simp: byte_of_def)
  from b tc(6) show "\<forall>c \<in> set body. byte_of c < 128"
    by (auto simp: byte_of_def)
qed

lemma link_prefix_exclusive: "\<not> starts_with (''t.me/'' @ body) ''https://t.me/''"
  by (simp add: starts_with_def)

lemma classify_link_invite:
  assumes "text = ''https://t.me/'' @ body \<or> text = ''t.me/'' @ body"
  shows "selector_kind (classify_local_link text) = ChatInviteLink \<longleftrightarrow> (\<exists>t. invite_body body t)"
proof -
  let ?bad = "body = [] \<or> list_ex (\<lambda>c. byte_of c > 0x7F \<or> c = CHR ''%'' \<or> c = CHR ''#'') body"
  have link: "drop (if starts_with text ''https://t.me/'' then 13 else 5) text = body"
    using assms link_prefix_exclusive by (auto simp: starts_with_def)
  show ?thesis
  proof (cases "?bad \<or> CHR ''?'' \<in> set body")
    case True
    have "selector_kind (classify_local_link text) \<noteq> ChatInviteLink"
    proof (cases ?bad)
      case True
      then show ?thesis unfolding classify_local_link_def link by (simp add: Let_def classified_def)
    next
      case False
      with True have "CHR ''?'' \<in> set body" by blast
      with False show ?thesis unfolding classify_local_link_def link
        by (auto simp: Let_def classified_def classify_query_not_invite split: option.splits)
    qed
    moreover have "\<not> invite_body body t" for t using True invite_body_chars [of body t] by blast
    ultimately show ?thesis by blast
  next
    case False
    then have "takeWhile (\<lambda>c. c \<noteq> CHR ''?'') body = body"
      by (intro takeWhile_eq_all_conv [THEN iffD2]) auto
    with False have "classify_local_link text =
        (case path_components body of None \<Rightarrow> classified InvalidLink [] | Some cs \<Rightarrow> classify_path_link cs)"
      unfolding classify_local_link_def link
      by (simp add: Let_def del: takeWhile_eq_all_conv split: option.splits)
    then show ?thesis
      using path_components_invite [of body] by (auto simp: classified_def split: option.splits)
  qed
qed

lemma telegram_invite_token_iff:
  "telegram_invite_token link = Some t \<longleftrightarrow>
     (\<exists>body. (link = ''https://t.me/'' @ body \<or> link = ''t.me/'' @ body) \<and> invite_body body t)"
proof -
  define token_of where "token_of remainder =
     (if starts_with remainder ''+'' then
            (let token = drop 1 remainder in if valid_telegram_invite_token token then Some token else None)
          else if \<not> starts_with remainder ''joinchat/'' then None
          else let token = drop 9 remainder in if valid_telegram_invite_token token then Some token else None)" for remainder
  have body: "token_of body = Some t \<longleftrightarrow> invite_body body t" for body
  proof -
    consider (plus) u where "body = CHR ''+'' # u" | (joinchat) u where "body = ''joinchat/'' @ u"
      | (neither) "\<not> starts_with body ''+''" "\<not> starts_with body ''joinchat/''"
      using starts_with_iff [of body "''+''"] starts_with_iff [of body "''joinchat/''"] by auto
    then show ?thesis
    proof cases
      case plus
      then show ?thesis by (auto simp: token_of_def invite_body_def starts_with_def Let_def)
    next
      case joinchat
      then show ?thesis by (auto simp: token_of_def invite_body_def starts_with_def Let_def)
    next
      case neither
      then have "token_of body = None" by (simp add: token_of_def)
      moreover have "\<not> invite_body body t" using neither by (auto simp: invite_body_def starts_with_def)
      ultimately show ?thesis by simp
    qed
  qed
  consider (secure) b where "link = ''https://t.me/'' @ b" | (bare) b where "link = ''t.me/'' @ b"
    | (other) "\<not> starts_with link ''https://t.me/''" "\<not> starts_with link ''t.me/''"
    using starts_with_iff [of link "''https://t.me/''"] starts_with_iff [of link "''t.me/''"] by blast
  then show ?thesis
  proof cases
    case secure
    then have "telegram_invite_token link = token_of b"
      by (simp add: telegram_invite_token_def token_of_def starts_with_def)
    with body [of b] secure show ?thesis by auto
  next
    case bare
    then have "telegram_invite_token link = token_of b"
      by (simp add: telegram_invite_token_def token_of_def starts_with_def)
    with body [of b] bare show ?thesis by auto
  next
    case other
    then have "telegram_invite_token link = None" by (simp add: telegram_invite_token_def)
    moreover have "link \<noteq> ''https://t.me/'' @ body" "link \<noteq> ''t.me/'' @ body" for body
      using other unfolding starts_with_iff by blast+
    ultimately show ?thesis by simp
  qed
qed

lemma classify_selector_link:
  assumes "text = ''https://t.me/'' @ body \<or> text = ''t.me/'' @ body"
  shows "classify_local_selector text = (if valid_utf8 text then Some (classify_local_link text) else None)"
proof -
  have "\<not> decimal_syntax text" "\<not> starts_with text ''@''" "text \<noteq> []"
    "starts_with text ''https://t.me/'' \<or> starts_with text ''t.me/''"
    using assms by (auto simp: decimal_syntax_def starts_with_def char_classes)
  then show ?thesis by (simp add: classify_local_selector_def)
qed

lemma classify_other_not_invite:
  "\<not> starts_with text ''https://t.me/'' \<Longrightarrow> \<not> starts_with text ''t.me/'' \<Longrightarrow>
   classify_local_selector text = Some s \<Longrightarrow> selector_kind s \<noteq> ChatInviteLink"
  by (auto simp: classify_local_selector_def classified_def split: if_splits)

lemma invite_link_ascii:
  assumes "text = ''https://t.me/'' @ body \<or> text = ''t.me/'' @ body" and "invite_body body t"
  shows "valid_utf8 text"
proof (rule valid_utf8_ascii)
  from assms(1) invite_body_chars(4) [OF assms(2)] show "\<forall>c \<in> set text. byte_of c < 128"
    by (auto simp: byte_of_def)
qed

lemma retain_new_set: "set (retain_new as cs) = set as \<union> set cs"
  by (induction as cs rule: retain_new.induct) auto

lemma retain_new_distinct: "distinct as \<Longrightarrow> distinct (retain_new as cs)"
  by (induction as cs rule: retain_new.induct) auto

lemma invite_token_valid: "telegram_invite_token link = Some t \<Longrightarrow> valid_telegram_invite_token t"
  by (auto simp: telegram_invite_token_iff invite_body_def)

lemma invite_token_forms:
  assumes "valid_telegram_invite_token t" and "p \<in> set [''https://t.me/+'', ''t.me/+'', ''https://t.me/joinchat/'', ''t.me/joinchat/'']"
  shows "telegram_invite_token (p @ t) = Some t"
proof -
  have "invite_body (CHR ''+'' # t) t" "invite_body (''joinchat/'' @ t) t"
    using assms(1) by (simp_all add: invite_body_def)
  then show ?thesis using assms(2) unfolding telegram_invite_token_iff by auto
qed

subsection \<open>Properties\<close>

text \<open>
  C23: the selector classifier and the invite-link recogniser agree. A text is classified as
  a chat invite link exactly when the recogniser extracts an invite token from it, so no invite link
  is handled as a public link, a title or an unknown link, and nothing else is treated as a secret
  invite.
\<close>

theorem invite_parsers_agree:
  "(\<exists>s. classify_local_selector link = Some s \<and> selector_kind s = ChatInviteLink) \<longleftrightarrow>
     is_exact_telegram_invite_link link"
proof (cases "starts_with link ''https://t.me/'' \<or> starts_with link ''t.me/''")
  case True
  then obtain body where link: "link = ''https://t.me/'' @ body \<or> link = ''t.me/'' @ body"
    unfolding starts_with_iff by blast
  have "is_exact_telegram_invite_link link \<longleftrightarrow> (\<exists>t. invite_body body t)"
    using link by (auto simp: is_exact_telegram_invite_link_def telegram_invite_token_iff)
  moreover have "(\<exists>s. classify_local_selector link = Some s \<and> selector_kind s = ChatInviteLink) \<longleftrightarrow>
      valid_utf8 link \<and> (\<exists>t. invite_body body t)"
    unfolding classify_selector_link [OF link] classify_link_invite [OF link, symmetric] by simp
  ultimately show ?thesis using invite_link_ascii [OF link] by blast
next
  case False
  then have "telegram_invite_token link = None" by (simp add: telegram_invite_token_def)
  with False classify_other_not_invite show ?thesis
    by (auto simp: is_exact_telegram_invite_link_def)
qed

text \<open>
  C24: every non-zero chat id of at most 53 bits, printed in decimal, is classified as
  that numeric id.
\<close>

theorem numeric_selector_roundtrip:
  assumes "i \<noteq> 0" and "- kMaximumInt53 \<le> i" and "i \<le> kMaximumInt53"
  shows "classify_local_selector (to_string_int i) =
     Some \<lparr>selector_kind = Numeric, selector_chat_id = i, selector_value = to_string_int i\<rparr>"
proof -
  have "- (2 ^ 63) < i" "i < 2 ^ 63" using assms by (simp_all add: kMaximumInt53_def)
  from from_chars_to_string [OF this] have "parse_chat_id (to_string_int i) = Some i"
    using assms to_string_int_decimal [of i] by (simp add: parse_chat_id_def Let_def)
  then show ?thesis
    using to_string_int_decimal [of i] valid_utf8_ascii [OF to_string_int_ascii]
    by (simp add: classify_local_selector_def)
qed

theorem numeric_selector_roundtrip_witness:
  "classify_local_selector ''-1001234567890'' =
     Some \<lparr>selector_kind = Numeric, selector_chat_id = - 1001234567890, selector_value = ''-1001234567890''\<rparr>"
proof -
  have "to_string_int (- 1001234567890) = ''-1001234567890''"
    by (simp add: to_string_int_def to_string_nat.simps, code_simp)
  then show ?thesis
    using numeric_selector_roundtrip [of "- 1001234567890"] by (simp add: kMaximumInt53_def)
qed

text \<open>
  A selector is classified as numeric only if it is an optional sign followed by
  digits, and the id is then non-zero and within 53 bits.
\<close>

theorem numeric_selector_bounds:
  assumes "classify_local_selector text = Some s" and "selector_kind s = Numeric"
  shows "decimal_syntax text \<and> selector_value s = text \<and> selector_chat_id s \<noteq> 0 \<and>
     \<bar>selector_chat_id s\<bar> \<le> kMaximumInt53"
proof (cases "decimal_syntax text")
  case True
  with assms(1) obtain i where "parse_chat_id text = Some i"
    "s = \<lparr>selector_kind = Numeric, selector_chat_id = i, selector_value = text\<rparr>"
    by (auto simp: classify_local_selector_def split: if_splits)
  with True show ?thesis
    by (auto simp: parse_chat_id_def Let_def split: option.splits if_splits)
next
  case False
  have no: "selector_kind (classify_path_link cs) \<noteq> Numeric" for cs
    by (cases cs rule: classify_path_link.cases)
      (auto simp: classify_single_path_def classify_double_path_def classify_private_path_def classified_def)
  have nq: "selector_kind (classify_query_link cs q) \<noteq> Numeric" for cs q
    by (simp add: classify_query_link_def classified_def Let_def)
  have "selector_kind (classify_local_link text) \<noteq> Numeric"
    unfolding classify_local_link_def Let_def
    by (auto simp: classified_def no nq split: option.splits)
  with False assms show ?thesis by (auto simp: classify_local_selector_def classified_def split: if_splits)
qed

theorem numeric_selector_bounds_witness:
  "\<bar>selector_chat_id (the (classify_local_selector ''+77''))\<bar> \<le> kMaximumInt53"
proof -
  have "classify_local_selector ''+77'' =
      Some \<lparr>selector_kind = Numeric, selector_chat_id = 77, selector_value = ''+77''\<rparr>"
    by (simp add: classify_local_selector_def valid_utf8_ascii decimal_syntax_def parse_chat_id_def
        from_chars_int64_def kMaximumInt53_def digits_value_def char_classes Let_def)
  from numeric_selector_bounds [OF this] this show ?thesis by simp
qed

text \<open>
  C25: the aliases computed for an invite link are pairwise different, include the link itself
  and the four standard spellings, and each of them carries the same token; a text that is no invite
  link has none.
\<close>

theorem invite_aliases_complete:
  "distinct (exact_telegram_invite_aliases link) \<and>
   (case telegram_invite_token link of
      None \<Rightarrow> exact_telegram_invite_aliases link = []
    | Some t \<Rightarrow>
        set (exact_telegram_invite_aliases link) =
          {link, ''https://t.me/+'' @ t, ''t.me/+'' @ t, ''https://t.me/joinchat/'' @ t, ''t.me/joinchat/'' @ t} \<and>
        list_all (\<lambda>alias. telegram_invite_token alias = Some t) (exact_telegram_invite_aliases link))"
proof (cases "telegram_invite_token link")
  case None
  then show ?thesis by (simp add: exact_telegram_invite_aliases_def)
next
  case (Some t)
  have set: "set (exact_telegram_invite_aliases link) =
      {link, ''https://t.me/+'' @ t, ''t.me/+'' @ t, ''https://t.me/joinchat/'' @ t, ''t.me/joinchat/'' @ t}"
    using Some by (simp add: exact_telegram_invite_aliases_def retain_new_set del: retain_new.simps)
  have "telegram_invite_token (''https://t.me/+'' @ t) = Some t" "telegram_invite_token (''t.me/+'' @ t) = Some t"
    "telegram_invite_token (''https://t.me/joinchat/'' @ t) = Some t"
    "telegram_invite_token (''t.me/joinchat/'' @ t) = Some t"
    by (rule invite_token_forms [OF invite_token_valid [OF Some]], simp)+
  then have "list_all (\<lambda>alias. telegram_invite_token alias = Some t) (exact_telegram_invite_aliases link)"
    unfolding list_all_iff set using Some by (simp del: append.simps)
  moreover have "distinct (exact_telegram_invite_aliases link)"
    using Some by (simp add: exact_telegram_invite_aliases_def retain_new_distinct del: retain_new.simps)
  ultimately show ?thesis using Some set by (simp del: append.simps)
qed

end
