(* ===== verification/M6_Domain.thy ===== *)
theory M6_Domain
  imports Operations Selectors
begin

text \<open>
  \<^bold>\<open>daemon/m6_domain.cpp\<close>: the closed vocabularies and the canonical texts of the account management
  commands. An enumeration is a datatype, its names are listed in the order of the enumerators, and
  \<open>parse_closed\<close>/\<open>closed_name\<close> convert by position; each vocabulary satisfies the contract of a name
  table. The text normaliser works on bytes as the source does; byte loops are recursions on the
  unread suffix.
\<close>

subsection \<open>Closed vocabularies\<close>

datatype (plugins only: code size) m6_folder_icon =
    FI_All | FI_Unread | FI_Unmuted | FI_Bots | FI_Channels | FI_Groups | FI_Private | FI_Custom
  | FI_Setup | FI_Cat | FI_Crown | FI_Favorite | FI_Flower | FI_Game | FI_Home | FI_Love
  | FI_Mask | FI_Party | FI_Sport | FI_Study | FI_Trade | FI_Travel | FI_Work | FI_Airplane
  | FI_Book | FI_Light | FI_Like | FI_Money | FI_Note | FI_Palette

definition m6_folder_icon_values :: "m6_folder_icon list" where
  "m6_folder_icon_values =
    [FI_All, FI_Unread, FI_Unmuted, FI_Bots, FI_Channels, FI_Groups, FI_Private, FI_Custom,
     FI_Setup, FI_Cat, FI_Crown, FI_Favorite, FI_Flower, FI_Game, FI_Home, FI_Love, FI_Mask,
     FI_Party, FI_Sport, FI_Study, FI_Trade, FI_Travel, FI_Work, FI_Airplane, FI_Book, FI_Light,
     FI_Like, FI_Money, FI_Note, FI_Palette]"

definition kFolderIcons :: "string list" where
  "kFolderIcons =
    [''all'', ''unread'', ''unmuted'', ''bots'', ''channels'', ''groups'', ''private'',
     ''custom'', ''setup'', ''cat'', ''crown'', ''favorite'', ''flower'', ''game'', ''home'',
     ''love'', ''mask'', ''party'', ''sport'', ''study'', ''trade'', ''travel'', ''work'',
     ''airplane'', ''book'', ''light'', ''like'', ''money'', ''note'', ''palette'']"

datatype (plugins only: code size) m6_topic_color =
    TC_Blue | TC_Yellow | TC_Purple | TC_Green | TC_Pink | TC_Red

definition m6_topic_color_values :: "m6_topic_color list" where
  "m6_topic_color_values =
    [TC_Blue, TC_Yellow, TC_Purple, TC_Green, TC_Pink, TC_Red]"

definition kTopicColors :: "string list" where
  "kTopicColors =
    [''blue'', ''yellow'', ''purple'', ''green'', ''pink'', ''red'']"

datatype (plugins only: code size) m6_admin_right =
    AR_ChangeInfo | AR_PostMessages | AR_EditMessages | AR_DeleteMessages | AR_InviteUsers
  | AR_RestrictMembers | AR_PinMessages | AR_ManageTopics | AR_PromoteMembers
  | AR_ManageVideoChats | AR_PostStories | AR_EditStories | AR_DeleteStories
  | AR_ManageDirectMessages | AR_ManageTags | AR_Anonymous

definition m6_admin_right_values :: "m6_admin_right list" where
  "m6_admin_right_values =
    [AR_ChangeInfo, AR_PostMessages, AR_EditMessages, AR_DeleteMessages, AR_InviteUsers,
     AR_RestrictMembers, AR_PinMessages, AR_ManageTopics, AR_PromoteMembers, AR_ManageVideoChats,
     AR_PostStories, AR_EditStories, AR_DeleteStories, AR_ManageDirectMessages, AR_ManageTags,
     AR_Anonymous]"

definition kAdminRights :: "string list" where
  "kAdminRights =
    [''change-info'', ''post-messages'', ''edit-messages'', ''delete-messages'',
     ''invite-users'', ''restrict-members'', ''pin-messages'', ''manage-topics'',
     ''promote-members'', ''manage-video-chats'', ''post-stories'', ''edit-stories'',
     ''delete-stories'', ''manage-direct-messages'', ''manage-tags'', ''anonymous'']"

datatype (plugins only: code size) m6_chat_permission =
    CP_SendBasicMessages | CP_SendAudios | CP_SendDocuments | CP_SendPhotos | CP_SendVideos
  | CP_SendVideoNotes | CP_SendVoiceNotes | CP_SendPolls | CP_SendOtherMessages
  | CP_AddLinkPreviews | CP_ReactToMessages | CP_EditTag | CP_ChangeInfo | CP_InviteUsers
  | CP_PinMessages | CP_CreateTopics

definition m6_chat_permission_values :: "m6_chat_permission list" where
  "m6_chat_permission_values =
    [CP_SendBasicMessages, CP_SendAudios, CP_SendDocuments, CP_SendPhotos, CP_SendVideos,
     CP_SendVideoNotes, CP_SendVoiceNotes, CP_SendPolls, CP_SendOtherMessages,
     CP_AddLinkPreviews, CP_ReactToMessages, CP_EditTag, CP_ChangeInfo, CP_InviteUsers,
     CP_PinMessages, CP_CreateTopics]"

definition kChatPermissions :: "string list" where
  "kChatPermissions =
    [''send-basic-messages'', ''send-audios'', ''send-documents'', ''send-photos'',
     ''send-videos'', ''send-video-notes'', ''send-voice-notes'', ''send-polls'',
     ''send-other-messages'', ''add-link-previews'', ''react-to-messages'', ''edit-tag'',
     ''change-info'', ''invite-users'', ''pin-messages'', ''create-topics'']"

text \<open>\<open>parse_closed<Enum>(value, names)\<close> finds the name and casts its position to the enumerator;
  \<open>closed_name\<close> is the name at the position of the enumerator.\<close>

definition parse_closed :: "'e list \<Rightarrow> string \<Rightarrow> string list \<Rightarrow> 'e option" where
  "parse_closed values value names = table_parse (zip values names) value"

definition closed_name :: "'e list \<Rightarrow> 'e \<Rightarrow> string list \<Rightarrow> string" where
  "closed_name values value names = table_name (zip values names) value"

definition parse_m6_folder_icon :: "string \<Rightarrow> m6_folder_icon option" where
  "parse_m6_folder_icon value = parse_closed m6_folder_icon_values value kFolderIcons"

definition parse_m6_topic_color :: "string \<Rightarrow> m6_topic_color option" where
  "parse_m6_topic_color value = parse_closed m6_topic_color_values value kTopicColors"

definition parse_m6_admin_right :: "string \<Rightarrow> m6_admin_right option" where
  "parse_m6_admin_right value = parse_closed m6_admin_right_values value kAdminRights"

definition parse_m6_chat_permission :: "string \<Rightarrow> m6_chat_permission option" where
  "parse_m6_chat_permission value = parse_closed m6_chat_permission_values value kChatPermissions"

definition m6_folder_icon_name :: "m6_folder_icon \<Rightarrow> string" where
  "m6_folder_icon_name value = closed_name m6_folder_icon_values value kFolderIcons"

definition m6_topic_color_name :: "m6_topic_color \<Rightarrow> string" where
  "m6_topic_color_name value = closed_name m6_topic_color_values value kTopicColors"

definition m6_admin_right_name :: "m6_admin_right \<Rightarrow> string" where
  "m6_admin_right_name value = closed_name m6_admin_right_values value kAdminRights"

definition m6_chat_permission_name :: "m6_chat_permission \<Rightarrow> string" where
  "m6_chat_permission_name value = closed_name m6_chat_permission_values value kChatPermissions"

subsection \<open>Canonical texts\<close>

datatype m6_text_kind = FolderName | TopicName | ChatTitle | ChatDescription

function replace_all :: "string \<Rightarrow> string \<Rightarrow> string \<Rightarrow> string" where
  "replace_all needle replacement value =
     (if value = [] \<or> needle = [] then value
      else if starts_with value needle then
        replacement @ replace_all needle replacement (drop (length needle) value)
      else hd value # replace_all needle replacement (tl value))"
  by pat_completeness auto
termination
  by (relation "measure (\<lambda>(n, r, v). length v)") auto

declare replace_all.simps [simp del]

fun clean_loop :: "string \<Rightarrow> string" where
  "clean_loop [] = []"
| "clean_loop (c # rest) =
     (let byte = byte_of c in
      if byte = 0x0D then clean_loop rest
      else if byte \<le> 0x1F \<and> byte \<noteq> 0x0A then CHR '' '' # clean_loop rest
      else if byte = 0xE2 \<and> 2 \<le> length rest \<and> byte_of (rest ! 0) = 0x80 \<and>
              0xA8 \<le> byte_of (rest ! 1) \<and> byte_of (rest ! 1) \<le> 0xAE
        then clean_loop (drop 2 rest)
      else if byte = 0xCC \<and> 1 \<le> length rest \<and>
              (byte_of (rest ! 0) = 0xB3 \<or> byte_of (rest ! 0) = 0xBF \<or> byte_of (rest ! 0) = 0x8A)
        then clean_loop (drop 1 rest)
      else c # clean_loop rest)"

definition clean_input :: "string \<Rightarrow> string option" where
  "clean_input value = (if \<not> valid_utf8 value then None else Some (clean_loop value))"

definition unicode_spaces :: "string list" where
  "unicode_spaces =
    [[CHR 0xC2, CHR 0xA0],
     [CHR 0xE1, CHR 0x9A, CHR 0x80],
     [CHR 0xE1, CHR 0xA0, CHR 0x8E],
     [CHR 0xE2, CHR 0x80, CHR 0x80],
     [CHR 0xE2, CHR 0x80, CHR 0x81],
     [CHR 0xE2, CHR 0x80, CHR 0x82],
     [CHR 0xE2, CHR 0x80, CHR 0x83],
     [CHR 0xE2, CHR 0x80, CHR 0x84],
     [CHR 0xE2, CHR 0x80, CHR 0x85],
     [CHR 0xE2, CHR 0x80, CHR 0x86],
     [CHR 0xE2, CHR 0x80, CHR 0x87],
     [CHR 0xE2, CHR 0x80, CHR 0x88],
     [CHR 0xE2, CHR 0x80, CHR 0x89],
     [CHR 0xE2, CHR 0x80, CHR 0x8A],
     [CHR 0xE2, CHR 0x80, CHR 0xAF],
     [CHR 0xE2, CHR 0x81, CHR 0x9F],
     [CHR 0xE2, CHR 0xA0, CHR 0x80],
     [CHR 0xE3, CHR 0x80, CHR 0x80],
     [CHR 0xEF, CHR 0xBF, CHR 0xBC],
     [CHR 0xF3, CHR 0xA0, CHR 0x80, CHR 0x80]]"

definition normalize_unicode_spaces :: "string \<Rightarrow> string" where
  "normalize_unicode_spaces value = foldl (\<lambda>v space. replace_all space '' '' v) value unicode_spaces"

definition is_blank :: "char \<Rightarrow> bool" where
  "is_blank c \<longleftrightarrow> c = CHR '' '' \<or> c = CHR 0x0A"

definition trim_space_and_lf :: "string \<Rightarrow> string" where
  "trim_space_and_lf value =
     (let first = length (takeWhile is_blank value);
          bound = length value - length (takeWhile is_blank (rev value))
      in if first \<ge> bound then [] else take (bound - first) (drop first value))"

fun truncate_loop :: "nat \<Rightarrow> nat \<Rightarrow> string \<Rightarrow> string" where
  "truncate_loop n maximum [] = []"
| "truncate_loop n maximum (c # rest) =
     (if utf8_first (byte_of c) then
        (if n = maximum then [] else c # truncate_loop (n + 1) maximum rest)
      else c # truncate_loop n maximum rest)"

definition truncate_scalars :: "string \<Rightarrow> nat \<Rightarrow> string" where
  "truncate_scalars value maximum = truncate_loop 0 maximum value"

fun collapse_loop :: "bool \<Rightarrow> string \<Rightarrow> string" where
  "collapse_loop previous_space [] = []"
| "collapse_loop previous_space (c # rest) =
     (if is_blank c then
        (if \<not> previous_space then CHR '' '' # collapse_loop True rest else collapse_loop previous_space rest)
      else c # collapse_loop False rest)"

fun text_maximum :: "m6_text_kind \<Rightarrow> nat" where
  "text_maximum FolderName = 12"
| "text_maximum ChatDescription = 255"
| "text_maximum TopicName = 128"
| "text_maximum ChatTitle = 128"

definition canonical_text :: "m6_text_kind \<Rightarrow> string \<Rightarrow> string" where
  "canonical_text kind value =
     (case clean_input value of
        None \<Rightarrow> []
      | Some cleaned \<Rightarrow>
          let trimmed = trim_space_and_lf (normalize_unicode_spaces cleaned);
              bounded = trim_space_and_lf (truncate_scalars trimmed (text_maximum kind))
          in if kind = ChatDescription then bounded
             else trim_space_and_lf (collapse_loop False bounded))"

definition valid_m6_canonical_text :: "m6_text_kind \<Rightarrow> string \<Rightarrow> bool" where
  "valid_m6_canonical_text kind value =
     (if \<not> valid_utf8 value \<or> CHR 0x00 \<in> set value then False
      else let canonical = canonical_text kind value;
               permits_empty = (kind = ChatDescription)
           in canonical = value \<and> (permits_empty \<or> canonical \<noteq> []))"

subsection \<open>Selectors, numbers and links\<close>

definition control_scalar :: "nat \<Rightarrow> bool" where
  "control_scalar codepoint \<longleftrightarrow> codepoint \<le> 0x1F \<or> 0x7F \<le> codepoint \<and> codepoint \<le> 0x9F"

definition control_lead :: "nat \<Rightarrow> nat \<times> nat" where
  "control_lead first =
     (if 0xC2 \<le> first \<and> first \<le> 0xDF then (2, first AND 0x1F)
      else if 0xE0 \<le> first \<and> first \<le> 0xEF then (3, first AND 0x0F)
      else if 0xF0 \<le> first then (4, first AND 0x07)
      else (1, first))"

definition contains_control_scalar :: "string \<Rightarrow> bool" where
  "contains_control_scalar value = scan_scalars control_lead control_scalar (bytes_of value)"

definition valid_m6_exact_selector :: "string \<Rightarrow> bool" where
  "valid_m6_exact_selector value =
     (case classify_local_selector value of
        None \<Rightarrow> False
      | Some selector \<Rightarrow>
          selector_kind selector = Numeric \<or> selector_kind selector = Username \<or>
          selector_kind selector = PublicChatLink)"

definition parse_m6_positive_int32 :: "string \<Rightarrow> int option" where
  "parse_m6_positive_int32 value =
     (if value = [] \<or> \<not> char_between CHR ''1'' CHR ''9'' (hd value) \<or> \<not> list_all is_digit value then None
      else case from_chars_int64 value of
             None \<Rightarrow> None
           | Some (parsed, rest) \<Rightarrow>
               if rest \<noteq> [] \<or> parsed > 2 ^ 31 - 1 then None else Some parsed)"

definition valid_m6_contact_query :: "string \<Rightarrow> bool" where
  "valid_m6_contact_query value \<longleftrightarrow>
     value \<noteq> [] \<and> length value \<le> 256 \<and> CHR 0x00 \<notin> set value \<and> valid_utf8 value"

definition valid_m6_invite_link :: "string \<Rightarrow> bool" where
  "valid_m6_invite_link value \<longleftrightarrow>
     value \<noteq> [] \<and> length value \<le> 4096 \<and> CHR 0x00 \<notin> set value \<and> valid_utf8 value \<and>
     \<not> contains_control_scalar value"

subsection \<open>The vocabularies are name tables\<close>

interpretation icon_table: name_table "zip m6_folder_icon_values kFolderIcons"
proof
  show "v \<in> fst ` set (zip m6_folder_icon_values kFolderIcons)" for v
    unfolding m6_folder_icon_values_def kFolderIcons_def by (simp, cases v; simp)
qed (code_simp+)

interpretation color_table: name_table "zip m6_topic_color_values kTopicColors"
proof
  show "v \<in> fst ` set (zip m6_topic_color_values kTopicColors)" for v
    unfolding m6_topic_color_values_def kTopicColors_def by (simp, cases v; simp)
qed (code_simp+)

interpretation right_table: name_table "zip m6_admin_right_values kAdminRights"
proof
  show "v \<in> fst ` set (zip m6_admin_right_values kAdminRights)" for v
    unfolding m6_admin_right_values_def kAdminRights_def by (simp, cases v; simp)
qed (code_simp+)

interpretation permission_table: name_table "zip m6_chat_permission_values kChatPermissions"
proof
  show "v \<in> fst ` set (zip m6_chat_permission_values kChatPermissions)" for v
    unfolding m6_chat_permission_values_def kChatPermissions_def by (simp, cases v; simp)
qed (code_simp+)

subsection \<open>The shape of a canonical text\<close>

definition firsts :: "string \<Rightarrow> nat" where
  "firsts v = length (filter (\<lambda>c. utf8_first (byte_of c)) v)"

lemma blank_first: "is_blank c \<Longrightarrow> utf8_first (byte_of c)"
  by (auto simp: is_blank_def intro!: utf8_first_lead) (simp_all add: byte_of_def)

lemma trim_sublist: "\<exists>p q. v = p @ trim_space_and_lf v @ q"
proof -
  let ?f = "length (takeWhile is_blank v)" and ?b = "length v - length (takeWhile is_blank (rev v))"
  show ?thesis
  proof (cases "?f \<ge> ?b")
    case True
    then show ?thesis by (intro exI [of _ v] exI [of _ "[]"]) (simp add: trim_space_and_lf_def)
  next
    case False
    then have "trim_space_and_lf v = take (?b - ?f) (drop ?f v)" by (simp add: trim_space_and_lf_def Let_def)
    then show ?thesis
      by (intro exI [of _ "take ?f v"] exI [of _ "drop (?b - ?f) (drop ?f v)"]) (simp only: append_take_drop_id)
  qed
qed

lemma set_trim: "set (trim_space_and_lf v) \<subseteq> set v"
  using trim_sublist [of v] by (metis Un_iff set_append subsetI)

lemma firsts_trim: "firsts (trim_space_and_lf v) \<le> firsts v"
  using trim_sublist [of v] unfolding firsts_def by (metis filter_append le_add1 le_add2 le_trans length_append)

lemma trim_ends:
  "trim_space_and_lf v = [] \<or> \<not> is_blank (hd (trim_space_and_lf v)) \<and> \<not> is_blank (last (trim_space_and_lf v))"
proof -
  let ?f = "length (takeWhile is_blank v)" and ?g = "length (takeWhile is_blank (rev v))"
  let ?b = "length v - ?g"
  show ?thesis
  proof (cases "?f \<ge> ?b")
    case True
    then show ?thesis by (simp add: trim_space_and_lf_def)
  next
    case False
    then have t: "trim_space_and_lf v = take (?b - ?f) (drop ?f v)" by (simp add: trim_space_and_lf_def Let_def)
    have fb: "?f < ?b" and bl: "?b \<le> length v" using False by simp_all
    have "hd (take (?b - ?f) (drop ?f v)) = v ! ?f" using fb bl by (simp add: hd_drop_conv_nth)
    moreover have "\<not> is_blank (v ! ?f)" using fb bl nth_length_takeWhile [of is_blank v] by simp
    moreover have "last (take (?b - ?f) (drop ?f v)) = v ! (?b - 1)"
    proof -
      have len: "length (take (?b - ?f) (drop ?f v)) = ?b - ?f" using bl fb by simp
      then have "last (take (?b - ?f) (drop ?f v)) = take (?b - ?f) (drop ?f v) ! (?b - ?f - 1)"
        using fb by (subst last_conv_nth) auto
      also have "\<dots> = v ! (?f + (?b - ?f - 1))" using fb bl by (subst nth_take) auto
      also have "?f + (?b - ?f - 1) = ?b - 1" using fb by linarith
      finally show ?thesis .
    qed
    moreover have "\<not> is_blank (v ! (?b - 1))"
    proof -
      have "?g < length v" using fb by linarith
      then have "\<not> is_blank (rev v ! ?g)" using nth_length_takeWhile [of is_blank "rev v"] by simp
      moreover have "rev v ! ?g = v ! (?b - 1)" using \<open>?g < length v\<close> by (simp add: rev_nth)
      ultimately show ?thesis by simp
    qed
    ultimately show ?thesis using t by simp
  qed
qed

lemma firsts_truncate: "n \<le> m \<Longrightarrow> firsts (truncate_loop n m v) \<le> m - n"
proof (induction n m v rule: truncate_loop.induct)
  case (2 n m c rest)
  then show ?case by (cases "n = m") (auto simp: firsts_def)
qed (simp add: firsts_def)

lemma set_truncate: "set (truncate_loop n m v) \<subseteq> set v"
  by (induction n m v rule: truncate_loop.induct) auto

lemma firsts_collapse: "firsts (collapse_loop p v) \<le> firsts v"
proof (induction p v rule: collapse_loop.induct)
  case (2 p c rest)
  moreover have "utf8_first (byte_of CHR '' '')" by (rule blank_first) (simp add: is_blank_def)
  ultimately show ?case using blank_first [of c] by (auto simp: firsts_def)
qed simp

lemma set_collapse: "set (collapse_loop p v) \<subseteq> set v \<union> {CHR '' ''} - {CHR 0x0A}"
  by (induction p v rule: collapse_loop.induct) (auto simp: is_blank_def)

lemma set_replace_all: "set (replace_all n r v) \<subseteq> set r \<union> set v"
proof (induction n r v rule: replace_all.induct)
  case (1 n r v)
  then show ?case
    by (subst replace_all.simps) (auto dest: in_set_dropD list.set_sel split: if_splits)
qed

lemma replace_all_ascii:
  "list_all (\<lambda>c. byte_of c < 128) v \<Longrightarrow> byte_of a > 127 \<Longrightarrow> replace_all (a # needle) r v = v"
proof (induction v)
  case (Cons c v)
  then have "\<not> starts_with (c # v) (a # needle)" by (auto simp: starts_with_def)
  with Cons show ?case by (subst replace_all.simps) simp
qed (simp add: replace_all.simps)

lemma set_normalize: "set (normalize_unicode_spaces v) \<subseteq> set v \<union> {CHR '' ''}"
proof -
  have "set (foldl (\<lambda>v space. replace_all space '' '' v) w ss) \<subseteq> set w \<union> {CHR '' ''}" for w ss
  proof (induction ss arbitrary: w)
    case (Cons s ss)
    show ?case using Cons [of "replace_all s '' '' w"] set_replace_all [of s "'' ''" w] by auto
  qed auto
  then show ?thesis unfolding normalize_unicode_spaces_def .
qed

lemma set_clean: "c \<in> set (clean_loop v) \<Longrightarrow> byte_of c > 0x1F \<or> c = CHR 0x0A"
proof (induction v rule: clean_loop.induct)
  case (2 d rest)
  have lf: "byte_of d = 0x0A \<Longrightarrow> d = CHR 0x0A"
    using byte_of_inject [of d "CHR 0x0A"] by (simp add: byte_of_def)
  have sp: "byte_of CHR '' '' > 0x1F" by (simp add: byte_of_def)
  show ?case using 2 lf sp by (auto simp: Let_def split: if_splits)
qed simp

definition text_char :: "m6_text_kind \<Rightarrow> char \<Rightarrow> bool" where
  "text_char kind c \<longleftrightarrow> byte_of c > 0x1F \<or> kind = ChatDescription \<and> c = CHR 0x0A"

lemma canonical_text_shape:
  "firsts (canonical_text kind v) \<le> text_maximum kind \<and>
   (canonical_text kind v = [] \<or> \<not> is_blank (hd (canonical_text kind v)) \<and> \<not> is_blank (last (canonical_text kind v))) \<and>
   list_all (text_char kind) (canonical_text kind v)"
proof (cases "clean_input v")
  case None
  then show ?thesis by (simp add: canonical_text_def firsts_def)
next
  case (Some w)
  define b where "b = trim_space_and_lf (truncate_scalars (trim_space_and_lf (normalize_unicode_spaces w)) (text_maximum kind))"
  have ct: "canonical_text kind v = (if kind = ChatDescription then b else trim_space_and_lf (collapse_loop False b))"
    using Some by (simp add: canonical_text_def b_def Let_def)
  have fb: "firsts b \<le> text_maximum kind"
    unfolding b_def truncate_scalars_def
    using firsts_trim firsts_truncate [of 0 "text_maximum kind"] by (metis diff_zero le0 le_trans)
  have sp: "byte_of CHR '' '' > 0x1F" by (simp add: byte_of_def)
  have sb: "byte_of c > 0x1F \<or> c = CHR 0x0A" if "c \<in> set b" for c
  proof -
    from that have "c \<in> set (normalize_unicode_spaces w)"
      unfolding b_def truncate_scalars_def using set_trim set_truncate by (meson subsetD)
    with set_normalize have "c \<in> set w \<or> c = CHR '' ''" by blast
    with sp Some set_clean show ?thesis by (auto simp: clean_input_def split: if_splits)
  qed
  show ?thesis
  proof (cases "kind = ChatDescription")
    case True
    with ct fb sb trim_ends show ?thesis unfolding b_def by (auto simp: text_char_def list_all_iff)
  next
    case False
    with ct have c: "canonical_text kind v = trim_space_and_lf (collapse_loop False b)" by simp
    have "firsts (canonical_text kind v) \<le> text_maximum kind"
      unfolding c using firsts_trim firsts_collapse fb le_trans by metis
    moreover have "text_char kind x" if "x \<in> set (canonical_text kind v)" for x
    proof -
      from that have "x \<in> set b \<union> {CHR '' ''} - {CHR 0x0A}"
        unfolding c using set_trim set_collapse by (meson subsetD)
      with sb sp show ?thesis by (auto simp: text_char_def)
    qed
    ultimately show ?thesis using trim_ends unfolding c by (auto simp: list_all_iff)
  qed
qed

subsection \<open>Numbers and links\<close>

lemma digit_bytes: "is_digit c \<Longrightarrow> 48 \<le> byte_of c \<and> byte_of c \<le> 57"
  by (simp add: is_digit_def char_between_def byte_of_def)

lemma digits_value_pos:
  "list_all is_digit ds \<Longrightarrow> ds \<noteq> [] \<Longrightarrow> hd ds \<noteq> CHR ''0'' \<Longrightarrow> digits_value ds > 0"
proof (induction ds rule: rev_induct)
  case (snoc c ds)
  show ?case
  proof (cases "ds = []")
    case True
    have "byte_of c \<noteq> 48" using snoc.prems True byte_of_inject [of c "CHR ''0''"] by (simp add: byte_of_def)
    with snoc.prems True show ?thesis using digit_bytes [of c] by (simp add: digits_value_def)
  next
    case False
    with snoc show ?thesis by (simp add: digits_value_snoc)
  qed
qed simp

lemma to_string_digits_value:
  "list_all is_digit ds \<Longrightarrow> ds \<noteq> [] \<Longrightarrow> hd ds \<noteq> CHR ''0'' \<Longrightarrow> to_string_nat (digits_value ds) = ds"
proof (induction ds rule: rev_induct)
  case (snoc c ds)
  define d where "d = byte_of c - 48"
  from snoc.prems have "is_digit c" by simp
  then have d: "d < 10" "byte_of c = 48 + d" using digit_bytes [of c] unfolding d_def by linarith+
  then have c: "char_of (48 + d) = c" by (metis byte_of_def char_of_char)
  show ?case
  proof (cases "ds = []")
    case True
    have "digits_value [c] = d" by (simp add: digits_value_def d_def)
    then show ?thesis using True d(1) c to_string_nat.simps [of d] by simp
  next
    case False
    with snoc have ih: "to_string_nat (digits_value ds) = ds" and pos: "digits_value ds > 0"
      using digits_value_pos [of ds] by simp_all
    have v: "digits_value (ds @ [c]) = 10 * digits_value ds + d" by (simp add: digits_value_snoc d_def)
    show ?thesis unfolding v using pos d(1) ih c to_string_nat.simps [of "10 * digits_value ds + d"] by simp
  qed
qed simp

lemma to_string_nat_leading: "1 \<le> n \<Longrightarrow> hd (to_string_nat n) \<noteq> CHR ''0''"
proof (induction n rule: to_string_nat.induct)
  case (1 m)
  show ?case
  proof (cases "m < 10")
    case True
    then have "to_string_nat m = [char_of (48 + m)]" using to_string_nat.simps [of m] by simp
    moreover have "byte_of (char_of (48 + m)) \<noteq> byte_of CHR ''0''"
      using True "1.prems" by (simp add: byte_of_def)
    ultimately show ?thesis by auto
  next
    case False
    then have "to_string_nat m = to_string_nat (m div 10) @ [char_of (48 + m mod 10)]"
      using to_string_nat.simps [of m] by simp
    moreover have "hd (to_string_nat (m div 10)) \<noteq> CHR ''0''" using "1.IH" False by simp
    moreover have "to_string_nat (m div 10) \<noteq> []" using to_string_nat_correct by blast
    ultimately show ?thesis by simp
  qed
qed

lemma from_chars_all:
  "from_chars_int64 t = Some (i, []) \<longleftrightarrow>
     (\<exists>ds. ds \<noteq> [] \<and> list_all is_digit ds \<and>
        (t = ds \<and> i = int (digits_value ds) \<and> digits_value ds < 2 ^ 63 \<or>
         t = CHR ''-'' # ds \<and> i = - int (digits_value ds) \<and> digits_value ds \<le> 2 ^ 63))"
proof
  assume a: "from_chars_int64 t = Some (i, [])"
  define body where "body = (if t \<noteq> [] \<and> hd t = CHR ''-'' then tl t else t)"
  from a have d: "takeWhile is_digit body \<noteq> []" "dropWhile is_digit body = []"
    unfolding from_chars_int64_def body_def [symmetric] Let_def by (auto split: if_splits)
  from d(2) have all: "list_all is_digit body" by (auto simp: list_all_iff dropWhile_eq_Nil_conv)
  have ne: "body \<noteq> []" using d(1) by auto
  have "t = body \<or> t = CHR ''-'' # body" by (cases t) (auto simp: body_def)
  then show "\<exists>ds. ds \<noteq> [] \<and> list_all is_digit ds \<and>
        (t = ds \<and> i = int (digits_value ds) \<and> digits_value ds < 2 ^ 63 \<or>
         t = CHR ''-'' # ds \<and> i = - int (digits_value ds) \<and> digits_value ds \<le> 2 ^ 63)"
    using from_chars_digits_range [OF all ne] a all ne by (intro exI [of _ body]) (auto split: if_splits)
next
  assume "\<exists>ds. ds \<noteq> [] \<and> list_all is_digit ds \<and>
        (t = ds \<and> i = int (digits_value ds) \<and> digits_value ds < 2 ^ 63 \<or>
         t = CHR ''-'' # ds \<and> i = - int (digits_value ds) \<and> digits_value ds \<le> 2 ^ 63)"
  then show "from_chars_int64 t = Some (i, [])" using from_chars_digits_range by auto
qed

lemma control_lead_utf8: "utf8_lead first = Some (len, cp) \<Longrightarrow> control_lead first = (len, cp)"
  by (auto simp: utf8_lead_def control_lead_def split: if_splits)

lemma contains_control_encode_scalars:
  "list_all is_scalar ss \<Longrightarrow> scan_scalars control_lead control_scalar (encode_scalars ss) \<longleftrightarrow> list_ex control_scalar ss"
  by (rule scan_scalars_encode [OF control_lead_utf8])

subsection \<open>Properties\<close>

text \<open>
  C26: in each closed vocabulary a name parses to an enumerator exactly when it is that
  enumerator's name.
\<close>

theorem vocabularies_roundtrip:
  "(parse_m6_folder_icon name = Some i \<longleftrightarrow> m6_folder_icon_name i = name) \<and>
   (parse_m6_topic_color name = Some c \<longleftrightarrow> m6_topic_color_name c = name) \<and>
   (parse_m6_admin_right name = Some r \<longleftrightarrow> m6_admin_right_name r = name) \<and>
   (parse_m6_chat_permission name = Some p \<longleftrightarrow> m6_chat_permission_name p = name)"
  by (simp add: parse_m6_folder_icon_def parse_m6_topic_color_def parse_m6_admin_right_def
      parse_m6_chat_permission_def m6_folder_icon_name_def m6_topic_color_name_def m6_admin_right_name_def
      m6_chat_permission_name_def parse_closed_def closed_name_def icon_table.parse_some_iff
      color_table.parse_some_iff right_table.parse_some_iff permission_table.parse_some_iff)

text \<open>
  C27: a text accepted as canonical has at most the number of scalars its kind allows,
  neither begins nor ends with a blank, and holds no byte below \<open>0x20\<close>, line feeds in a chat
  description excepted; only a description may be empty. The other control characters, DEL and
  those from U+0080 to U+009F, are not excluded by this part of the code.
\<close>

theorem canonical_text_bounds:
  assumes "valid_m6_canonical_text kind value"
  shows "\<exists>n. utf8_scalar_count value = Some n \<and> n \<le> text_maximum kind \<and>
     list_all (text_char kind) value \<and>
     (value = [] \<and> kind = ChatDescription \<or> value \<noteq> [] \<and> \<not> is_blank (hd value) \<and> \<not> is_blank (last value))"
proof -
  from assms have v: "valid_utf8 value" and c: "canonical_text kind value = value"
    and e: "kind = ChatDescription \<or> value \<noteq> []"
    by (auto simp: valid_m6_canonical_text_def Let_def split: if_splits)
  with canonical_text_shape [of kind "value"] show ?thesis
    by (auto simp: utf8_scalar_count_def firsts_def)
qed

theorem canonical_text_bounds_witness:
  "\<exists>n. utf8_scalar_count ''work'' = Some n \<and> n \<le> text_maximum FolderName"
proof -
  have u: "valid_utf8 ''work''" by (rule valid_utf8_ascii) (simp add: byte_of_def)
  have r: "replace_all (a # needle) '' '' ''work'' = ''work''" if "byte_of a > 127" for a needle
    using that by (rule replace_all_ascii [rotated]) (simp add: byte_of_def)
  have n: "normalize_unicode_spaces ''work'' = ''work''"
    unfolding normalize_unicode_spaces_def unicode_spaces_def by (simp add: r byte_of_def)
  have "canonical_text FolderName ''work'' = ''work''"
    using u n by (simp add: canonical_text_def clean_input_def byte_of_def trim_space_and_lf_def is_blank_def
        truncate_scalars_def utf8_first_lead Let_def)
  with u have "valid_m6_canonical_text FolderName ''work''"
    by (simp add: valid_m6_canonical_text_def)
  from canonical_text_bounds [OF this] show ?thesis by blast
qed

text \<open>
  The parser of folder and topic ids accepts exactly the decimal texts, without sign
  and leading zeros, of the integers from 1 to \<open>2 ^ 31 - 1\<close>, and returns that integer.
\<close>

theorem positive_int32_iff:
  "parse_m6_positive_int32 s = Some i \<longleftrightarrow> 1 \<le> i \<and> i \<le> 2 ^ 31 - 1 \<and> s = to_string_int i"
proof
  assume p: "parse_m6_positive_int32 s = Some i"
  then have t: "s \<noteq> []" "char_between CHR ''1'' CHR ''9'' (hd s)" "list_all is_digit s"
    by (auto simp: parse_m6_positive_int32_def split: if_splits)
  then have nz: "hd s \<noteq> CHR ''0''" by (auto simp: char_classes)
  with p t have i: "i = int (digits_value s)" "i \<le> 2 ^ 31 - 1"
    by (auto simp: parse_m6_positive_int32_def from_chars_digits_range split: if_splits)
  have "1 \<le> i" using digits_value_pos [OF t(3,1) nz] i(1) by linarith
  moreover have "s = to_string_int i"
    using to_string_digits_value [OF t(3,1) nz] i(1) by (simp add: to_string_int_of_nat)
  ultimately show "1 \<le> i \<and> i \<le> 2 ^ 31 - 1 \<and> s = to_string_int i" using i(2) by blast
next
  assume a: "1 \<le> i \<and> i \<le> 2 ^ 31 - 1 \<and> s = to_string_int i"
  define n where "n = nat i"
  have n: "i = int n" using a by (simp add: n_def)
  then have "1 \<le> n" using a by linarith
  note n = n this
  have sn: "s = to_string_nat n" using a n by (simp add: to_string_int_of_nat)
  have nd: "s \<noteq> []" "list_all is_digit s" "digits_value s = n"
    using to_string_nat_correct [of n] sn by simp_all
  have "hd s \<noteq> CHR ''0''" using to_string_nat_leading [OF n(2)] sn by simp
  moreover have "is_digit (hd s)" using nd by (cases s) auto
  ultimately have "char_between CHR ''1'' CHR ''9'' (hd s)"
    using byte_of_inject [of "hd s" "CHR ''0''"] by (auto simp: is_digit_def char_between_def byte_of_def)
  moreover have "from_chars_int64 s = Some (int n, [])"
    using from_chars_digits(1) [OF nd(2,1)] nd(3) a n by simp
  ultimately show "parse_m6_positive_int32 s = Some i"
    using nd a n by (simp add: parse_m6_positive_int32_def)
qed

text \<open>
  C28: an invite link is accepted exactly when it is non-empty, at most 4096 bytes, and the
  encoding of Unicode scalars none of which is a control character.
\<close>

theorem invite_link_scalars:
  "valid_m6_invite_link value \<longleftrightarrow>
     value \<noteq> [] \<and> length value \<le> 4096 \<and>
     (\<exists>ss. list_all (\<lambda>s. is_scalar s \<and> \<not> control_scalar s) ss \<and> bytes_of value = encode_scalars ss)"
proof -
  have nul: "list_ex control_scalar ss" if "CHR 0x00 \<in> set value" "list_all is_scalar ss" "bytes_of value = encode_scalars ss" for ss
  proof -
    from that(1) have "0 \<in> set (bytes_of value)" by (force simp: bytes_of_def byte_of_def)
    with that(3) obtain s where s: "s \<in> set ss" "0 \<in> set (encode_scalar s)" by (auto simp: encode_scalars_def)
    then have "s = 0" by (auto simp: encode_scalar_def split: if_splits)
    with s(1) show ?thesis by (auto simp: list_ex_iff control_scalar_def)
  qed
  have "valid_utf8 value \<and> CHR 0x00 \<notin> set value \<and> \<not> contains_control_scalar value \<longleftrightarrow>
     (\<exists>ss. list_all (\<lambda>s. is_scalar s \<and> \<not> control_scalar s) ss \<and> bytes_of value = encode_scalars ss)"
  proof
    assume a: "valid_utf8 value \<and> CHR 0x00 \<notin> set value \<and> \<not> contains_control_scalar value"
    then obtain ss where ss: "list_all is_scalar ss" "bytes_of value = encode_scalars ss"
      unfolding valid_utf8_iff list_all_iff by blast
    with a have "\<not> list_ex control_scalar ss"
      by (simp add: contains_control_scalar_def contains_control_encode_scalars)
    with ss show "\<exists>ss. list_all (\<lambda>s. is_scalar s \<and> \<not> control_scalar s) ss \<and> bytes_of value = encode_scalars ss"
      by (auto simp: list_all_iff list_ex_iff)
  next
    assume "\<exists>ss. list_all (\<lambda>s. is_scalar s \<and> \<not> control_scalar s) ss \<and> bytes_of value = encode_scalars ss"
    then obtain ss where ss: "list_all is_scalar ss" "bytes_of value = encode_scalars ss" and c: "\<not> list_ex control_scalar ss"
      by (auto simp: list_all_iff list_ex_iff)
    then have "valid_utf8 value" unfolding valid_utf8_iff by (auto simp: list_all_iff)
    with ss c nul show "valid_utf8 value \<and> CHR 0x00 \<notin> set value \<and> \<not> contains_control_scalar value"
      by (auto simp: contains_control_scalar_def contains_control_encode_scalars)
  qed
  then show ?thesis unfolding valid_m6_invite_link_def by blast
qed

end
