(* ===== verification/M6_Audit.thy ===== *)
theory M6_Audit
  imports M6_Domain
begin

text \<open>
  \<^bold>\<open>daemon/m6_audit_contract.cpp\<close>: the closed schema of the plans, arguments and results that the audit log
  stores for the account management mutations. A \<open>std::set\<close> that detects duplicates is the list of what
  was inserted so far. \<open>value["k"]\<close> is \<open>field value k\<close>, evaluated behind \<open>exact_fields\<close> as in the source;
  a comparison with an integer constant is \<open>json_eq\<close>, whose conversions are those of the library.
\<close>

subsection \<open>Values\<close>

definition m6_valid_string :: "json \<Rightarrow> bool \<Rightarrow> bool" where
  "m6_valid_string value empty_allowed \<longleftrightarrow>
     is_string value \<and> valid_utf8 (string_of value) \<and> CHR 0x00 \<notin> set (string_of value) \<and>
     (empty_allowed \<or> string_of value \<noteq> [])"

definition m6_valid_int53 :: "json \<Rightarrow> bool \<Rightarrow> bool" where
  "m6_valid_int53 value positive =
     (if \<not> is_number_integer value then False
      else let number = get_int64 value
           in number \<ge> (if positive then 1 else - kMaximumInt53) \<and> number \<le> kMaximumInt53)"

definition m6_valid_positive_int32 :: "json \<Rightarrow> bool" where
  "m6_valid_positive_int32 value \<longleftrightarrow>
     is_number_integer value \<and> get_int64 value \<ge> 1 \<and> get_int64 value \<le> 2 ^ 31 - 1"

definition m6_valid_hash :: "json \<Rightarrow> bool" where
  "m6_valid_hash value =
     (if \<not> is_string value then False
      else let t = string_of value
           in length t = 71 \<and> starts_with t ''sha256:'' \<and> list_all is_lower_hex (drop 7 t))"

definition valid_canonical_int64 :: "json \<Rightarrow> bool \<Rightarrow> bool" where
  "valid_canonical_int64 value positive =
     (if \<not> is_string value then False
      else let t = string_of value
           in if t = [] \<or> (hd t = CHR ''+'' \<or> length t > 1 \<and> hd t = CHR ''0'') \<or> t = ''-0'' then False
              else case from_chars_int64 t of
                     None \<Rightarrow> False
                   | Some (parsed, rest) \<Rightarrow> rest = [] \<and> (\<not> positive \<or> parsed > 0))"

fun string_array_loop :: "string list \<Rightarrow> json list \<Rightarrow> bool" where
  "string_array_loop seen [] = True"
| "string_array_loop seen (item # items) =
     (m6_valid_string item False \<and> string_of item \<notin> set seen \<and>
      string_array_loop (string_of item # seen) items)"

definition valid_string_array :: "json \<Rightarrow> nat \<Rightarrow> bool" where
  "valid_string_array value maximum =
     (if \<not> is_array value \<or> jsize value > maximum then False else string_array_loop [] (items_of value))"

definition valid_user_identity :: "json \<Rightarrow> bool" where
  "valid_user_identity value \<longleftrightarrow>
     exact_fields value [''id'', ''display_name'', ''usernames'', ''is_bot''] \<and>
     m6_valid_int53 (field value ''id'') True \<and> m6_valid_string (field value ''display_name'') True \<and>
     valid_string_array (field value ''usernames'') 64 \<and> is_boolean (field value ''is_bot'')"

definition m6_valid_chat_identity :: "json \<Rightarrow> bool" where
  "m6_valid_chat_identity value =
     (if \<not> exact_fields value [''id'', ''title'', ''type'', ''is_bot'', ''usernames''] \<or>
         \<not> m6_valid_int53 (field value ''id'') False \<or> json_eq (field value ''id'') (JInt 0) \<or>
         \<not> m6_valid_string (field value ''title'') True \<or> \<not> is_string (field value ''type'') \<or>
         \<not> is_boolean (field value ''is_bot'') \<or> \<not> valid_string_array (field value ''usernames'') 64
      then False
      else string_of (field value ''type'') \<in> {''private'', ''basic_group'', ''supergroup'', ''channel''})"

text \<open>\<open>std::ranges::find(names, text)\<close> and its distance from the beginning.\<close>

fun index_of :: "'a \<Rightarrow> 'a list \<Rightarrow> nat option" where
  "index_of x [] = None"
| "index_of x (y # ys) = (if y = x then Some 0 else map_option Suc (index_of x ys))"

fun closed_array_loop :: "string list \<Rightarrow> bool \<Rightarrow> nat \<Rightarrow> json list \<Rightarrow> bool" where
  "closed_array_loop names first previous [] = True"
| "closed_array_loop names first previous (item # items) =
     (if \<not> is_string item then False
      else case index_of (string_of item) names of
             None \<Rightarrow> False
           | Some index \<Rightarrow>
               if \<not> first \<and> index \<le> previous then False
               else closed_array_loop names False index items)"

definition valid_closed_array :: "json \<Rightarrow> string list \<Rightarrow> nat \<Rightarrow> bool" where
  "valid_closed_array value names minimum =
     (if \<not> is_array value \<or> jsize value < minimum \<or> jsize value > length names then False
      else closed_array_loop names True 0 (items_of value))"

fun entity_loop :: "int \<Rightarrow> json list \<Rightarrow> bool" where
  "entity_loop previous_end [] = True"
| "entity_loop previous_end (entity # entities) =
     (if \<not> exact_fields entity [''offset'', ''length'', ''custom_emoji_id''] \<or>
         \<not> is_number_integer (field entity ''offset'') \<or> \<not> is_number_integer (field entity ''length'') \<or>
         \<not> valid_canonical_int64 (field entity ''custom_emoji_id'') True
      then False
      else let offset = get_int64 (field entity ''offset''); len = get_int64 (field entity ''length'')
           in if offset < previous_end \<or> len \<le> 0 \<or> offset > 2 ^ 31 - 1 - len then False
              else entity_loop (offset + len) entities)"

definition valid_folder_name :: "json \<Rightarrow> bool" where
  "valid_folder_name value =
     (if \<not> exact_fields value [''text'', ''animate_custom_emoji'', ''custom_emoji_entities''] \<or>
         \<not> is_string (field value ''text'') \<or>
         \<not> valid_m6_canonical_text FolderName (string_of (field value ''text'')) \<or>
         \<not> is_boolean (field value ''animate_custom_emoji'') \<or> \<not> is_array (field value ''custom_emoji_entities'')
      then False
      else entity_loop 0 (items_of (field value ''custom_emoji_entities'')))"

text \<open>The lambda \<open>valid_ids\<close> threads the set of ids seen in earlier arrays; \<open>None\<close> is its \<open>false\<close>.\<close>

fun chat_ids_loop :: "int list \<Rightarrow> json list \<Rightarrow> int list option" where
  "chat_ids_loop ids [] = Some ids"
| "chat_ids_loop ids (item # items) =
     (if m6_valid_int53 item False \<and> \<not> json_eq item (JInt 0) \<and> get_int64 item \<notin> set ids
      then chat_ids_loop (get_int64 item # ids) items
      else None)"

definition valid_ids :: "int list \<Rightarrow> json \<Rightarrow> nat \<Rightarrow> int list option" where
  "valid_ids ids array maximum =
     (if \<not> is_array array \<or> jsize array > maximum then None else chat_ids_loop ids (items_of array))"

definition valid_icon :: "json \<Rightarrow> bool" where
  "valid_icon value \<longleftrightarrow>
     value = JNull \<or> is_string value \<and> parse_m6_folder_icon (string_of value) \<noteq> None"

definition valid_color_id :: "json \<Rightarrow> bool" where
  "valid_color_id value \<longleftrightarrow> is_number_integer value \<and> \<not> get_int64 value < - 1 \<and> \<not> get_int64 value > 6"

definition folder_snapshot_fields :: "string list" where
  "folder_snapshot_fields =
     [''id'', ''name'', ''icon'', ''color_id'', ''is_shareable'', ''has_my_invite_links'', ''pinned_chat_ids'',
      ''included_chat_ids'', ''excluded_chat_ids'', ''exclude_muted'', ''exclude_read'', ''exclude_archived'',
      ''include_contacts'', ''include_non_contacts'', ''include_bots'', ''include_groups'', ''include_channels'']"

definition valid_folder_snapshot :: "json \<Rightarrow> bool" where
  "valid_folder_snapshot value =
     (if \<not> exact_fields value folder_snapshot_fields \<or> \<not> m6_valid_positive_int32 (field value ''id'') \<or>
         \<not> valid_folder_name (field value ''name'') \<or> \<not> valid_icon (field value ''icon'') \<or>
         \<not> valid_color_id (field value ''color_id'') \<or> \<not> is_boolean (field value ''is_shareable'') \<or>
         \<not> is_boolean (field value ''has_my_invite_links'')
      then False
      else case valid_ids [] (field value ''pinned_chat_ids'') 100 of
             None \<Rightarrow> False
           | Some ids1 \<Rightarrow>
               (case valid_ids ids1 (field value ''included_chat_ids'') 100 of
                  None \<Rightarrow> False
                | Some ids2 \<Rightarrow>
                    if jsize (field value ''pinned_chat_ids'') + jsize (field value ''included_chat_ids'') > 100
                    then False
                    else (case valid_ids ids2 (field value ''excluded_chat_ids'') 100 of
                            None \<Rightarrow> False
                          | Some ids3 \<Rightarrow>
                              list_all (\<lambda>name. is_boolean (field value name))
                                [''exclude_muted'', ''exclude_read'', ''exclude_archived'', ''include_contacts'',
                                 ''include_non_contacts'', ''include_bots'', ''include_groups'', ''include_channels''])))"

definition valid_topic_info :: "json \<Rightarrow> bool" where
  "valid_topic_info value \<longleftrightarrow>
     exact_fields value
       [''chat_id'', ''id'', ''name'', ''icon'', ''creation_date'', ''creator'', ''is_general'', ''is_outgoing'',
        ''is_closed'', ''is_hidden'', ''is_name_implicit''] \<and>
     m6_valid_int53 (field value ''chat_id'') False \<and> \<not> json_eq (field value ''chat_id'') (JInt 0) \<and>
     m6_valid_positive_int32 (field value ''id'') \<and> is_string (field value ''name'') \<and>
     valid_m6_canonical_text TopicName (string_of (field value ''name'')) \<and>
     exact_fields (field value ''icon'') [''color'', ''custom_emoji_id''] \<and>
     is_string (field (field value ''icon'') ''color'') \<and>
     parse_m6_topic_color (string_of (field (field value ''icon'') ''color'')) \<noteq> None \<and>
     valid_canonical_int64 (field (field value ''icon'') ''custom_emoji_id'') False \<and>
     m6_valid_string (field value ''creation_date'') False \<and>
     exact_fields (field value ''creator'') [''type'', ''id''] \<and>
     (field (field value ''creator'') ''type'' = JString ''user'' \<or>
      field (field value ''creator'') ''type'' = JString ''chat'') \<and>
     m6_valid_int53 (field (field value ''creator'') ''id'') False \<and>
     \<not> json_eq (field (field value ''creator'') ''id'') (JInt 0) \<and>
     is_boolean (field value ''is_general'') \<and> is_boolean (field value ''is_outgoing'') \<and>
     is_boolean (field value ''is_closed'') \<and> is_boolean (field value ''is_hidden'') \<and>
     is_boolean (field value ''is_name_implicit'')"

text \<open>The four copies of the date range check.\<close>

definition valid_until_date :: "json \<Rightarrow> bool" where
  "valid_until_date value \<longleftrightarrow> is_number_integer value \<and> get_int64 value \<ge> 0 \<and> get_int64 value \<le> 2 ^ 31 - 1"

definition valid_member_status :: "json \<Rightarrow> bool" where
  "valid_member_status value =
     (if \<not> is_object value \<or> \<not> contains value ''kind'' \<or> \<not> is_string (field value ''kind'') then False
      else let kind = string_of (field value ''kind'')
           in if kind = ''creator'' then
                exact_fields value [''kind'', ''is_anonymous'', ''is_member''] \<and>
                is_boolean (field value ''is_anonymous'') \<and> is_boolean (field value ''is_member'')
              else if kind = ''administrator'' then
                exact_fields value [''kind'', ''can_be_edited'', ''can_manage_chat'', ''rights''] \<and>
                is_boolean (field value ''can_be_edited'') \<and> is_boolean (field value ''can_manage_chat'') \<and>
                valid_closed_array (field value ''rights'') kAdminRights 0
              else if kind = ''member'' then
                exact_fields value [''kind'', ''member_until_date''] \<and> valid_until_date (field value ''member_until_date'')
              else if kind = ''restricted'' then
                exact_fields value [''kind'', ''is_member'', ''restricted_until_date'', ''permissions''] \<and>
                is_boolean (field value ''is_member'') \<and> valid_until_date (field value ''restricted_until_date'') \<and>
                valid_closed_array (field value ''permissions'') kChatPermissions 0
              else if kind = ''left'' then exact_fields value [''kind'']
              else kind = ''banned'' \<and> exact_fields value [''kind'', ''banned_until_date''] \<and>
                valid_until_date (field value ''banned_until_date''))"

definition terminal_member_status :: "m6_operation \<Rightarrow> string" where
  "terminal_member_status operation =
     (if operation = M6_ChatDemote then ''member''
      else if operation = M6_ChatBan then ''banned''
      else if operation = M6_ChatUnban \<or> operation = M6_ChatKick then ''left''
      else [])"

definition m6_valid_file_snapshot :: "json \<Rightarrow> bool" where
  "m6_valid_file_snapshot value \<longleftrightarrow>
     exact_fields value [''path'', ''name'', ''size'', ''sha256'', ''device'', ''inode'', ''mtime_ns'', ''ctime_ns''] \<and>
     m6_valid_string (field value ''path'') False \<and> m6_valid_string (field value ''name'') False \<and>
     is_number_unsigned (field value ''size'') \<and> m6_valid_hash (field value ''sha256'') \<and>
     is_number_unsigned (field value ''device'') \<and> is_number_unsigned (field value ''inode'') \<and>
     is_number_integer (field value ''mtime_ns'') \<and> is_number_integer (field value ''ctime_ns'')"

subsection \<open>Storage statistics\<close>

definition storage_file_types :: "string list" where
  "storage_file_types =
     [''none'', ''animation'', ''audio'', ''document'', ''live-photo-video'', ''notification-sound'', ''photo'',
      ''photo-story'', ''profile-photo'', ''secret'', ''secret-thumbnail'', ''secure'',
      ''self-destructing-live-photo-video'', ''self-destructing-photo'', ''self-destructing-video'',
      ''self-destructing-video-note'', ''self-destructing-voice-note'', ''sticker'', ''thumbnail'', ''unknown'',
      ''video'', ''video-note'', ''video-story'', ''voice-note'', ''wallpaper'']"

definition kMaximumInt32 :: int where
  "kMaximumInt32 = 2147483647"

fun file_type_loop :: "int \<Rightarrow> int \<Rightarrow> string list \<Rightarrow> json list \<Rightarrow> (int \<times> int) option" where
  "file_type_loop row_size row_count types [] = Some (row_size, row_count)"
| "file_type_loop row_size row_count types (item # items) =
     (if \<not> exact_fields item [''file_type'', ''size'', ''count''] \<or> \<not> is_string (field item ''file_type'') \<or>
         string_of (field item ''file_type'') \<notin> set storage_file_types \<or>
         \<not> m6_valid_int53 (field item ''size'') False \<or> get_int64 (field item ''size'') < 0 \<or>
         \<not> is_number_integer (field item ''count'') \<or> get_int64 (field item ''count'') < 0 \<or>
         string_of (field item ''file_type'') \<in> set types \<or>
         row_size > kMaximumInt53 - get_int64 (field item ''size'') \<or>
         row_count > kMaximumInt32 - get_int64 (field item ''count'')
      then None
      else file_type_loop (row_size + get_int64 (field item ''size'')) (row_count + get_int64 (field item ''count''))
             (string_of (field item ''file_type'') # types) items)"

fun by_chat_loop :: "int \<Rightarrow> int \<Rightarrow> int list \<Rightarrow> bool \<Rightarrow> json list \<Rightarrow> (int \<times> int) option" where
  "by_chat_loop total_size total_count chats aggregate [] = Some (total_size, total_count)"
| "by_chat_loop total_size total_count chats aggregate (row # rows) =
     (if \<not> exact_fields row [''chat_id'', ''size'', ''count'', ''by_file_type''] \<or>
         \<not> m6_valid_int53 (field row ''chat_id'') False \<or> \<not> m6_valid_int53 (field row ''size'') False \<or>
         get_int64 (field row ''size'') < 0 \<or> \<not> is_number_integer (field row ''count'') \<or>
         get_int64 (field row ''count'') < 0 \<or> \<not> is_array (field row ''by_file_type'') \<or>
         jsize (field row ''by_file_type'') > 25
      then None
      else let chat_id = get_int64 (field row ''chat_id'')
           in if chat_id = 0 \<and> aggregate \<or> chat_id \<noteq> 0 \<and> chat_id \<in> set chats then None
              else (case file_type_loop 0 0 [] (items_of (field row ''by_file_type'')) of
                      None \<Rightarrow> None
                    | Some (row_size, row_count) \<Rightarrow>
                        if \<not> json_eq (JInt row_size) (field row ''size'') \<or>
                           \<not> json_eq (JInt row_count) (field row ''count'') \<or>
                           total_size > kMaximumInt53 - row_size \<or> total_count > kMaximumInt32 - row_count
                        then None
                        else by_chat_loop (total_size + row_size) (total_count + row_count)
                               (if chat_id \<noteq> 0 then chat_id # chats else chats) (aggregate \<or> chat_id = 0) rows))"

definition valid_storage_statistics :: "json \<Rightarrow> bool" where
  "valid_storage_statistics value =
     (if \<not> exact_fields value [''size'', ''count'', ''by_chat''] \<or> \<not> m6_valid_int53 (field value ''size'') False \<or>
         get_int64 (field value ''size'') < 0 \<or> \<not> is_number_integer (field value ''count'') \<or>
         get_int64 (field value ''count'') < 0 \<or> get_int64 (field value ''count'') > kMaximumInt32 \<or>
         \<not> is_array (field value ''by_chat'') \<or> jsize (field value ''by_chat'') > 101
      then False
      else case by_chat_loop 0 0 [] False (items_of (field value ''by_chat'')) of
             None \<Rightarrow> False
           | Some (total_size, total_count) \<Rightarrow>
               json_eq (JInt total_size) (field value ''size'') \<and> json_eq (JInt total_count) (field value ''count''))"

subsection \<open>Plans and arguments\<close>

definition common_plan :: "m6_write_policy \<Rightarrow> json \<Rightarrow> string \<Rightarrow> bool" where
  "common_plan policy value account \<longleftrightarrow>
     is_object value \<and> contains value ''operation'' \<and> field value ''operation'' = JString (policy_audit_name policy) \<and>
     contains value ''account'' \<and> field value ''account'' = JString account \<and> valid_account_name account \<and>
     contains value ''tdlib_request'' \<and> is_string (field value ''tdlib_request'') \<and>
     valid_m6_tdlib_function (policy_operation policy) (string_of (field value ''tdlib_request''))"

definition plan_fields :: "json \<Rightarrow> string list \<Rightarrow> bool" where
  "plan_fields value names \<longleftrightarrow> exact_fields value ([''operation'', ''account'', ''tdlib_request''] @ names)"

text \<open>The \<open>switch\<close> of \<open>valid_m6_audit_plan\<close>.\<close>

fun valid_m6_plan_body :: "m6_operation \<Rightarrow> json \<Rightarrow> bool" where
  "valid_m6_plan_body M6_ContactAdd v \<longleftrightarrow>
     plan_fields v [''user'', ''first_name'', ''last_name'', ''phone_number_sha256'', ''share_phone_number''] \<and>
     valid_user_identity (field v ''user'') \<and> m6_valid_string (field v ''first_name'') False \<and>
     m6_valid_string (field v ''last_name'') True \<and> m6_valid_hash (field v ''phone_number_sha256'') \<and>
     field v ''share_phone_number'' = JBool False"
| "valid_m6_plan_body M6_ContactRemove v \<longleftrightarrow>
     plan_fields v [''user'', ''is_contact''] \<and> valid_user_identity (field v ''user'') \<and>
     field v ''is_contact'' = JBool False"
| "valid_m6_plan_body M6_ContactBlock v \<longleftrightarrow>
     plan_fields v [''user'', ''blocked''] \<and> valid_user_identity (field v ''user'') \<and> field v ''blocked'' = JBool True"
| "valid_m6_plan_body M6_ContactUnblock v \<longleftrightarrow>
     plan_fields v [''user'', ''blocked''] \<and> valid_user_identity (field v ''user'') \<and> field v ''blocked'' = JBool False"
| "valid_m6_plan_body M6_FolderCreate v \<longleftrightarrow>
     plan_fields v [''name'', ''icon'', ''color_id'', ''chat_ids''] \<and> valid_folder_name (field v ''name'') \<and>
     valid_icon (field v ''icon'') \<and> valid_color_id (field v ''color_id'') \<and> is_array (field v ''chat_ids'') \<and>
     \<not> jempty (field v ''chat_ids'') \<and> \<not> jsize (field v ''chat_ids'') > 100 \<and>
     chat_ids_loop [] (items_of (field v ''chat_ids'')) \<noteq> None"
| "valid_m6_plan_body M6_FolderEdit v \<longleftrightarrow>
     plan_fields v [''folder_id'', ''before'', ''after''] \<and> m6_valid_positive_int32 (field v ''folder_id'') \<and>
     valid_folder_snapshot (field v ''before'') \<and> valid_folder_snapshot (field v ''after'') \<and>
     json_eq (field (field v ''before'') ''id'') (field v ''folder_id'') \<and>
     json_eq (field (field v ''after'') ''id'') (field v ''folder_id'') \<and>
     \<not> json_eq (field v ''before'') (field v ''after'')"
| "valid_m6_plan_body M6_FolderDelete v \<longleftrightarrow>
     plan_fields v [''folder'', ''leave_chat_ids''] \<and> valid_folder_snapshot (field v ''folder'') \<and>
     is_array (field v ''leave_chat_ids'') \<and> jempty (field v ''leave_chat_ids'')"
| "valid_m6_plan_body M6_FolderAddChat v \<longleftrightarrow>
     plan_fields v [''folder_id'', ''chat'', ''before'', ''after''] \<and> m6_valid_positive_int32 (field v ''folder_id'') \<and>
     m6_valid_chat_identity (field v ''chat'') \<and> valid_folder_snapshot (field v ''before'') \<and>
     valid_folder_snapshot (field v ''after'') \<and> json_eq (field (field v ''before'') ''id'') (field v ''folder_id'') \<and>
     json_eq (field (field v ''after'') ''id'') (field v ''folder_id'') \<and>
     \<not> json_eq (field v ''before'') (field v ''after'')"
| "valid_m6_plan_body M6_FolderRemoveChat v \<longleftrightarrow>
     plan_fields v [''folder_id'', ''chat'', ''before'', ''after''] \<and> m6_valid_positive_int32 (field v ''folder_id'') \<and>
     m6_valid_chat_identity (field v ''chat'') \<and> valid_folder_snapshot (field v ''before'') \<and>
     valid_folder_snapshot (field v ''after'') \<and> json_eq (field (field v ''before'') ''id'') (field v ''folder_id'') \<and>
     json_eq (field (field v ''after'') ''id'') (field v ''folder_id'') \<and>
     \<not> json_eq (field v ''before'') (field v ''after'')"
| "valid_m6_plan_body M6_TopicCreate v \<longleftrightarrow>
     plan_fields v [''chat'', ''name'', ''icon''] \<and> m6_valid_chat_identity (field v ''chat'') \<and>
     is_string (field v ''name'') \<and> valid_m6_canonical_text TopicName (string_of (field v ''name'')) \<and>
     is_string (field v ''icon'') \<and> parse_m6_topic_color (string_of (field v ''icon'')) \<noteq> None"
| "valid_m6_plan_body M6_TopicEdit v \<longleftrightarrow>
     plan_fields v [''chat'', ''before'', ''name''] \<and> m6_valid_chat_identity (field v ''chat'') \<and>
     valid_topic_info (field v ''before'') \<and> is_string (field v ''name'') \<and>
     valid_m6_canonical_text TopicName (string_of (field v ''name'')) \<and>
     \<not> json_eq (field v ''name'') (field (field v ''before'') ''name'')"
| "valid_m6_plan_body M6_TopicClose v \<longleftrightarrow>
     plan_fields v [''chat'', ''before'', ''closed''] \<and> m6_valid_chat_identity (field v ''chat'') \<and>
     valid_topic_info (field v ''before'') \<and> field v ''closed'' = JBool True \<and>
     \<not> json_eq (field (field v ''before'') ''is_closed'') (field v ''closed'')"
| "valid_m6_plan_body M6_TopicReopen v \<longleftrightarrow>
     plan_fields v [''chat'', ''before'', ''closed''] \<and> m6_valid_chat_identity (field v ''chat'') \<and>
     valid_topic_info (field v ''before'') \<and> field v ''closed'' = JBool False \<and>
     \<not> json_eq (field (field v ''before'') ''is_closed'') (field v ''closed'')"
| "valid_m6_plan_body M6_ChatSetTitle v \<longleftrightarrow>
     plan_fields v [''chat'', ''title''] \<and> m6_valid_chat_identity (field v ''chat'') \<and> is_string (field v ''title'') \<and>
     valid_m6_canonical_text ChatTitle (string_of (field v ''title''))"
| "valid_m6_plan_body M6_ChatSetPhoto v \<longleftrightarrow>
     contains v ''delete'' \<and> contains v ''file'' \<and> plan_fields v [''chat'', ''delete'', ''file''] \<and>
     m6_valid_chat_identity (field v ''chat'') \<and> is_boolean (field v ''delete'') \<and>
     (if field v ''delete'' = JBool True then field v ''file'' = JNull else m6_valid_file_snapshot (field v ''file''))"
| "valid_m6_plan_body M6_ChatSetDescription v \<longleftrightarrow>
     plan_fields v [''chat'', ''description''] \<and> m6_valid_chat_identity (field v ''chat'') \<and>
     is_string (field v ''description'') \<and>
     valid_m6_canonical_text ChatDescription (string_of (field v ''description''))"
| "valid_m6_plan_body M6_ChatInviteLink v \<longleftrightarrow>
     plan_fields v [''chat'', ''action'', ''invite_link_sha256''] \<and> m6_valid_chat_identity (field v ''chat'') \<and>
     (field v ''action'' = JString ''create'' \<and> field v ''invite_link_sha256'' = JNull \<and>
      field v ''tdlib_request'' = JString ''createChatInviteLink'' \<or>
      field v ''action'' = JString ''revoke'' \<and> m6_valid_hash (field v ''invite_link_sha256'') \<and>
      field v ''tdlib_request'' = JString ''revokeChatInviteLink'')"
| "valid_m6_plan_body M6_ChatPromote v \<longleftrightarrow>
     plan_fields v [''chat'', ''user'', ''before'', ''can_manage_chat'', ''rights''] \<and>
     m6_valid_chat_identity (field v ''chat'') \<and> valid_user_identity (field v ''user'') \<and>
     valid_member_status (field v ''before'') \<and> field v ''can_manage_chat'' = JBool True \<and>
     valid_closed_array (field v ''rights'') kAdminRights 1"
| "valid_m6_plan_body M6_ChatSetPermissions v \<longleftrightarrow>
     plan_fields v [''chat'', ''permissions''] \<and> m6_valid_chat_identity (field v ''chat'') \<and>
     valid_closed_array (field v ''permissions'') kChatPermissions 0"
| "valid_m6_plan_body M6_StorageOptimize v \<longleftrightarrow>
     plan_fields v [''size'', ''ttl'', ''count'', ''immunity_delay'', ''file_types'', ''chat_ids'', ''exclude_chat_ids'',
       ''return_deleted_file_statistics'', ''chat_limit''] \<and>
     json_eq (field v ''size'') (JInt (- 1)) \<and> json_eq (field v ''ttl'') (JInt (- 1)) \<and>
     json_eq (field v ''count'') (JInt (- 1)) \<and> json_eq (field v ''immunity_delay'') (JInt (- 1)) \<and>
     is_array (field v ''file_types'') \<and> jempty (field v ''file_types'') \<and> is_array (field v ''chat_ids'') \<and>
     jempty (field v ''chat_ids'') \<and> is_array (field v ''exclude_chat_ids'') \<and>
     jempty (field v ''exclude_chat_ids'') \<and> field v ''return_deleted_file_statistics'' = JBool False \<and>
     json_eq (field v ''chat_limit'') (JInt 100)"
| "valid_m6_plan_body operation v \<longleftrightarrow>
     operation \<in> {M6_ChatDemote, M6_ChatBan, M6_ChatUnban, M6_ChatKick} \<and>
     plan_fields v [''chat'', ''user'', ''before'', ''after''] \<and> m6_valid_chat_identity (field v ''chat'') \<and>
     valid_user_identity (field v ''user'') \<and> valid_member_status (field v ''before'') \<and>
     field v ''after'' = JString (terminal_member_status operation)"

definition valid_m6_audit_plan :: "m6_operation \<Rightarrow> json \<Rightarrow> string \<Rightarrow> bool" where
  "valid_m6_audit_plan operation value account =
     (case find_policy operation of
        None \<Rightarrow> False
      | Some policy \<Rightarrow> common_plan policy value account \<and> valid_m6_plan_body operation value)"

text \<open>\<open>value["k"] = x\<close> and \<open>value.erase("k")\<close> on an object, whose members stay in key order.\<close>

fun member_set :: "string \<Rightarrow> json \<Rightarrow> (string \<times> json) list \<Rightarrow> (string \<times> json) list" where
  "member_set k x [] = [(k, x)]"
| "member_set k x ((l, y) # ms) =
     (if k = l then (k, x) # ms else if k < l then (k, x) # (l, y) # ms else (l, y) # member_set k x ms)"

definition json_set :: "json \<Rightarrow> string \<Rightarrow> json \<Rightarrow> json" where
  "json_set v k x = JObject (member_set k x (members_of v))"

definition json_erase :: "json \<Rightarrow> string \<Rightarrow> json" where
  "json_erase v k = JObject (filter (\<lambda>m. fst m \<noteq> k) (members_of v))"

definition valid_m6_audit_arguments :: "m6_operation \<Rightarrow> json \<Rightarrow> bool" where
  "valid_m6_audit_arguments operation value =
     (case find_policy operation of
        None \<Rightarrow> False
      | Some policy \<Rightarrow>
          if \<not> is_object value \<or> contains value ''operation'' \<or> contains value ''account'' \<or>
             contains value ''tdlib_request''
          then False
          else let synthetic =
                     json_set (json_set (json_set value ''operation'' (JString (policy_audit_name policy)))
                       ''account'' (JString ''main'')) ''tdlib_request'' (JString (fst (policy_functions policy)));
                   synthetic' =
                     (if operation = M6_ChatInviteLink \<and> contains value ''action'' \<and>
                         field value ''action'' = JString ''revoke''
                      then json_set synthetic ''tdlib_request'' (JString (snd (policy_functions policy)))
                      else synthetic)
               in valid_m6_audit_plan operation synthetic' ''main'')"

definition m6_arguments_match_plan :: "m6_operation \<Rightarrow> json \<Rightarrow> json \<Rightarrow> bool" where
  "m6_arguments_match_plan operation arguments plan =
     (if \<not> valid_m6_audit_arguments operation arguments \<or> \<not> is_object plan then False
      else json_eq (json_erase (json_erase (json_erase plan ''operation'') ''account'') ''tdlib_request'') arguments)"

subsection \<open>Results\<close>

fun valid_m6_audit_result :: "m6_operation \<Rightarrow> json \<Rightarrow> bool" where
  "valid_m6_audit_result M6_ContactAdd v \<longleftrightarrow>
     exact_fields v [''user'', ''is_contact''] \<and> valid_user_identity (field v ''user'') \<and>
     field v ''is_contact'' = JBool True"
| "valid_m6_audit_result M6_ContactRemove v \<longleftrightarrow>
     exact_fields v [''user'', ''is_contact''] \<and> valid_user_identity (field v ''user'') \<and>
     field v ''is_contact'' = JBool False"
| "valid_m6_audit_result M6_ContactBlock v \<longleftrightarrow>
     exact_fields v [''user'', ''blocked''] \<and> valid_user_identity (field v ''user'') \<and> field v ''blocked'' = JBool True"
| "valid_m6_audit_result M6_ContactUnblock v \<longleftrightarrow>
     exact_fields v [''user'', ''blocked''] \<and> valid_user_identity (field v ''user'') \<and> field v ''blocked'' = JBool False"
| "valid_m6_audit_result M6_FolderCreate v \<longleftrightarrow>
     exact_fields v [''folder''] \<and> valid_folder_snapshot (field v ''folder'')"
| "valid_m6_audit_result M6_FolderEdit v \<longleftrightarrow>
     exact_fields v [''folder''] \<and> valid_folder_snapshot (field v ''folder'')"
| "valid_m6_audit_result M6_FolderDelete v \<longleftrightarrow>
     exact_fields v [''folder_id'', ''deleted''] \<and> m6_valid_positive_int32 (field v ''folder_id'') \<and>
     field v ''deleted'' = JBool True"
| "valid_m6_audit_result M6_FolderAddChat v \<longleftrightarrow>
     exact_fields v [''folder'', ''chat'', ''included''] \<and> valid_folder_snapshot (field v ''folder'') \<and>
     m6_valid_chat_identity (field v ''chat'') \<and> field v ''included'' = JBool True"
| "valid_m6_audit_result M6_FolderRemoveChat v \<longleftrightarrow>
     exact_fields v [''folder'', ''chat'', ''included''] \<and> valid_folder_snapshot (field v ''folder'') \<and>
     m6_valid_chat_identity (field v ''chat'') \<and> field v ''included'' = JBool False"
| "valid_m6_audit_result M6_TopicCreate v \<longleftrightarrow>
     exact_fields v [''topic''] \<and> valid_topic_info (field v ''topic'')"
| "valid_m6_audit_result M6_TopicEdit v \<longleftrightarrow>
     exact_fields v [''chat'', ''topic_id'', ''name''] \<and> m6_valid_chat_identity (field v ''chat'') \<and>
     m6_valid_positive_int32 (field v ''topic_id'') \<and> is_string (field v ''name'') \<and>
     valid_m6_canonical_text TopicName (string_of (field v ''name''))"
| "valid_m6_audit_result M6_TopicClose v \<longleftrightarrow>
     exact_fields v [''chat'', ''topic_id'', ''closed''] \<and> m6_valid_chat_identity (field v ''chat'') \<and>
     m6_valid_positive_int32 (field v ''topic_id'') \<and> field v ''closed'' = JBool True"
| "valid_m6_audit_result M6_TopicReopen v \<longleftrightarrow>
     exact_fields v [''chat'', ''topic_id'', ''closed''] \<and> m6_valid_chat_identity (field v ''chat'') \<and>
     m6_valid_positive_int32 (field v ''topic_id'') \<and> field v ''closed'' = JBool False"
| "valid_m6_audit_result M6_ChatSetTitle v \<longleftrightarrow>
     exact_fields v [''chat'', ''title''] \<and> m6_valid_chat_identity (field v ''chat'') \<and> is_string (field v ''title'')"
| "valid_m6_audit_result M6_ChatSetPhoto v \<longleftrightarrow>
     exact_fields v [''chat'', ''photo''] \<and> m6_valid_chat_identity (field v ''chat'') \<and>
     (field v ''photo'' = JString ''set'' \<or> field v ''photo'' = JString ''deleted'')"
| "valid_m6_audit_result M6_ChatSetDescription v \<longleftrightarrow>
     exact_fields v [''chat'', ''description''] \<and> m6_valid_chat_identity (field v ''chat'') \<and>
     is_string (field v ''description'')"
| "valid_m6_audit_result M6_ChatInviteLink v \<longleftrightarrow>
     exact_fields v [''chat'', ''action'', ''invite_link''] \<and> m6_valid_chat_identity (field v ''chat'') \<and>
     (field v ''action'' = JString ''create'' \<and> m6_valid_string (field v ''invite_link'') False \<or>
      field v ''action'' = JString ''revoke'' \<and>
      (field v ''invite_link'' = JNull \<or> m6_valid_string (field v ''invite_link'') False))"
| "valid_m6_audit_result M6_ChatPromote v \<longleftrightarrow>
     exact_fields v [''chat'', ''user'', ''status'', ''can_manage_chat'', ''rights''] \<and>
     m6_valid_chat_identity (field v ''chat'') \<and> valid_user_identity (field v ''user'') \<and>
     field v ''status'' = JString ''administrator'' \<and> field v ''can_manage_chat'' = JBool True \<and>
     valid_closed_array (field v ''rights'') kAdminRights 1"
| "valid_m6_audit_result M6_ChatSetPermissions v \<longleftrightarrow>
     exact_fields v [''chat'', ''permissions''] \<and> m6_valid_chat_identity (field v ''chat'') \<and>
     valid_closed_array (field v ''permissions'') kChatPermissions 0"
| "valid_m6_audit_result M6_StorageOptimize v \<longleftrightarrow>
     exact_fields v [''optimized'', ''statistics''] \<and> field v ''optimized'' = JBool True \<and>
     valid_storage_statistics (field v ''statistics'')"
| "valid_m6_audit_result operation v \<longleftrightarrow>
     operation \<in> {M6_ChatDemote, M6_ChatBan, M6_ChatUnban, M6_ChatKick} \<and>
     exact_fields v [''chat'', ''user'', ''status''] \<and> m6_valid_chat_identity (field v ''chat'') \<and>
     valid_user_identity (field v ''user'') \<and> field v ''status'' = JString (terminal_member_status operation)"

fun m6_result_agrees :: "m6_operation \<Rightarrow> json \<Rightarrow> json \<Rightarrow> bool" where
  "m6_result_agrees M6_FolderCreate result plan \<longleftrightarrow>
     json_eq (field (field result ''folder'') ''name'') (field plan ''name'') \<and>
     json_eq (field (field result ''folder'') ''color_id'') (field plan ''color_id'') \<and>
     (field plan ''icon'' = JNull \<or> json_eq (field (field result ''folder'') ''icon'') (field plan ''icon'')) \<and>
     jempty (field (field result ''folder'') ''pinned_chat_ids'') \<and>
     json_eq (field (field result ''folder'') ''included_chat_ids'') (field plan ''chat_ids'') \<and>
     jempty (field (field result ''folder'') ''excluded_chat_ids'')"
| "m6_result_agrees M6_FolderEdit result plan \<longleftrightarrow> json_eq (field result ''folder'') (field plan ''after'')"
| "m6_result_agrees M6_FolderDelete result plan \<longleftrightarrow>
     json_eq (field result ''folder_id'') (field (field plan ''folder'') ''id'')"
| "m6_result_agrees M6_FolderAddChat result plan \<longleftrightarrow>
     json_eq (field result ''folder'') (field plan ''after'') \<and> json_eq (field result ''chat'') (field plan ''chat'')"
| "m6_result_agrees M6_FolderRemoveChat result plan \<longleftrightarrow>
     json_eq (field result ''folder'') (field plan ''after'') \<and> json_eq (field result ''chat'') (field plan ''chat'')"
| "m6_result_agrees M6_TopicCreate result plan \<longleftrightarrow>
     json_eq (field (field result ''topic'') ''chat_id'') (field (field plan ''chat'') ''id'') \<and>
     json_eq (field (field result ''topic'') ''name'') (field plan ''name'')"
| "m6_result_agrees M6_TopicEdit result plan \<longleftrightarrow>
     json_eq (field result ''topic_id'') (field (field plan ''before'') ''id'') \<and>
     json_eq (field result ''name'') (field plan ''name'')"
| "m6_result_agrees M6_TopicClose result plan \<longleftrightarrow>
     json_eq (field result ''topic_id'') (field (field plan ''before'') ''id'') \<and>
     json_eq (field result ''closed'') (field plan ''closed'')"
| "m6_result_agrees M6_TopicReopen result plan \<longleftrightarrow>
     json_eq (field result ''topic_id'') (field (field plan ''before'') ''id'') \<and>
     json_eq (field result ''closed'') (field plan ''closed'')"
| "m6_result_agrees M6_ChatSetTitle result plan \<longleftrightarrow> json_eq (field result ''title'') (field plan ''title'')"
| "m6_result_agrees M6_ChatSetPhoto result plan \<longleftrightarrow>
     field result ''photo'' = JString (if field plan ''delete'' = JBool True then ''deleted'' else ''set'')"
| "m6_result_agrees M6_ChatSetDescription result plan \<longleftrightarrow>
     json_eq (field result ''description'') (field plan ''description'')"
| "m6_result_agrees M6_ChatInviteLink result plan \<longleftrightarrow> json_eq (field result ''action'') (field plan ''action'')"
| "m6_result_agrees M6_ChatPromote result plan \<longleftrightarrow> json_eq (field result ''rights'') (field plan ''rights'')"
| "m6_result_agrees M6_ChatSetPermissions result plan \<longleftrightarrow>
     json_eq (field result ''permissions'') (field plan ''permissions'')"
| "m6_result_agrees operation result plan \<longleftrightarrow>
     operation \<in> {M6_ContactAdd, M6_ContactRemove, M6_ContactBlock, M6_ContactUnblock, M6_ChatDemote, M6_ChatBan,
       M6_ChatUnban, M6_ChatKick, M6_StorageOptimize}"

definition m6_result_matches_plan :: "m6_operation \<Rightarrow> json \<Rightarrow> json \<Rightarrow> bool" where
  "m6_result_matches_plan operation result plan =
     (if \<not> valid_m6_audit_result operation result \<or> \<not> is_object plan then False
      else if contains result ''chat'' \<and> contains plan ''chat'' \<and>
              \<not> json_eq (field result ''chat'') (field plan ''chat'') then False
      else if contains result ''user'' \<and> contains plan ''user'' \<and>
              \<not> json_eq (field result ''user'') (field plan ''user'') then False
      else m6_result_agrees operation result plan)"

subsection \<open>Closed arrays are subsequences of the vocabulary\<close>

lemma index_of_Some: "index_of x ys = Some i \<Longrightarrow> i < length ys \<and> ys ! i = x"
  by (induction ys arbitrary: i) (auto split: if_splits)

lemma index_of_nth: "distinct ys \<Longrightarrow> i < length ys \<Longrightarrow> index_of (ys ! i) ys = Some i"
proof (induction ys arbitrary: i)
  case (Cons y ys)
  then show ?case by (cases i) auto
qed simp

lemma subseq_head_in: "subseq (x # xs) ys \<Longrightarrow> x \<in> set ys"
  by (induction ys) (auto split: if_splits)

lemma subseq_skip_prefix: "x \<notin> set p \<Longrightarrow> subseq (x # xs) (p @ ys) \<longleftrightarrow> subseq (x # xs) ys"
  by (induction p) auto

lemma JString_Cons_ex:
  "(\<exists>ss. JString s # items = map JString ss \<and> P ss) \<longleftrightarrow> (\<exists>ss. items = map JString ss \<and> P (s # ss))"
  by (auto simp: Cons_eq_map_conv)

text \<open>After an element at position \<open>previous\<close>, the array goes on with a subsequence of what follows it.\<close>

lemma closed_array_loop_later:
  assumes "distinct names"
  shows "closed_array_loop names False previous items \<longleftrightarrow>
     (\<exists>ss. items = map JString ss \<and> subseq ss (drop (Suc previous) names))"
proof (induction items arbitrary: previous)
  case (Cons item items)
  show ?case
  proof (cases item)
    case (JString s)
    show ?thesis
    proof (cases "index_of s names")
      case None
      have "s \<notin> set names"
      proof
        assume "s \<in> set names"
        then obtain i where "i < length names" "names ! i = s" by (metis in_set_conv_nth)
        with index_of_nth [OF assms] None show False by fastforce
      qed
      then have "\<not> subseq (s # ss) (drop (Suc previous) names)" for ss
        using subseq_head_in in_set_dropD by metis
      with JString None show ?thesis by auto
    next
      case (Some i)
      have i: "i < length names" "names ! i = s" using index_of_Some [OF Some] by simp_all
      have "subseq (s # ss) (drop (Suc previous) names) \<longleftrightarrow> previous < i \<and> subseq ss (drop (Suc i) names)" for ss
      proof (cases "previous < i")
        case True
        have "drop (Suc previous) names = drop (Suc previous) (take i names) @ s # drop (Suc i) names"
        proof -
          have "names = take i names @ s # drop (Suc i) names"
            using id_take_nth_drop [OF i(1)] unfolding i(2) .
          from arg_cong [OF this] have "drop (Suc previous) names = drop (Suc previous) (take i names @ s # drop (Suc i) names)" .
          also have "\<dots> = drop (Suc previous) (take i names) @ s # drop (Suc i) names" using True i by simp
          finally show ?thesis .
        qed
        moreover have "s \<notin> set (drop (Suc previous) (take i names))"
        proof
          assume "s \<in> set (drop (Suc previous) (take i names))"
          then have "s \<in> set (take i names)" by (rule in_set_dropD)
          then obtain j where "j < i" "names ! j = s" using i(1) by (auto simp: in_set_conv_nth)
          with assms i show False by (auto simp: nth_eq_iff_index_eq)
        qed
        ultimately show ?thesis using True by (simp add: subseq_skip_prefix)
      next
        case False
        have "s \<notin> set (drop (Suc previous) names)"
        proof
          assume "s \<in> set (drop (Suc previous) names)"
          then obtain j where j: "j < length names - Suc previous" "names ! (Suc previous + j) = s"
            by (auto simp: in_set_conv_nth)
          then have "Suc previous + j < length names" by linarith
          from nth_eq_iff_index_eq [OF assms this i(1)] i(2) j(2) False show False by simp
        qed
        then show ?thesis using False subseq_head_in by metis
      qed
      with JString Some Cons.IH [of i] show ?thesis by (simp add: JString_Cons_ex not_le)
    qed
  qed auto
qed simp

lemma closed_array_loop_first:
  assumes "distinct names"
  shows "closed_array_loop names True 0 items \<longleftrightarrow> (\<exists>ss. items = map JString ss \<and> subseq ss names)"
proof -
  have "closed_array_loop (y # names) False 0 items \<longleftrightarrow> (\<exists>ss. items = map JString ss \<and> subseq ss names)"
    if "y \<notin> set names" for y
    using closed_array_loop_later [of "y # names" 0 items] that assms by simp
  moreover have "closed_array_loop names True p items \<longleftrightarrow> closed_array_loop (y # names) False 0 items"
    if "y \<notin> set names" "y \<notin> string_of ` set items" for y p
  proof (cases items)
    case (Cons item rest)
    have shift: "closed_array_loop (y # names) False (Suc q) is \<longleftrightarrow> closed_array_loop names False q is"
      if "y \<notin> string_of ` set is" for q "is"
      using that by (induction "is" arbitrary: q) (auto split: option.splits)
    with that(2) Cons show ?thesis by (auto split: option.splits)
  qed simp
  moreover have "\<exists>y. y \<notin> set names \<and> y \<notin> string_of ` set items"
    using ex_new_if_finite [of "set names \<union> string_of ` set items"] infinite_UNIV_listI by auto
  ultimately show ?thesis by blast
qed

subsection \<open>Emoji entities\<close>

definition entity_start :: "json \<Rightarrow> int" where
  "entity_start e = get_int64 (field e ''offset'')"

definition entity_end :: "json \<Rightarrow> int" where
  "entity_end e = get_int64 (field e ''offset'') + get_int64 (field e ''length'')"

lemma entity_loop_disjoint:
  "entity_loop p es \<Longrightarrow>
     sorted_wrt (\<lambda>a b. entity_end a \<le> entity_start b) es \<and>
     list_all (\<lambda>e. p \<le> entity_start e \<and> entity_start e < entity_end e \<and> entity_end e \<le> kMaximumInt32) es"
proof (induction p es rule: entity_loop.induct)
  case (2 p e es)
  from "2.prems" have h: "p \<le> entity_start e" "entity_start e < entity_end e" "entity_end e \<le> kMaximumInt32"
    and l: "entity_loop (entity_end e) es"
    by (auto simp: Let_def entity_start_def entity_end_def kMaximumInt32_def split: if_splits)
  have "sorted_wrt (\<lambda>a b. entity_end a \<le> entity_start b) es \<and>
     list_all (\<lambda>x. entity_end e \<le> entity_start x \<and> entity_start x < entity_end x \<and> entity_end x \<le> kMaximumInt32) es"
    using "2.IH" [OF _ refl refl] l "2.prems" by (auto simp: Let_def entity_end_def split: if_splits)
  with h show ?case by (auto simp: list_all_iff)
qed simp

subsection \<open>Storage totals\<close>

definition items_size :: "json list \<Rightarrow> int" where
  "items_size is = sum_list (map (\<lambda>i. get_int64 (field i ''size'')) is)"

definition items_count :: "json list \<Rightarrow> int" where
  "items_count is = sum_list (map (\<lambda>i. get_int64 (field i ''count'')) is)"

lemma file_type_loop_sums:
  "file_type_loop rs rc types is = Some (s, c) \<Longrightarrow> rs \<le> kMaximumInt53 \<Longrightarrow> rc \<le> kMaximumInt32 \<Longrightarrow>
     s = rs + items_size is \<and> c = rc + items_count is \<and> rs \<le> s \<and> rc \<le> c \<and> s \<le> kMaximumInt53 \<and> c \<le> kMaximumInt32"
proof (induction rs rc types "is" rule: file_type_loop.induct)
  case (2 rs rc types i "is")
  let ?a = "get_int64 (field i ''size'')" and ?b = "get_int64 (field i ''count'')"
  from "2.prems" have g: "0 \<le> ?a" "0 \<le> ?b" "rs + ?a \<le> kMaximumInt53" "rc + ?b \<le> kMaximumInt32"
    "file_type_loop (rs + ?a) (rc + ?b) (string_of (field i ''file_type'') # types) is = Some (s, c)"
    by (auto split: if_splits)
  from "2.IH" [OF _ g(5,3,4)] "2.prems" g(1,2) show ?case
    by (auto simp: items_size_def items_count_def split: if_splits)
qed (simp add: items_size_def items_count_def)

lemma json_eq_get_int64: "is_number_integer w \<Longrightarrow> json_eq (JInt i) w \<longleftrightarrow> i = get_int64 w"
  by (cases w) auto

definition row_items :: "json \<Rightarrow> json list" where
  "row_items row = items_of (field row ''by_file_type'')"

lemma by_chat_loop_step:
  assumes "by_chat_loop ts tc chats agg (row # rows) = Some r"
  obtains a b where "is_number_integer (field row ''size'')" "is_number_integer (field row ''count'')"
    "0 \<le> get_int64 (field row ''size'')" "0 \<le> get_int64 (field row ''count'')"
    "file_type_loop 0 0 [] (row_items row) = Some (a, b)" "a = get_int64 (field row ''size'')"
    "b = get_int64 (field row ''count'')" "ts + a \<le> kMaximumInt53" "tc + b \<le> kMaximumInt32"
    "get_int64 (field row ''chat_id'') \<noteq> 0 \<longrightarrow> get_int64 (field row ''chat_id'') \<notin> set chats"
    "by_chat_loop (ts + a) (tc + b) (if get_int64 (field row ''chat_id'') \<noteq> 0 then get_int64 (field row ''chat_id'') # chats else chats)
       (agg \<or> get_int64 (field row ''chat_id'') = 0) rows = Some r"
proof -
  let ?id = "get_int64 (field row ''chat_id'')"
  from assms have shape: "is_number_integer (field row ''size'')" "is_number_integer (field row ''count'')"
    "0 \<le> get_int64 (field row ''size'')" "0 \<le> get_int64 (field row ''count'')"
    by (auto simp: m6_valid_int53_def split: if_splits)
  from assms obtain a b where f: "file_type_loop 0 0 [] (row_items row) = Some (a, b)"
    by (auto simp: Let_def row_items_def split: if_splits option.splits)
  with assms have "json_eq (JInt a) (field row ''size'')" "json_eq (JInt b) (field row ''count'')"
    "ts + a \<le> kMaximumInt53" "tc + b \<le> kMaximumInt32" "?id \<noteq> 0 \<longrightarrow> ?id \<notin> set chats"
    "by_chat_loop (ts + a) (tc + b) (if ?id \<noteq> 0 then ?id # chats else chats) (agg \<or> ?id = 0) rows = Some r"
    by (auto simp: Let_def row_items_def simp del: json_eq.simps split: if_splits option.splits)
  with shape f show thesis by (intro that [of a b]) (simp_all add: json_eq_get_int64 del: json_eq.simps)
qed

lemma by_chat_loop_sums:
  "by_chat_loop ts tc chats agg rows = Some (s, c) \<Longrightarrow> ts \<le> kMaximumInt53 \<Longrightarrow> tc \<le> kMaximumInt32 \<Longrightarrow>
     s = ts + items_size rows \<and> c = tc + items_count rows \<and> s \<le> kMaximumInt53 \<and> c \<le> kMaximumInt32 \<and>
     list_all (\<lambda>row. get_int64 (field row ''size'') = items_size (row_items row) \<and>
       get_int64 (field row ''count'') = items_count (row_items row)) rows \<and>
     distinct (filter (\<lambda>x. x \<noteq> 0) (map (\<lambda>row. get_int64 (field row ''chat_id'')) rows)) \<and>
     set (filter (\<lambda>x. x \<noteq> 0) (map (\<lambda>row. get_int64 (field row ''chat_id'')) rows)) \<inter> set chats = {}"
proof (induction rows arbitrary: ts tc chats agg)
  case Nil
  then show ?case by (simp add: items_size_def items_count_def)
next
  case (Cons row rows)
  from Cons.prems(1) obtain a b where
    f: "file_type_loop 0 0 [] (row_items row) = Some (a, b)" "a = get_int64 (field row ''size'')"
    "b = get_int64 (field row ''count'')" "ts + a \<le> kMaximumInt53" "tc + b \<le> kMaximumInt32"
    "get_int64 (field row ''chat_id'') \<noteq> 0 \<longrightarrow> get_int64 (field row ''chat_id'') \<notin> set chats"
    "by_chat_loop (ts + a) (tc + b) (if get_int64 (field row ''chat_id'') \<noteq> 0 then get_int64 (field row ''chat_id'') # chats else chats)
       (agg \<or> get_int64 (field row ''chat_id'') = 0) rows = Some (s, c)"
    by (rule by_chat_loop_step)
  have ab: "a = items_size (row_items row)" "b = items_count (row_items row)"
    using file_type_loop_sums [OF f(1)] by (simp_all add: kMaximumInt53_def kMaximumInt32_def)
  from Cons.IH [OF f(7) f(4,5)] show ?case
    using f(2,3,6) ab by (auto simp: items_size_def items_count_def split: if_splits)
qed

subsection \<open>Arguments are plans without their three common members\<close>

lemma map_of_member_set: "map_of (member_set k x ms) = (map_of ms)(k \<mapsto> x)"
  by (induction k x ms rule: member_set.induct) (auto simp: fun_upd_twist)

lemma member_set_twice: "member_set k y (member_set k x ms) = member_set k y ms"
  by (induction k x ms rule: member_set.induct) auto

lemma length_member_set: "k \<notin> fst ` set ms \<Longrightarrow> length (member_set k x ms) = Suc (length ms)"
  by (induction k x ms rule: member_set.induct) auto

lemma map_of_erase: "map_of (filter (\<lambda>m. fst m \<noteq> k) ms) = (map_of ms)(k := None)"
  by (induction ms) (auto simp: fun_eq_iff)

lemma length_erase:
  "distinct (map fst ms) \<Longrightarrow> k \<in> fst ` set ms \<Longrightarrow> Suc (length (filter (\<lambda>m. fst m \<noteq> k) ms)) = length ms"
proof (induction ms)
  case (Cons m ms)
  have "filter (\<lambda>n. fst n \<noteq> fst m) ms = ms" if "fst m \<notin> fst ` set ms"
    using that by (intro filter_True) (metis image_eqI)
  with Cons show ?case by (auto simp: rev_image_eqI)
qed simp

lemma distinct_erase: "distinct (map fst ms) \<Longrightarrow> distinct (map fst (filter P ms))"
  by (metis distinct_map_filter)

lemma json_set_simps [simp]:
  "is_object (json_set v k x)" "contains (json_set v k x) l \<longleftrightarrow> l = k \<or> contains v l"
  "field (json_set v k x) l = (if l = k then x else field v l)"
  by (simp_all add: json_set_def contains_def field_def map_of_member_set)

lemma json_erase_simps [simp]:
  "is_object (json_erase v k)" "contains (json_erase v k) l \<longleftrightarrow> l \<noteq> k \<and> contains v l"
  "field (json_erase v k) l = (if l = k then JNull else field v l)"
  by (simp_all add: json_erase_def contains_def field_def map_of_erase)

lemma jsize_json_set: "\<not> contains v k \<Longrightarrow> jsize (json_set v k x) = Suc (length (members_of v))"
  by (simp add: json_set_def length_member_set contains_iff)

lemma members_json_set: "\<not> contains v k \<Longrightarrow> length (members_of (json_set v k x)) = Suc (length (members_of v))"
  by (simp add: json_set_def length_member_set contains_iff)

definition strip_plan :: "json \<Rightarrow> json" where
  "strip_plan plan = json_erase (json_erase (json_erase plan ''operation'') ''account'') ''tdlib_request''"

lemma length_strip_plan:
  assumes "distinct (map fst (members_of plan))" "contains plan ''operation''" "contains plan ''account''"
    "contains plan ''tdlib_request''"
  shows "Suc (Suc (Suc (length (members_of (strip_plan plan))))) = length (members_of plan)"
proof -
  have step: "Suc (length (members_of (json_erase v k))) = length (members_of v)"
    if "distinct (map fst (members_of v))" "contains v k" for v k
    using that by (simp add: json_erase_def length_erase contains_iff)
  have dist: "distinct (map fst (members_of (json_erase v k)))" if "distinct (map fst (members_of v))" for v k
    using that by (simp add: json_erase_def distinct_erase)
  show ?thesis unfolding strip_plan_def using assms by (simp add: step dist)
qed

text \<open>The schema of a plan does not depend on the account.\<close>

definition same_plan :: "json \<Rightarrow> json \<Rightarrow> bool" where
  "same_plan v w \<longleftrightarrow> is_object v = is_object w \<and> jsize v = jsize w \<and> (\<forall>k. contains v k = contains w k) \<and>
     (\<forall>k. k \<noteq> ''account'' \<longrightarrow> field v k = field w k)"

lemma plan_fields_same: "same_plan v w \<Longrightarrow> plan_fields v names = plan_fields w names"
  by (auto simp: plan_fields_def exact_fields_def same_plan_def list_all_iff)

lemma field_same: "same_plan v w \<Longrightarrow> k \<noteq> ''account'' \<Longrightarrow> field v k = field w k"
  by (simp add: same_plan_def)

lemma contains_same: "same_plan v w \<Longrightarrow> contains v k = contains w k"
  by (simp add: same_plan_def)

lemma plan_body_same:
  assumes "same_plan v w"
  shows "valid_m6_plan_body operation v = valid_m6_plan_body operation w"
  by (cases operation)
    (simp_all add: plan_fields_same [OF assms] field_same [OF assms] contains_same [OF assms])

text \<open>The request that arguments stand for, and the policies it may come from.\<close>

definition synthetic_request :: "m6_write_policy \<Rightarrow> json \<Rightarrow> string" where
  "synthetic_request policy v =
     (if policy_operation policy = M6_ChatInviteLink \<and> contains v ''action'' \<and> field v ''action'' = JString ''revoke''
      then snd (policy_functions policy) else fst (policy_functions policy))"

lemma policy_counts:
  "list_all (\<lambda>p. policy_function_count p = 1 \<and> policy_operation p \<noteq> M6_ChatInviteLink \<or>
     p = policy_row M6_ChatInviteLink ''chat_invite_link'' (''createChatInviteLink'', ''revokeChatInviteLink'') 2 False False)
     kPolicies"
  unfolding kPolicies_def by (simp add: policy_row_def)

lemma find_policy_cases:
  assumes "find_policy operation = Some policy"
  shows "policy_operation policy = operation \<and>
     (policy_function_count policy = 1 \<and> operation \<noteq> M6_ChatInviteLink \<or>
      operation = M6_ChatInviteLink \<and> policy_functions policy = (''createChatInviteLink'', ''revokeChatInviteLink''))"
proof -
  have p: "policy \<in> set kPolicies" "policy_operation policy = operation"
    using assms by (auto simp: find_policy_def dest: find_SomeD)
  from bspec [OF policy_counts [unfolded list_all_iff] p(1)] show ?thesis
  proof
    assume "policy_function_count policy = 1 \<and> policy_operation policy \<noteq> M6_ChatInviteLink"
    with p(2) show ?thesis by simp
  next
    assume "policy = policy_row M6_ChatInviteLink ''chat_invite_link'' (''createChatInviteLink'', ''revokeChatInviteLink'') 2 False False"
    with p(2) show ?thesis by (simp add: policy_row_def)
  qed
qed

lemma plan_request:
  assumes "find_policy operation = Some policy" and "common_plan policy plan account"
    and "valid_m6_plan_body operation plan"
  shows "field plan ''tdlib_request'' = JString (synthetic_request policy plan)"
proof -
  note p = find_policy_cases [OF assms(1)]
  from assms(2) obtain f where f: "field plan ''tdlib_request'' = JString f"
    "valid_m6_tdlib_function operation f"
    using p by (auto simp: common_plan_def is_string_iff)
  show ?thesis
  proof (cases "operation = M6_ChatInviteLink")
    case True
    with p assms(3) have "contains plan ''action''"
      by (auto simp: plan_fields_def exact_fields_def)
    with True p assms(3) f show ?thesis by (auto simp: synthetic_request_def)
  next
    case False
    with p f assms(1) show ?thesis by (auto simp: valid_m6_tdlib_function_def synthetic_request_def)
  qed
qed

lemma strip_plan_arguments:
  assumes "valid_m6_audit_plan operation plan account" and "wf_json plan"
  shows "valid_m6_audit_arguments operation (strip_plan plan)"
proof -
  from assms(1) obtain policy where pol: "find_policy operation = Some policy"
    and common: "common_plan policy plan account" and body: "valid_m6_plan_body operation plan"
    by (auto simp: valid_m6_audit_plan_def split: option.splits)
  from common obtain ms where plan: "plan = JObject ms" by (auto simp: common_plan_def is_object_iff)
  have has: "contains plan ''operation''" "contains plan ''account''" "contains plan ''tdlib_request''"
    using common by (simp_all add: common_plan_def)
  have "distinct (map fst (members_of plan))" using assms(2) plan strict_keys_distinct [of ms] by simp
  note len = length_strip_plan [OF this has]
  let ?a = "strip_plan plan"
  define w where "w = json_set (json_set (json_set ?a ''operation'' (JString (policy_audit_name policy)))
      ''account'' (JString ''main'')) ''tdlib_request'' (JString (synthetic_request policy plan))"
  have abs: "\<not> contains ?a ''operation''" "\<not> contains ?a ''account''" "\<not> contains ?a ''tdlib_request''"
    and act: "contains ?a ''action'' = contains plan ''action''" "field ?a ''action'' = field plan ''action''"
    by (simp_all add: strip_plan_def)
  have "jsize w = jsize plan"
    unfolding w_def using len abs plan by (simp add: jsize_json_set members_json_set)
  then have same: "same_plan plan w"
    using has common plan_request [OF pol common body] plan
    by (auto simp: same_plan_def w_def strip_plan_def common_plan_def)
  have "valid_account_name ''main''" by (simp add: valid_account_name_def kMaxAccountNameLength_def char_classes)
  moreover have "valid_m6_tdlib_function (policy_operation policy) (synthetic_request policy plan)"
    using common plan_request [OF pol common body] by (simp add: common_plan_def)
  ultimately have "common_plan policy w ''main''" by (simp add: common_plan_def w_def)
  with pol body plan_body_same [OF same] have "valid_m6_audit_plan operation w ''main''"
    by (simp add: valid_m6_audit_plan_def)
  moreover have "w = (let s = json_set (json_set (json_set ?a ''operation'' (JString (policy_audit_name policy)))
        ''account'' (JString ''main'')) ''tdlib_request'' (JString (fst (policy_functions policy)))
      in if operation = M6_ChatInviteLink \<and> contains ?a ''action'' \<and> field ?a ''action'' = JString ''revoke''
         then json_set s ''tdlib_request'' (JString (snd (policy_functions policy))) else s)"
    using find_policy_cases [OF pol] act by (auto simp: w_def synthetic_request_def json_set_def member_set_twice)
  ultimately show ?thesis using pol abs by (simp add: valid_m6_audit_arguments_def Let_def strip_plan_def)
qed

subsection \<open>Properties\<close>

text \<open>
  C29: from every valid plan, for any account, the arguments are recovered by removing the
  three common members, and these arguments are valid and match the plan.
\<close>

theorem plan_arguments_roundtrip:
  assumes "valid_m6_audit_plan operation plan account" and "wf_json plan"
  shows "m6_arguments_match_plan operation
     (json_erase (json_erase (json_erase plan ''operation'') ''account'') ''tdlib_request'') plan"
proof -
  have "is_object plan" using assms(1) by (auto simp: valid_m6_audit_plan_def common_plan_def split: option.splits)
  with strip_plan_arguments [OF assms] json_eq_refl show ?thesis
    by (simp add: m6_arguments_match_plan_def strip_plan_def del: json_eq.simps)
qed

definition storage_plan :: json where
  "storage_plan =
     JObject [(''account'', JString ''work''), (''chat_ids'', JArray []), (''chat_limit'', JUInt 100),
       (''count'', JInt (- 1)), (''exclude_chat_ids'', JArray []), (''file_types'', JArray []),
       (''immunity_delay'', JInt (- 1)), (''operation'', JString ''storage_optimize''),
       (''return_deleted_file_statistics'', JBool False), (''size'', JInt (- 1)),
       (''tdlib_request'', JString ''optimizeStorage''), (''ttl'', JInt (- 1))]"

theorem plan_arguments_roundtrip_witness:
  "m6_arguments_match_plan M6_StorageOptimize
     (json_erase (json_erase (json_erase storage_plan ''operation'') ''account'') ''tdlib_request'') storage_plan"
proof (rule plan_arguments_roundtrip)
  have "find_policy M6_StorageOptimize =
      Some (policy_row M6_StorageOptimize ''storage_optimize'' (''optimizeStorage'', []) 1 False False)" by code_simp
  then show "valid_m6_audit_plan M6_StorageOptimize storage_plan ''work''"
    by (simp add: valid_m6_audit_plan_def common_plan_def policy_row_def valid_m6_tdlib_function_def
        storage_plan_def plan_fields_def valid_account_name_def kMaxAccountNameLength_def char_classes json_eval)
  show "wf_json storage_plan" by (simp add: storage_plan_def strict_keys_def less_char_def)
qed

text \<open>
  An array of rights or permissions is accepted exactly when it lists names of the
  vocabulary, each at most once and in the order of the vocabulary, and at least the required number.
\<close>

theorem closed_array_subsequence:
  assumes "distinct names"
  shows "valid_closed_array value names minimum \<longleftrightarrow>
     (\<exists>ss. value = JArray (map JString ss) \<and> subseq ss names \<and> minimum \<le> length ss)"
proof -
  have len: "length ss \<le> length names" if "subseq ss names" for ss
    using that by (rule list_emb_length)
  show ?thesis
    using closed_array_loop_first [OF assms] len
    by (cases "value") (auto simp: valid_closed_array_def not_less)
qed


definition work_folder_name :: json where
  "work_folder_name =
     JObject [(''animate_custom_emoji'', JBool True),
       (''custom_emoji_entities'', JArray [JObject [(''custom_emoji_id'', JString ''7''), (''length'', JUInt 2), (''offset'', JUInt 0)]]),
       (''text'', JString ''ab'')]"

lemma ab_canonical: "valid_m6_canonical_text FolderName ''ab''"
proof -
  have u: "valid_utf8 ''ab''" by (rule valid_utf8_ascii) (simp add: byte_of_def)
  have r: "replace_all (a # needle) '' '' ''ab'' = ''ab''" if "byte_of a > 127" for a needle
    using that by (rule replace_all_ascii [rotated]) (simp add: byte_of_def)
  have n: "normalize_unicode_spaces ''ab'' = ''ab''"
    unfolding normalize_unicode_spaces_def unicode_spaces_def by (simp add: r byte_of_def)
  have "canonical_text FolderName ''ab'' = ''ab''"
    using u n by (simp add: canonical_text_def clean_input_def byte_of_def trim_space_and_lf_def is_blank_def
        truncate_scalars_def utf8_first_lead Let_def)
  with u show ?thesis by (simp add: valid_m6_canonical_text_def)
qed


text \<open>
  C31: accepted storage statistics add up. The totals are the sums over the chats, each chat's
  numbers are the sums over its file types, no chat is listed twice, and every sum stays within its
  integer range.
\<close>

theorem storage_totals:
  assumes "valid_storage_statistics value"
  shows "let rows = items_of (field value ''by_chat'') in
     get_int64 (field value ''size'') = items_size rows \<and> get_int64 (field value ''count'') = items_count rows \<and>
     items_size rows \<le> kMaximumInt53 \<and> items_count rows \<le> kMaximumInt32 \<and>
     list_all (\<lambda>row. get_int64 (field row ''size'') = items_size (row_items row) \<and>
       get_int64 (field row ''count'') = items_count (row_items row)) rows \<and>
     distinct (filter (\<lambda>x. x \<noteq> 0) (map (\<lambda>row. get_int64 (field row ''chat_id'')) rows))"
proof -
  define rows where "rows = items_of (field value ''by_chat'')"
  from assms(1) have i: "is_number_integer (field value ''size'')" "is_number_integer (field value ''count'')"
    by (auto simp: valid_storage_statistics_def m6_valid_int53_def split: if_splits)
  from assms(1) obtain s c where l: "by_chat_loop 0 0 [] False rows = Some (s, c)"
    and e: "json_eq (JInt s) (field value ''size'')" "json_eq (JInt c) (field value ''count'')"
    by (auto simp: valid_storage_statistics_def rows_def simp del: json_eq.simps split: if_splits option.splits)
  from e i have "s = get_int64 (field value ''size'')" "c = get_int64 (field value ''count'')"
    by (simp_all add: json_eq_get_int64 del: json_eq.simps)
  with by_chat_loop_sums [OF l] show ?thesis
    unfolding Let_def rows_def by (simp add: kMaximumInt53_def kMaximumInt32_def)
qed

definition small_statistics :: json where
  "small_statistics =
     JObject [(''by_chat'', JArray [JObject [(''by_file_type'',
         JArray [JObject [(''count'', JUInt 2), (''file_type'', JString ''photo''), (''size'', JUInt 30)],
                 JObject [(''count'', JUInt 1), (''file_type'', JString ''video''), (''size'', JUInt 12)]]),
         (''chat_id'', JInt (- 5)), (''count'', JUInt 3), (''size'', JUInt 42)]]),
       (''count'', JUInt 3), (''size'', JUInt 42)]"

theorem storage_totals_witness:
  "valid_storage_statistics small_statistics \<and> items_size (items_of (field small_statistics ''by_chat'')) = 42"
proof -
  have "valid_storage_statistics small_statistics"
    by (simp add: valid_storage_statistics_def small_statistics_def json_eval m6_valid_int53_def
        storage_file_types_def kMaximumInt53_def kMaximumInt32_def Let_def)
  moreover have "get_int64 (field small_statistics ''size'') = 42"
    by (simp add: small_statistics_def json_eval)
  ultimately show ?thesis using storage_totals [of small_statistics] by (simp add: Let_def)
qed

text \<open>
  C32: a 64-bit unsigned number from \<open>2 ^ 64 - (2 ^ 53 - 1)\<close> on is accepted as a 53-bit chat id: the check
  converts it to a negative number first. The sibling check of the audit log, \<open>json_int64\<close>, rejects such
  numbers.
\<close>

theorem int53_wraps:
  assumes "2 ^ 64 - 9007199254740991 \<le> n" and "n < 2 ^ 64"
  shows "m6_valid_int53 (JUInt n) False \<and> \<not> int n \<le> kMaximumInt53"
proof -
  have "int n \<ge> 2 ^ 64 - 9007199254740991" using assms(1) by simp
  moreover have "as_int64 n = int n - 2 ^ 64" using assms by (simp add: as_int64_def)
  ultimately show ?thesis using assms(2) by (simp add: m6_valid_int53_def kMaximumInt53_def)
qed

theorem int53_wraps_witness:
  "m6_valid_int53 (JUInt 18446744073709551611) False \<and> \<not> int 18446744073709551611 \<le> kMaximumInt53"
  by (rule int53_wraps) simp_all

lemma canonical_int64_accepts_padding: "valid_canonical_int64 (JString ''-05'') False"
  by (simp add: valid_canonical_int64_def from_chars_int64_def digits_value_def char_classes Let_def)

end
