(* ===== verification/Sha256.thy ===== *)
theory Sha256
  imports Canonical_Json
begin

text \<open>
  \<^bold>\<open>common/sha256.cpp\<close>: the streaming SHA-256 behind every fingerprint, frame digest and plan
  digest. The object is the record \<open>sha256\<close> with the same four members; \<open>block_\<close> keeps its 64
  bytes, stale ones included. A throw is \<open>None\<close>. Hashing in pieces is hashing the concatenation,
  and the digest is that of the padded message. The comparison with the standard is in \<^verbatim>\<open>Sha256_Fips\<close>.
\<close>

subsection \<open>The object and the compression function\<close>

type_synonym octets = "8 word list"
type_synonym w32 = "32 word"

record sha256 =
  digest :: "w32 list"
  block :: octets
  block_size :: nat
  total_size :: "64 word"

definition sha256_init :: sha256 where
  "sha256_init =
     \<lparr>digest = [0x6a09e667, 0xbb67ae85, 0x3c6ef372, 0xa54ff53a, 0x510e527f, 0x9b05688c, 0x1f83d9ab, 0x5be0cd19],
      block = replicate 64 0, block_size = 0, total_size = 0\<rparr>"

text \<open>The table of round constants, in the rows of the source.\<close>

definition kRoundConstants :: "w32 list" where
  "kRoundConstants = concat [
     [0x428a2f98, 0x71374491, 0xb5c0fbcf, 0xe9b5dba5, 0x3956c25b, 0x59f111f1, 0x923f82a4],
     [0xab1c5ed5, 0xd807aa98, 0x12835b01, 0x243185be, 0x550c7dc3, 0x72be5d74, 0x80deb1fe],
     [0x9bdc06a7, 0xc19bf174, 0xe49b69c1, 0xefbe4786, 0x0fc19dc6, 0x240ca1cc, 0x2de92c6f],
     [0x4a7484aa, 0x5cb0a9dc, 0x76f988da, 0x983e5152, 0xa831c66d, 0xb00327c8, 0xbf597fc7],
     [0xc6e00bf3, 0xd5a79147, 0x06ca6351, 0x14292967, 0x27b70a85, 0x2e1b2138, 0x4d2c6dfc],
     [0x53380d13, 0x650a7354, 0x766a0abb, 0x81c2c92e, 0x92722c85, 0xa2bfe8a1, 0xa81a664b],
     [0xc24b8b70, 0xc76c51a3, 0xd192e819, 0xd6990624, 0xf40e3585, 0x106aa070, 0x19a4c116],
     [0x1e376c08, 0x2748774c, 0x34b0bcb5, 0x391c0cb3, 0x4ed8aa4a, 0x5b9cca4f, 0x682e6ff3],
     [0x748f82ee, 0x78a5636f, 0x84c87814, 0x8cc70208, 0x90befffa, 0xa4506ceb, 0xbef9a3f7],
     [0xc67178f2]]"

definition load_word :: "octets \<Rightarrow> nat \<Rightarrow> w32" where
  "load_word b offset =
     push_bit 24 (ucast (b ! offset)) OR push_bit 16 (ucast (b ! (offset + 1))) OR
     push_bit 8 (ucast (b ! (offset + 2))) OR ucast (b ! (offset + 3))"

definition rotr :: "nat \<Rightarrow> w32 \<Rightarrow> w32" where
  "rotr n x = drop_bit n x OR push_bit (32 - n) x"

fun extend_schedule :: "nat \<Rightarrow> w32 list \<Rightarrow> w32 list" where
  "extend_schedule 0 words = words"
| "extend_schedule (Suc n) words =
     (let index = length words;
          first = words ! (index - 15); second = words ! (index - 2);
          sigma0 = rotr 7 first XOR rotr 18 first XOR drop_bit 3 first;
          sigma1 = rotr 17 second XOR rotr 19 second XOR drop_bit 10 second
      in extend_schedule n (words @ [words ! (index - 16) + sigma0 + words ! (index - 7) + sigma1]))"

definition message_schedule :: "octets \<Rightarrow> w32 list" where
  "message_schedule b = extend_schedule 48 (map (\<lambda>index. load_word b (index * 4)) [0..<16])"

type_synonym working = "w32 \<times> w32 \<times> w32 \<times> w32 \<times> w32 \<times> w32 \<times> w32 \<times> w32"

fun sha_round :: "working \<Rightarrow> w32 \<times> w32 \<Rightarrow> working" where
  "sha_round (a, b, c, d, e, f, g, h) (constant, word) =
     (let sum1 = rotr 6 e XOR rotr 11 e XOR rotr 25 e;
          chosen = (e AND f) XOR (NOT e AND g);
          temporary1 = h + sum1 + chosen + constant + word;
          sum0 = rotr 2 a XOR rotr 13 a XOR rotr 22 a;
          majority = (a AND b) XOR (a AND c) XOR (b AND c);
          temporary2 = sum0 + majority
      in (temporary1 + temporary2, a, b, c, d + temporary1, e, f, g))"

definition transform_digest :: "w32 list \<Rightarrow> octets \<Rightarrow> w32 list" where
  "transform_digest dg blk =
     (let words = message_schedule blk;
          (a, b, c, d, e, f, g, h) =
            foldl sha_round (dg ! 0, dg ! 1, dg ! 2, dg ! 3, dg ! 4, dg ! 5, dg ! 6, dg ! 7)
              (zip kRoundConstants words)
      in [dg ! 0 + a, dg ! 1 + b, dg ! 2 + c, dg ! 3 + d, dg ! 4 + e, dg ! 5 + f, dg ! 6 + g, dg ! 7 + h])"

definition transform :: "sha256 \<Rightarrow> sha256" where
  "transform s = s\<lparr>digest := transform_digest (digest s) (block s)\<rparr>"

subsection \<open>Absorbing bytes\<close>

text \<open>\<open>std::copy_n(bytes, n, block + offset)\<close>.\<close>

definition copy_into :: "octets \<Rightarrow> nat \<Rightarrow> octets \<Rightarrow> octets" where
  "copy_into blk offset bytes = take offset blk @ bytes @ drop (offset + length bytes) blk"

text \<open>The loop of \<open>update\<close>. \<open>block_size\<close> is below 64 whenever the loop runs (\<open>absorbed\<close> below), the second
  disjunct of the exit only makes the recursion total.\<close>

function update_loop :: "sha256 \<Rightarrow> octets \<Rightarrow> sha256" where
  "update_loop s bytes =
     (if bytes = [] \<or> block_size s \<ge> 64 then s
      else let copied = min (length bytes) (64 - block_size s);
               s1 = s\<lparr>block := copy_into (block s) (block_size s) (take copied bytes),
                      block_size := block_size s + copied\<rparr>;
               s2 = (if block_size s1 = 64 then (transform s1)\<lparr>block_size := 0\<rparr> else s1)
           in update_loop s2 (drop copied bytes))"
  by pat_completeness auto
termination
  by (relation "measure (\<lambda>(s, bytes). length bytes)") (auto simp: Let_def)

declare update_loop.simps [simp del]

definition sha256_update :: "sha256 \<Rightarrow> octets \<Rightarrow> sha256 option" where
  "sha256_update s bytes =
     (if int (length bytes) > uint (- 1 - total_size s) then None
      else Some (update_loop (s\<lparr>total_size := total_size s + word_of_nat (length bytes)\<rparr>) bytes))"

definition octets_of :: "string \<Rightarrow> octets" where
  "octets_of s = map (\<lambda>c. word_of_nat (byte_of c)) s"

definition sha256_update_string :: "sha256 \<Rightarrow> string \<Rightarrow> sha256 option" where
  "sha256_update_string s bytes = sha256_update s (octets_of bytes)"

subsection \<open>Finishing\<close>

text \<open>\<open>std::fill(block + first, block + bound, 0)\<close>.\<close>

definition fill_zero :: "octets \<Rightarrow> nat \<Rightarrow> nat \<Rightarrow> octets" where
  "fill_zero blk first bound = copy_into blk first (replicate (bound - first) 0)"

definition length_octets :: "64 word \<Rightarrow> octets" where
  "length_octets bit_length = map (\<lambda>index. ucast (drop_bit ((7 - index) * 8) bit_length)) [0..<8]"

definition word_octets :: "w32 \<Rightarrow> octets" where
  "word_octets w = [ucast (drop_bit 24 w), ucast (drop_bit 16 w), ucast (drop_bit 8 w), ucast w]"

definition finish :: "sha256 \<Rightarrow> octets" where
  "finish s =
     (let bit_length = total_size s * 8;
          f1 = s\<lparr>block := (block s)[block_size s := 0x80], block_size := block_size s + 1\<rparr>;
          f2 = (if block_size f1 > 56
                then (transform (f1\<lparr>block := fill_zero (block f1) (block_size f1) 64\<rparr>))\<lparr>block_size := 0\<rparr>
                else f1);
          f3 = f2\<lparr>block := copy_into (fill_zero (block f2) (block_size f2) 56) 56 (length_octets bit_length)\<rparr>
      in concat (map word_octets (digest (transform f3))))"

definition hex :: "octets \<Rightarrow> string" where
  "hex bytes =
     concat (map (\<lambda>byte. [hex_digits ! unat (drop_bit 4 byte), hex_digits ! unat (byte AND 0x0F)]) bytes)"

definition finish_hex :: "sha256 \<Rightarrow> string" where
  "finish_hex s = hex (finish s)"

definition sha256_hex :: "string \<Rightarrow> string option" where
  "sha256_hex bytes = map_option finish_hex (sha256_update_string sha256_init bytes)"

definition sha256_string :: "string \<Rightarrow> string option" where
  "sha256_string bytes = map_option (\<lambda>h. ''sha256:'' @ h) (sha256_hex bytes)"

definition domain_separated_sha256 :: "string \<Rightarrow> string \<Rightarrow> string option" where
  "domain_separated_sha256 domain payload =
     (if CHR 0x00 \<in> set domain then None
      else case sha256_update_string sha256_init domain of
             None \<Rightarrow> None
           | Some d1 \<Rightarrow>
               (case sha256_update d1 [0] of
                  None \<Rightarrow> None
                | Some d2 \<Rightarrow>
                    map_option (\<lambda>d3. ''sha256:'' @ finish_hex d3) (sha256_update_string d2 payload)))"

subsection \<open>The digest of a whole message\<close>

text \<open>The compression function of the program over the padded octets of a message, the step between the
  object and the standard.\<close>

function hash_blocks :: "w32 list \<Rightarrow> octets \<Rightarrow> w32 list" where
  "hash_blocks dg m =
     (if length m < 64 then dg else hash_blocks (transform_digest dg (take 64 m)) (drop 64 m))"
  by pat_completeness auto
termination
  by (relation "measure (\<lambda>(dg, m). length m)") auto

declare hash_blocks.simps [simp del]

definition octet_pad :: "octets \<Rightarrow> octets" where
  "octet_pad m =
     m @ [0x80] @ replicate ((119 - length m mod 64) mod 64) 0 @ length_octets (word_of_nat (8 * length m))"

definition octet_sha256 :: "octets \<Rightarrow> octets" where
  "octet_sha256 m = concat (map word_octets (hash_blocks (digest sha256_init) (octet_pad m)))"

subsection \<open>The object refines the reference\<close>

text \<open>\<open>absorbed s m\<close>: the object \<open>s\<close> has been fed the message \<open>m\<close>.\<close>

definition absorbed :: "sha256 \<Rightarrow> octets \<Rightarrow> bool" where
  "absorbed s m \<longleftrightarrow>
     length (block s) = 64 \<and> block_size s = length m mod 64 \<and>
     take (block_size s) (block s) = drop (64 * (length m div 64)) m \<and>
     digest s = hash_blocks (digest sha256_init) m \<and> total_size s = word_of_nat (length m)"

lemma hash_blocks_short: "length m < 64 \<Longrightarrow> hash_blocks dg m = dg"
  by (simp add: hash_blocks.simps)

lemma hash_blocks_one: "length b = 64 \<Longrightarrow> hash_blocks dg (b @ m) = hash_blocks (transform_digest dg b) m"
  by (subst hash_blocks.simps) simp

lemma hash_blocks_append:
  "64 dvd length a \<Longrightarrow> hash_blocks dg (a @ b) = hash_blocks (hash_blocks dg a) b"
proof (induction dg a rule: hash_blocks.induct)
  case (1 dg a)
  show ?case
  proof (cases "length a < 64")
    case True
    with "1.prems" have "a = []" by (metis dvd_imp_le length_greater_0_conv not_le)
    then show ?thesis by (simp add: hash_blocks_short)
  next
    case False
    then have a: "a = take 64 a @ drop 64 a" "length (take 64 a) = 64" by simp_all
    have "64 dvd length (drop 64 a)" using "1.prems" by simp
    from "1.IH" [OF False this] show ?thesis
      by (metis a append_assoc hash_blocks_one)
  qed
qed

lemma message_split:
  obtains a t where "m = a @ t" "64 dvd length a" "length t = length m mod 64"
    "t = drop (64 * (length m div 64)) (m :: octets)" "a = take (64 * (length m div 64)) m"
proof (rule that)
  let ?n = "64 * (length m div 64)"
  have n: "?n \<le> length m" by simp
  then have "min ?n (length m) = ?n" by simp
  then show "64 dvd length (take ?n m)" by (simp only: length_take) simp
  show "length (drop ?n m) = length m mod 64" by (simp add: minus_mult_div_eq_mod)
qed simp_all

lemma absorbed_iff:
  assumes "64 dvd length a" and "length t < 64"
  shows "absorbed s (a @ t) \<longleftrightarrow>
     length (block s) = 64 \<and> block_size s = length t \<and> take (length t) (block s) = t \<and>
     digest s = hash_blocks (digest sha256_init) a \<and> total_size s = word_of_nat (length a + length t)"
proof -
  from assms have "(length a + length t) mod 64 = length t" "64 * ((length a + length t) div 64) = length a"
    by auto
  then show ?thesis using assms unfolding absorbed_def
    by (auto simp: hash_blocks_append hash_blocks_short)
qed

text \<open>The part of \<open>absorbed\<close> that the loop of \<open>update\<close> maintains, with the total left out: the total is
  advanced once, before the loop.\<close>

definition buffered :: "sha256 \<Rightarrow> octets \<Rightarrow> octets \<Rightarrow> bool" where
  "buffered s a t \<longleftrightarrow> 64 dvd length a \<and> length t < 64 \<and> length (block s) = 64 \<and> block_size s = length t \<and>
     take (length t) (block s) = t \<and> digest s = hash_blocks (digest sha256_init) a"

lemma update_loop_buffered:
  "buffered s a t \<Longrightarrow> \<exists>a' t'. buffered (update_loop s bs) a' t' \<and> a' @ t' = a @ t @ bs
     \<and> total_size (update_loop s bs) = total_size s"
proof (induction s bs arbitrary: a t rule: update_loop.induct)
  case (1 s bs)
  let ?c = "min (length bs) (64 - block_size s)"
  let ?s1 = "s\<lparr>block := copy_into (block s) (block_size s) (take ?c bs), block_size := block_size s + ?c\<rparr>"
  let ?s2 = "if block_size ?s1 = 64 then (transform ?s1)\<lparr>block_size := 0\<rparr> else ?s1"
  show ?case
  proof (cases "bs = []")
    case True
    with "1.prems" show ?thesis by (subst update_loop.simps, subst update_loop.simps) (simp, blast)
  next
    case False
    from "1.prems" have lt: "length t < 64" "block_size s = length t" "length (block s) = 64"
      "take (length t) (block s) = t" by (simp_all add: buffered_def)
    with False have run: "\<not> (bs = [] \<or> 64 \<le> block_size s)" by simp
    have blk: "take (length t + ?c) (block ?s1) = t @ take ?c bs" "length (block ?s1) = 64"
      using lt by (simp_all add: copy_into_def min_def)
    have "\<exists>a' t'. buffered ?s2 a' t' \<and> a' @ t' @ drop ?c bs = a @ t @ bs"
    proof (cases "length t + ?c = 64")
      case True
      with blk have b: "block ?s1 = t @ take ?c bs" by simp
      have "length (t @ take ?c bs) = 64" using b blk(2) by metis
      then have "hash_blocks (digest sha256_init) (a @ t @ take ?c bs) =
          transform_digest (hash_blocks (digest sha256_init) a) (t @ take ?c bs)"
        using "1.prems" hash_blocks_one [of "t @ take ?c bs" _ "[]"]
        by (simp add: buffered_def hash_blocks_append hash_blocks_short)
      moreover have "64 dvd length (a @ t @ take ?c bs)"
        using "1.prems" \<open>length (t @ take ?c bs) = 64\<close> by (simp add: buffered_def)
      ultimately have "buffered ?s2 (a @ t @ take ?c bs) []"
        using "1.prems" True b blk(2) lt by (simp add: buffered_def transform_def)
      then show ?thesis by (intro exI [of _ "a @ t @ take ?c bs"] exI [of _ "[]"]) simp
    next
      case False
      then have "length t + ?c < 64" using lt by (simp add: min_def split: if_splits)
      with "1.prems" blk lt False have "buffered ?s2 a (t @ take ?c bs)"
        by (simp add: buffered_def)
      then show ?thesis by (intro exI [of _ a] exI [of _ "t @ take ?c bs"]) simp
    qed
    then obtain a' t' where b: "buffered ?s2 a' t'" and e: "a' @ t' @ drop ?c bs = a @ t @ bs" by blast
    have tot: "total_size ?s2 = total_size s" by (simp add: transform_def)
    have unf: "update_loop s bs = update_loop ?s2 (drop ?c bs)"
      using run by (subst update_loop.simps) (simp add: Let_def)
    from "1.IH" [OF run refl refl refl b] e tot show ?thesis unfolding unf by metis
  qed
qed

lemma absorbed_buffered:
  "absorbed s m \<longleftrightarrow> (\<exists>a t. m = a @ t \<and> buffered s a t) \<and> total_size s = word_of_nat (length m)"
proof
  assume s: "absorbed s m"
  obtain a t where m: "m = a @ t" "64 dvd length a" "length t = length m mod 64"
    by (rule message_split)
  from m(3) have t: "length t < 64" by simp
  from s [unfolded m(1) absorbed_iff [OF m(2) t]] m(2) t
  have "buffered s a t" "total_size s = word_of_nat (length m)"
    unfolding buffered_def m(1) length_append by simp_all
  with m(1) show "(\<exists>a t. m = a @ t \<and> buffered s a t) \<and> total_size s = word_of_nat (length m)" by blast
next
  assume "(\<exists>a t. m = a @ t \<and> buffered s a t) \<and> total_size s = word_of_nat (length m)"
  then obtain a t where m: "m = a @ t" and b: "buffered s a t" and "total_size s = word_of_nat (length m)"
    by blast
  moreover from b have "64 dvd length a" "length t < 64" by (simp_all add: buffered_def)
  ultimately show "absorbed s m" using absorbed_iff [of a t s] by (simp add: buffered_def)
qed

lemma absorbed_init: "absorbed sha256_init []"
  by (simp add: absorbed_def sha256_init_def hash_blocks_short)

lemma uint_room: "n < 2 ^ 64 \<Longrightarrow> uint (- 1 - (word_of_nat n :: 64 word)) = 2 ^ 64 - 1 - int n"
proof -
  assume n: "n < 2 ^ 64"
  have "uint (- 1 - (word_of_nat n :: 64 word)) = uint (word_of_int (- 1 - int n) :: 64 word)" by simp
  also have "\<dots> = (- 1 - int n) mod 2 ^ 64" by (simp only: uint_word_of_int) simp
  also have "\<dots> = (- 1 - int n + 2 ^ 64) mod 2 ^ 64" by (simp only: mod_add_self2)
  also have "\<dots> = 2 ^ 64 - 1 - int n" using n by (subst mod_pos_pos_trivial) auto
  finally show ?thesis .
qed

lemma sha256_update_absorbed:
  assumes "absorbed s m" and "length m + length bs < 2 ^ 64"
  shows "\<exists>s'. sha256_update s bs = Some s' \<and> absorbed s' (m @ bs)"
proof -
  let ?s0 = "s\<lparr>total_size := total_size s + word_of_nat (length bs)\<rparr>"
  from assms(1) obtain a t where m: "m = a @ t" and b: "buffered s a t"
    and tot: "total_size s = word_of_nat (length m)" unfolding absorbed_buffered by blast
  from b have "buffered ?s0 a t" by (simp add: buffered_def)
  from update_loop_buffered [OF this, of bs] obtain a' t' where
    n: "buffered (update_loop ?s0 bs) a' t'" "a' @ t' = a @ t @ bs"
    "total_size (update_loop ?s0 bs) = word_of_nat (length m) + word_of_nat (length bs)" using tot by auto
  have "absorbed (update_loop ?s0 bs) (m @ bs)"
    unfolding absorbed_buffered using n m by (metis append_assoc length_append of_nat_add)
  moreover have "uint (- 1 - total_size s) = 2 ^ 64 - 1 - int (length m)"
    unfolding tot using assms(2) by (intro uint_room) simp
  then have "\<not> int (length bs) > uint (- 1 - total_size s)" using assms(2) by simp
  ultimately show ?thesis by (simp add: sha256_update_def)
qed

lemma take_update_tail:
  "length blk = 64 \<Longrightarrow> k < 64 \<Longrightarrow> take (Suc k) (blk[k := x]) = take k blk @ [x]"
  by (simp add: take_Suc_conv_app_nth)

lemma length_length_octets [simp]: "length (length_octets w) = 8"
  by (simp add: length_octets_def)

lemma fill_zero_take:
  "length blk = 64 \<Longrightarrow> k \<le> n \<Longrightarrow> n \<le> 64 \<Longrightarrow> fill_zero blk k n = take k blk @ replicate (n - k) 0 @ drop n blk"
  by (simp add: fill_zero_def copy_into_def)

lemma finish_short:
  assumes "length t < 56" "length (block s) = 64" "block_size s = length t" "take (length t) (block s) = t"
  shows "finish s = concat (map word_octets (transform_digest (digest s)
           (t @ [0x80] @ replicate (55 - length t) 0 @ length_octets (total_size s * 8))))"
proof -
  let ?b = "(block s)[length t := 0x80]"
  have tk: "take (Suc (length t)) ?b = t @ [0x80]" using assms take_update_tail [of "block s" "length t"] by simp
  have "fill_zero ?b (Suc (length t)) 56 = t @ [0x80] @ replicate (55 - length t) 0 @ drop 56 ?b"
    using assms tk fill_zero_take [of ?b "Suc (length t)" 56] by simp
  moreover have "56 - length t = Suc (55 - length t)" using assms(1) by simp
  ultimately show ?thesis using assms
    by (simp add: finish_def Let_def transform_def copy_into_def)
qed

lemma finish_long:
  assumes "56 \<le> length t" "length t < 64" "length (block s) = 64" "block_size s = length t"
    "take (length t) (block s) = t"
  shows "finish s = concat (map word_octets (transform_digest
           (transform_digest (digest s) (t @ [0x80] @ replicate (63 - length t) 0))
           (replicate 56 0 @ length_octets (total_size s * 8))))"
proof -
  let ?b = "(block s)[length t := 0x80]"
  have tk: "take (Suc (length t)) ?b = t @ [0x80]" using assms take_update_tail [of "block s" "length t"] by simp
  have "fill_zero ?b (Suc (length t)) 64 = t @ [0x80] @ replicate (63 - length t) 0"
    using assms tk fill_zero_take [of ?b "Suc (length t)" 64] by simp
  with assms show ?thesis
    by (simp add: finish_def Let_def transform_def copy_into_def fill_zero_take)
qed

lemma finish_absorbed:
  assumes "absorbed s m"
  shows "finish s = octet_sha256 m"
proof -
  from assms obtain a t where m: "m = a @ t" and b: "buffered s a t"
    and tot: "total_size s = word_of_nat (length m)" unfolding absorbed_buffered by blast
  from b have t: "64 dvd length a" "length t < 64" "length (block s) = 64" "block_size s = length t"
    "take (length t) (block s) = t" "digest s = hash_blocks (digest sha256_init) a"
    by (simp_all add: buffered_def)
  have lm: "length m mod 64 = length t" using m t by auto
  have bits: "total_size s * 8 = word_of_nat (8 * length m)" by (simp add: tot)
  have pad: "hash_blocks dg (octet_pad m) = hash_blocks (hash_blocks dg a)
      (t @ [0x80] @ replicate ((119 - length t) mod 64) 0 @ length_octets (word_of_nat (8 * length m)))" for dg
    unfolding octet_pad_def lm using m t(1) by (simp add: hash_blocks_append)
  show ?thesis
  proof (cases "length t < 56")
    case True
    then have "(119 - length t) mod 64 = 55 - length t" by (simp add: mod_if)
    with True have "length (t @ [0x80] @ replicate ((119 - length t) mod 64) 0 @ length_octets (word_of_nat (8 * length m))) = 64"
      by simp
    from hash_blocks_one [OF this, of _ "[]"] show ?thesis
      using finish_short [OF True t(3-5)] \<open>(119 - length t) mod 64 = 55 - length t\<close>
      by (simp add: octet_sha256_def pad bits t hash_blocks_short)
  next
    case False
    then have z: "(119 - length t) mod 64 = (63 - length t) + 56" using t(2) by (simp add: mod_if)
    let ?x = "t @ [0x80] @ replicate (63 - length t) 0"
    let ?y = "replicate 56 0 @ length_octets (word_of_nat (8 * length m))"
    have "t @ [0x80] @ replicate ((119 - length t) mod 64) 0 @ length_octets (word_of_nat (8 * length m)) = ?x @ ?y @ []"
      unfolding z replicate_add by simp
    moreover have "length ?x = 64" "length ?y = 64" using t(2) by simp_all
    ultimately have "hash_blocks dg (octet_pad m) =
        transform_digest (transform_digest (hash_blocks dg a) ?x) ?y" for dg
      unfolding pad by (simp only: hash_blocks_one) (simp add: hash_blocks_short)
    then show ?thesis
      using finish_long [OF _ t(2-5)] False by (simp add: octet_sha256_def bits t(6))
  qed
qed

subsection \<open>The contract of a streaming digest\<close>

text \<open>What the callers of a streaming digest rely on: an object that has absorbed a message absorbs more
  bytes as long as the total stays below a limit, and finishing gives a function of the message alone.\<close>

fun feed :: "('s \<Rightarrow> 'a list \<Rightarrow> 's option) \<Rightarrow> 's \<Rightarrow> 'a list list \<Rightarrow> 's option" where
  "feed absorb s [] = Some s"
| "feed absorb s (c # cs) = (case absorb s c of None \<Rightarrow> None | Some s' \<Rightarrow> feed absorb s' cs)"

locale streaming_digest =
  fixes init :: "'s" and absorb :: "'s \<Rightarrow> 'a list \<Rightarrow> 's option" and result :: "'s \<Rightarrow> 'd"
    and holds :: "'s \<Rightarrow> 'a list \<Rightarrow> bool" and reference :: "'a list \<Rightarrow> 'd" and limit :: nat
  assumes init_holds: "holds init []"
    and absorb_holds: "holds s m \<Longrightarrow> length m + length bs < limit \<Longrightarrow> \<exists>s'. absorb s bs = Some s' \<and> holds s' (m @ bs)"
    and result_holds: "holds s m \<Longrightarrow> result s = reference m"
begin

lemma absorb_all_holds:
  "holds s m \<Longrightarrow> length m + length (concat cs) < limit \<Longrightarrow> \<exists>s'. feed absorb s cs = Some s' \<and> holds s' (m @ concat cs)"
proof (induction cs arbitrary: s m)
  case (Cons c cs)
  from Cons.prems obtain s' where "absorb s c = Some s'" "holds s' (m @ c)"
    using absorb_holds [of s m c] by auto
  with Cons.IH [of s' "m @ c"] Cons.prems(2) show ?case by simp
qed simp

lemma absorb_all_result:
  "length (concat cs) < limit \<Longrightarrow> \<exists>s. feed absorb init cs = Some s \<and> result s = reference (concat cs)"
  using absorb_all_holds [OF init_holds, of cs] result_holds by auto

lemma absorb_one: "length m < limit \<Longrightarrow> \<exists>s. absorb init m = Some s \<and> result s = reference m"
  using absorb_holds [OF init_holds, of m] result_holds by auto

lemma absorb_three:
  assumes "length a + length b + length c < limit"
  shows "\<exists>s1 s2 s3. absorb init a = Some s1 \<and> absorb s1 b = Some s2 \<and> absorb s2 c = Some s3 \<and>
    result s3 = reference (a @ b @ c)"
proof -
  from absorb_holds [OF init_holds, of a] assms obtain s1 where 1: "absorb init a = Some s1" "holds s1 a" by auto
  from absorb_holds [OF 1(2), of b] assms obtain s2 where 2: "absorb s1 b = Some s2" "holds s2 (a @ b)" by auto
  from absorb_holds [OF 2(2), of c] assms obtain s3 where 3: "absorb s2 c = Some s3" "holds s3 ((a @ b) @ c)" by auto
  from 1 2 3 result_holds [OF 3(2)] show ?thesis by auto
qed

end

interpretation sha: streaming_digest sha256_init sha256_update finish absorbed octet_sha256 "2 ^ 64"
  by unfold_locales (simp_all add: absorbed_init sha256_update_absorbed finish_absorbed)

subsection \<open>Digest strings\<close>

lemma length_octets_of [simp]: "length (octets_of s) = length s"
  by (simp add: octets_of_def)

lemma octets_of_append [simp]: "octets_of (s @ t) = octets_of s @ octets_of t"
  by (simp add: octets_of_def)

lemma octet_of_inject:
  "(word_of_nat (byte_of c) :: 8 word) = word_of_nat (byte_of d) \<longleftrightarrow> c = d"
proof
  have "unat (word_of_nat (byte_of x) :: 8 word) = byte_of x" for x
    by (simp add: unsigned_of_nat take_bit_eq_mod)
  then show "(word_of_nat (byte_of c) :: 8 word) = word_of_nat (byte_of d) \<Longrightarrow> c = d"
    by (metis byte_of_inject)
qed simp

lemma octets_of_inject: "octets_of s = octets_of t \<longleftrightarrow> s = t"
  unfolding octets_of_def
  by (rule inj_map_eq_map) (simp add: inj_def octet_of_inject)

lemma octets_of_NUL: "octets_of [CHR 0x00] = [0]"
  by (simp add: octets_of_def byte_of_def)

lemma sha256_string_octets:
  "length bytes < 2 ^ 64 \<Longrightarrow> sha256_string bytes = Some (''sha256:'' @ hex (octet_sha256 (octets_of bytes)))"
  using sha.absorb_one [of "octets_of bytes"]
  by (auto simp: sha256_string_def sha256_hex_def sha256_update_string_def finish_hex_def)

lemma domain_separated_octets:
  assumes "CHR 0x00 \<notin> set domain" and "length domain + 1 + length payload < 2 ^ 64"
  shows "domain_separated_sha256 domain payload = sha256_string (domain @ [CHR 0x00] @ payload)"
  using sha.absorb_three [of "octets_of domain" "[0]" "octets_of payload"] assms
  by (subst sha256_string_octets)
    (auto simp: domain_separated_sha256_def sha256_update_string_def finish_hex_def octets_of_NUL
      simp del: append.simps)

lemma separator_readable:
  "x \<notin> set a \<Longrightarrow> x \<notin> set b \<Longrightarrow> a @ [x] @ p = b @ [x] @ q \<longleftrightarrow> a = b \<and> p = q"
  by (induction a arbitrary: b; case_tac b) auto

lemma hex_shape: "length (hex bs) = 2 * length bs" "list_all is_lower_hex (hex bs)"
proof -
  have digit: "is_lower_hex (hex_digits ! n)" if "n < 16" for n
  proof -
    have "list_all is_lower_hex hex_digits" by (simp add: hex_digits_def char_classes)
    moreover have "length hex_digits = 16" by (simp add: hex_digits_def)
    ultimately show ?thesis using that by (simp add: list_all_length)
  qed
  have byte: "unat b < 256" for b :: "8 word"
    using unsigned_less [of b] by simp
  then have hi: "unat (drop_bit 4 b) < 16" for b :: "8 word"
    by (simp add: drop_bit_eq_div unat_div less_mult_imp_div_less)
  have lo: "unat (b AND 15) < 16" for b :: "8 word"
    using word_and_le1 [of b 15] by (simp add: word_le_nat_alt)
  show "length (hex bs) = 2 * length bs" by (induction bs) (simp_all add: hex_def)
  show "list_all is_lower_hex (hex bs)" by (induction bs) (simp_all add: hex_def digit hi lo)
qed

lemma length_transform_digest: "length (transform_digest dg b) = 8"
  by (simp add: transform_digest_def Let_def split: prod.splits)

lemma length_hash_blocks: "length dg = 8 \<Longrightarrow> length (hash_blocks dg m) = 8"
proof (induction dg m rule: hash_blocks.induct)
  case (1 dg m)
  then show ?case by (subst hash_blocks.simps) (simp add: length_transform_digest)
qed

lemma length_octet_sha256: "length (octet_sha256 m) = 32"
proof -
  have "length (concat (map word_octets ws)) = 4 * length ws" for ws
    by (induction ws) (simp_all add: word_octets_def)
  moreover have "length (digest sha256_init) = 8" by (simp add: sha256_init_def)
  ultimately show ?thesis by (simp add: octet_sha256_def length_hash_blocks)
qed

end
