(* ===== verification/Audit_Values.thy ===== *)
theory Audit_Values
  imports M6_Audit Sha256
begin

text \<open>
  \<^bold>\<open>daemon/account_audit.cpp, the value checks\<close>: integers of the JSON library read without wrap-around,
  texts, paths, timestamps, message identifiers, chat identities, schedules and file snapshots, with the
  byte limits of \<open>daemon/account_audit_limits.hpp\<close> and \<open>common/frame_budget.hpp\<close>. The checks that
  \<open>daemon/m6_audit_contract.cpp\<close> declares under the same names are \<open>m6_...\<close> in the theory of that file.
  \<open>std::chrono::year_month_day\<close> and \<open>sys_days\<close> are the proleptic Gregorian calendar.
\<close>

subsection \<open>Limits\<close>

function decimal_digits :: "nat \<Rightarrow> nat" where
  "decimal_digits value = (if value \<ge> 10 then decimal_digits (value div 10) + 1 else 1)"
  by pat_completeness auto
termination
  by (relation "measure id") auto

declare decimal_digits.simps [simp del]

definition kMaximumSerializedFrameBytes :: nat where
  "kMaximumSerializedFrameBytes = 16842751"

definition maximum_result_payload_bytes :: "nat \<Rightarrow> nat" where
  "maximum_result_payload_bytes request_id = kMaximumSerializedFrameBytes - 31 - decimal_digits request_id"

definition kMinimumResultPayloadBytes :: nat where
  "kMinimumResultPayloadBytes = maximum_result_payload_bytes (2 ^ 64 - 1)"

definition kRequestSourceBytes :: nat where
  "kRequestSourceBytes = 16777216 + 65536 - 1"

definition kChatTitleBytes :: nat where
  "kChatTitleBytes = 1048576"

definition kChatUsernameCount :: nat where
  "kChatUsernameCount = 100"

definition kChatUsernameBytes :: nat where
  "kChatUsernameBytes = 32"

definition kSessionStringBytes :: nat where
  "kSessionStringBytes = 1048576"

definition kMessageTextScalars :: nat where
  "kMessageTextScalars = 4096"

definition kMessageTextBytes :: nat where
  "kMessageTextBytes = 16384"

definition kForwardItemCount :: nat where
  "kForwardItemCount = 100"

definition kForwardTerminalBytes :: nat where
  "kForwardTerminalBytes = 4194304"

definition kSingleMessageTerminalBytes :: nat where
  "kSingleMessageTerminalBytes = 65536"

definition kOtherTerminalBytes :: nat where
  "kOtherTerminalBytes = 32768"

definition kM6TerminalBytes :: nat where
  "kM6TerminalBytes = kMinimumResultPayloadBytes"

definition kAuditEnvelopeBytes :: nat where
  "kAuditEnvelopeBytes = 4096"

definition kIntentJsonBytes :: nat where
  "kIntentJsonBytes = 134217728"

definition kNonVectorJsonBytes :: nat where
  "kNonVectorJsonBytes = 65536"

definition kVectorJsonBytes :: nat where
  "kVectorJsonBytes = kM6TerminalBytes + kAuditEnvelopeBytes"

definition kMaximumForwardProgressRecords :: nat where
  "kMaximumForwardProgressRecords = 101"

definition kIntentLineBytes :: nat where
  "kIntentLineBytes = kIntentJsonBytes + 1"

definition kNonVectorLineBytes :: nat where
  "kNonVectorLineBytes = kNonVectorJsonBytes + 1"

definition kVectorLineBytes :: nat where
  "kVectorLineBytes = kVectorJsonBytes + 1"

definition kMaximumVectorLinesPerGroup :: nat where
  "kMaximumVectorLinesPerGroup = kMaximumForwardProgressRecords + 2"

definition kMaximumGroupBytes :: nat where
  "kMaximumGroupBytes = kIntentLineBytes + 3 * kNonVectorLineBytes + kMaximumVectorLinesPerGroup * kVectorLineBytes"

lemmas audit_limits = kRequestSourceBytes_def kChatTitleBytes_def kChatUsernameCount_def kChatUsernameBytes_def
  kSessionStringBytes_def kMessageTextScalars_def kMessageTextBytes_def kForwardItemCount_def

subsection \<open>Integers and texts\<close>

definition valid_string :: "json \<Rightarrow> nat \<Rightarrow> bool" where
  "valid_string value maximum \<longleftrightarrow>
     is_string value \<and> length (string_of value) \<le> maximum \<and> valid_utf8 (string_of value)"

definition json_int64 :: "json \<Rightarrow> int option" where
  "json_int64 value =
     (if is_number_unsigned value
      then if get_uint64 value > 2 ^ 63 - 1 then None else Some (int (get_uint64 value))
      else if \<not> is_number_integer value then None
      else Some (get_int64 value))"

definition valid_int64 :: "json \<Rightarrow> bool" where
  "valid_int64 value \<longleftrightarrow> json_int64 value \<noteq> None"

definition valid_int32 :: "json \<Rightarrow> bool" where
  "valid_int32 value \<longleftrightarrow> (case json_int64 value of None \<Rightarrow> False | Some number \<Rightarrow> number \<ge> - (2 ^ 31) \<and> number \<le> 2 ^ 31 - 1)"

definition valid_nonnegative_int32 :: "json \<Rightarrow> bool" where
  "valid_nonnegative_int32 value \<longleftrightarrow> (case json_int64 value of None \<Rightarrow> False | Some number \<Rightarrow> number \<ge> 0 \<and> number \<le> 2 ^ 31 - 1)"

definition valid_positive_int32 :: "json \<Rightarrow> bool" where
  "valid_positive_int32 value \<longleftrightarrow> (case json_int64 value of None \<Rightarrow> False | Some number \<Rightarrow> number \<ge> 1 \<and> number \<le> 2 ^ 31 - 1)"

definition contains_nul :: "string \<Rightarrow> bool" where
  "contains_nul value \<longleftrightarrow> CHR 0x00 \<in> set value"

definition valid_utf8_text :: "json \<Rightarrow> nat \<Rightarrow> nat \<Rightarrow> bool \<Rightarrow> bool" where
  "valid_utf8_text value maximum_bytes maximum_scalars allow_empty =
     (if \<not> valid_string value maximum_bytes then False
      else let t = string_of value
           in (allow_empty \<or> t \<noteq> []) \<and> \<not> contains_nul t \<and>
              (case utf8_scalar_count t of None \<Rightarrow> False | Some scalars \<Rightarrow> scalars \<le> maximum_scalars))"

definition valid_selector_string :: "json \<Rightarrow> bool" where
  "valid_selector_string value \<longleftrightarrow>
     valid_string value kRequestSourceBytes \<and> string_of value \<noteq> [] \<and> \<not> contains_nul (string_of value)"

definition ends_with :: "string \<Rightarrow> string \<Rightarrow> bool" where
  "ends_with value suffix_text \<longleftrightarrow> suffix suffix_text value"

definition valid_argument_path :: "json \<Rightarrow> bool" where
  "valid_argument_path value =
     (if \<not> valid_string value 4096 then False
      else let path = string_of value
           in path \<noteq> [] \<and> \<not> contains_nul path \<and> \<not> ends_with path ''/'')"

definition basename_lead :: "nat \<Rightarrow> nat \<times> nat" where
  "basename_lead lead =
     (if lead AND 0xE0 = 0xC0 then (2, lead AND 0x1F)
      else if lead AND 0xF0 = 0xE0 then (3, lead AND 0x0F)
      else if lead AND 0xF8 = 0xF0 then (4, lead AND 0x07)
      else (1, lead))"

definition basename_forbidden :: "nat \<Rightarrow> bool" where
  "basename_forbidden scalar \<longleftrightarrow> scalar \<le> 0x1F \<or> scalar \<ge> 0x7F \<and> scalar \<le> 0x9F"

definition valid_safe_basename :: "json \<Rightarrow> bool" where
  "valid_safe_basename value =
     (if \<not> valid_string value 255 then False
      else let name = string_of value
           in if name = [] \<or> name = ''.'' \<or> name = ''..'' \<or> CHR ''/'' \<in> set name then False
              else \<not> scan_scalars basename_lead basename_forbidden (bytes_of name))"

function canonical_path_loop :: "string \<Rightarrow> string \<Rightarrow> bool" where
  "canonical_path_loop basename rest =
     (let component = takeWhile (\<lambda>c. c \<noteq> CHR ''/'') rest
      in if component = [] \<or> component = ''.'' \<or> component = ''..'' then False
         else if CHR ''/'' \<notin> set rest then component = basename
         else canonical_path_loop basename (drop (length component + 1) rest))"
  by pat_completeness auto
termination
  by (relation "measure (\<lambda>(b, rest). length rest)") (auto intro!: diff_less dest: length_pos_if_in_set)

declare canonical_path_loop.simps [simp del]

definition valid_canonical_absolute_path :: "json \<Rightarrow> string \<Rightarrow> bool" where
  "valid_canonical_absolute_path value basename =
     (if \<not> valid_string value 4096 then False
      else let path = string_of value
           in if length path < 2 \<or> hd path \<noteq> CHR ''/'' \<or> last path = CHR ''/'' \<or> contains_nul path then False
              else canonical_path_loop basename (tl path))"

definition valid_hex :: "string \<Rightarrow> nat \<Rightarrow> bool" where
  "valid_hex value len \<longleftrightarrow> length value = len \<and> list_all is_lower_hex value"

definition valid_hash :: "json \<Rightarrow> bool" where
  "valid_hash value =
     (if \<not> is_string value then False
      else starts_with (string_of value) ''sha256:'' \<and> valid_hex (drop 7 (string_of value)) 64)"

subsection \<open>Timestamps\<close>

definition is_leap :: "int \<Rightarrow> bool" where
  "is_leap year \<longleftrightarrow> year mod 4 = 0 \<and> (year mod 100 \<noteq> 0 \<or> year mod 400 = 0)"

definition last_day :: "int \<Rightarrow> int \<Rightarrow> int" where
  "last_day year month =
     (if month = 2 then if is_leap year then 29 else 28
      else if month \<in> {4, 6, 9, 11} then 30 else 31)"

definition date_ok :: "int \<Rightarrow> int \<Rightarrow> int \<Rightarrow> bool" where
  "date_ok year month day \<longleftrightarrow> 1 \<le> month \<and> month \<le> 12 \<and> 1 \<le> day \<and> day \<le> last_day year month"

text \<open>Days since 1970-01-01: whole years, then whole months, then days.\<close>

definition days_before_year :: "int \<Rightarrow> int" where
  "days_before_year year = 365 * (year - 1970) + ((year - 1) div 4 - (year - 1) div 100 + (year - 1) div 400 - 477)"

definition days_before_month :: "int \<Rightarrow> int \<Rightarrow> int" where
  "days_before_month year month = sum_list (map (last_day year) [1..month - 1])"

definition sys_days :: "int \<Rightarrow> int \<Rightarrow> int \<Rightarrow> int" where
  "sys_days year month day = days_before_year year + days_before_month year month + (day - 1)"

definition two_digits :: "string \<Rightarrow> nat \<Rightarrow> int" where
  "two_digits t begin = int (digits_value (take 2 (drop begin t)))"

definition digits_at :: "string \<Rightarrow> nat \<Rightarrow> nat \<Rightarrow> bool" where
  "digits_at t begin n = list_all is_digit (take n (drop begin t))"

definition timestamp_unix_seconds :: "json \<Rightarrow> int option" where
  "timestamp_unix_seconds value =
     (if \<not> is_string value then None
      else let t = string_of value
           in if length t \<noteq> 20 \<or> t ! 4 \<noteq> CHR ''-'' \<or> t ! 7 \<noteq> CHR ''-'' \<or> t ! 10 \<noteq> CHR ''T'' \<or>
                t ! 13 \<noteq> CHR '':'' \<or> t ! 16 \<noteq> CHR '':'' \<or> t ! 19 \<noteq> CHR ''Z'' then None
              else if \<not> digits_at t 0 4 \<or> \<not> digits_at t 5 2 \<or> \<not> digits_at t 8 2 \<or> \<not> digits_at t 11 2 \<or>
                \<not> digits_at t 14 2 \<or> \<not> digits_at t 17 2 then None
              else let year = int (digits_value (take 4 t))
                   in if year < 1970 \<or> \<not> date_ok year (two_digits t 5) (two_digits t 8) \<or> two_digits t 11 > 23 \<or>
                        two_digits t 14 > 59 \<or> two_digits t 17 > 59 then None
                      else Some (sys_days year (two_digits t 5) (two_digits t 8) * 86400 +
                        two_digits t 11 * 3600 + two_digits t 14 * 60 + two_digits t 17))"

definition valid_timestamp :: "json \<Rightarrow> bool" where
  "valid_timestamp value \<longleftrightarrow> timestamp_unix_seconds value \<noteq> None"

definition valid_session_timestamp :: "json \<Rightarrow> bool" where
  "valid_session_timestamp value \<longleftrightarrow>
     (case timestamp_unix_seconds value of None \<Rightarrow> False | Some seconds \<Rightarrow> seconds \<ge> 1 \<and> seconds \<le> 2 ^ 31 - 1)"

subsection \<open>Identifiers\<close>

definition valid_int53 :: "json \<Rightarrow> bool \<Rightarrow> bool" where
  "valid_int53 value positive \<longleftrightarrow>
     (case json_int64 value of
        None \<Rightarrow> False
      | Some number \<Rightarrow> number \<ge> (if positive then 1 else - 9007199254740991) \<and> number \<le> 9007199254740991)"

definition valid_message_id :: "json \<Rightarrow> bool" where
  "valid_message_id value \<longleftrightarrow>
     (case json_int64 value of None \<Rightarrow> False | Some number \<Rightarrow> number \<noteq> 0 \<and> valid_int53 value False)"

fun message_ids_loop :: "int list \<Rightarrow> json list \<Rightarrow> bool" where
  "message_ids_loop seen [] = True"
| "message_ids_loop seen (item # items) =
     (case json_int64 item of
        None \<Rightarrow> False
      | Some number \<Rightarrow>
          if \<not> valid_message_id item \<or> number \<in> set seen then False
          else message_ids_loop (number # seen) items)"

definition valid_message_id_array :: "json \<Rightarrow> nat \<Rightarrow> nat \<Rightarrow> bool" where
  "valid_message_id_array value minimum maximum =
     (if \<not> is_array value \<or> jsize value < minimum \<or> jsize value > maximum then False
      else message_ids_loop [] (items_of value))"

fun strict_ids_loop :: "int option \<Rightarrow> json list \<Rightarrow> bool" where
  "strict_ids_loop previous [] = True"
| "strict_ids_loop previous (item # items) =
     (case json_int64 item of
        None \<Rightarrow> False
      | Some number \<Rightarrow>
          if \<not> valid_message_id item \<or> (case previous of None \<Rightarrow> False | Some p \<Rightarrow> number \<le> p) then False
          else strict_ids_loop (Some number) items)"

definition valid_strict_message_id_array :: "json \<Rightarrow> nat \<Rightarrow> nat \<Rightarrow> bool" where
  "valid_strict_message_id_array value minimum maximum =
     (if \<not> is_array value \<or> jsize value < minimum \<or> jsize value > maximum then False
      else strict_ids_loop None (items_of value))"

definition valid_mute_duration :: "json \<Rightarrow> bool" where
  "valid_mute_duration value \<longleftrightarrow>
     (case json_int64 value of
        None \<Rightarrow> False
      | Some duration \<Rightarrow> duration \<ge> 1 \<and> duration \<le> 31622400 \<or> duration = 2 ^ 31 - 1)"

definition valid_session_id :: "json \<Rightarrow> bool" where
  "valid_session_id value =
     (if \<not> is_string value then False
      else let t = string_of value
           in if t = [] \<or> t = ''-0'' \<or> hd t = CHR ''+'' \<or> length t > 1 \<and> hd t = CHR ''0'' \<or>
                length t > 2 \<and> t ! 0 = CHR ''-'' \<and> t ! 1 = CHR ''0'' then False
              else case from_chars_int64 t of None \<Rightarrow> False | Some (parsed, rest) \<Rightarrow> rest = [])"

subsection \<open>Chats, topics, schedules and files\<close>

definition username_character :: "char \<Rightarrow> bool" where
  "username_character c \<longleftrightarrow> is_alnum c \<or> c = CHR ''_''"

definition valid_chat_username :: "json \<Rightarrow> bool" where
  "valid_chat_username item =
     (if \<not> is_string item then False
      else string_of item \<noteq> [] \<and> length (string_of item) \<le> kChatUsernameBytes \<and>
           list_all username_character (string_of item))"

definition valid_chat_identity :: "json \<Rightarrow> bool" where
  "valid_chat_identity value =
     (if \<not> exact_fields value [''id'', ''title'', ''type'', ''is_bot'', ''usernames''] \<or>
         \<not> valid_int53 (field value ''id'') False \<or> \<not> valid_string (field value ''title'') kChatTitleBytes \<or>
         \<not> is_string (field value ''type'') \<or> \<not> is_boolean (field value ''is_bot'') \<or>
         \<not> is_array (field value ''usernames'') \<or> jsize (field value ''usernames'') > kChatUsernameCount
      then False
      else let type = string_of (field value ''type'')
           in if type \<noteq> ''private'' \<and> type \<noteq> ''basic_group'' \<and> type \<noteq> ''supergroup'' \<and> type \<noteq> ''channel'' then False
              else if json_eq (field value ''id'') (JInt 0) \<or>
                type \<noteq> ''private'' \<and> json_eq (field value ''is_bot'') (JBool True) then False
              else list_all valid_chat_username (items_of (field value ''usernames'')))"

definition valid_topic :: "json \<Rightarrow> string \<Rightarrow> bool \<Rightarrow> bool" where
  "valid_topic value kind int32_only =
     (if value = JNull then True
      else if \<not> exact_fields value [''kind'', ''id''] \<or> \<not> json_eq (field value ''kind'') (JString kind) \<or>
        \<not> valid_int53 (field value ''id'') True then False
      else \<not> int32_only \<or> get_int64 (field value ''id'') \<le> 2 ^ 31 - 1)"

definition valid_schedule :: "json \<Rightarrow> bool" where
  "valid_schedule value =
     (if value = JNull then True
      else if \<not> is_object value \<or> \<not> contains value ''kind'' \<or> \<not> is_string (field value ''kind'') then False
      else if json_eq (field value ''kind'') (JString ''online'') then exact_fields value [''kind'']
      else json_eq (field value ''kind'') (JString ''at'') \<and> exact_fields value [''kind'', ''send_date''] \<and>
           valid_positive_int32 (field value ''send_date''))"

definition valid_file_snapshot :: "json \<Rightarrow> bool" where
  "valid_file_snapshot value \<longleftrightarrow>
     exact_fields value [''path'', ''name'', ''size'', ''sha256'', ''device'', ''inode'', ''mtime_ns'', ''ctime_ns''] \<and>
     valid_safe_basename (field value ''name'') \<and>
     valid_canonical_absolute_path (field value ''path'') (string_of (field value ''name'')) \<and>
     is_number_unsigned (field value ''size'') \<and> valid_hash (field value ''sha256'') \<and>
     is_number_unsigned (field value ''device'') \<and> is_number_unsigned (field value ''inode'') \<and>
     valid_int64 (field value ''mtime_ns'') \<and> valid_int64 (field value ''ctime_ns'')"

definition valid_schedule_plan :: "json \<Rightarrow> json \<Rightarrow> bool" where
  "valid_schedule_plan schedule observed_server_unix_time =
     (if \<not> valid_schedule schedule then False
      else if schedule = JNull \<or> json_eq (field schedule ''kind'') (JString ''online'')
      then observed_server_unix_time = JNull
      else case (json_int64 (field schedule ''send_date''), json_int64 observed_server_unix_time) of
             (Some send_date, Some server_now) \<Rightarrow>
               server_now \<le> send_date - 11 \<and> server_now \<ge> send_date - 367 * 86400
           | _ \<Rightarrow> False)"

subsection \<open>Numbers and calendar\<close>

lemma json_int64_Some:
  "json_int64 v = Some i \<longleftrightarrow> v = JInt i \<or> (\<exists>n. v = JUInt n \<and> i = int n \<and> n < 2 ^ 63)"
  by (cases v) (auto simp: json_int64_def)

lemma decimal_digits_length: "decimal_digits n = length (to_string_nat n)"
proof (induction n rule: decimal_digits.induct)
  case (1 n)
  show ?case using 1 by (simp add: decimal_digits.simps [of n] to_string_nat.simps [of n])
qed

lemma div_pred:
  fixes y k :: int
  assumes "0 < k"
  shows "y div k = (y - 1) div k + (if y mod k = 0 then 1 else 0)"
proof (cases "y mod k = 0")
  case True
  then obtain q where q: "y = k * q" by auto
  have "(k * q - 1) div k = q - 1"
    using assms by (intro int_div_pos_eq [of _ _ _ "k - 1"]) (auto simp: algebra_simps)
  with q True assms show ?thesis by simp
next
  case False
  have r: "0 \<le> y mod k - 1" "y mod k - 1 < k" using False assms pos_mod_bound [of k y] pos_mod_sign [of k y] by linarith+
  have "(y - 1) div k = y div k"
    using r by (intro int_div_pos_eq [of _ _ _ "y mod k - 1"]) auto
  with False show ?thesis by simp
qed

lemma leap_count:
  fixes a b c y :: int
  assumes "a' = a + (if p then 1 else 0)" "b' = b + (if q then 1 else 0)" "c' = c + (if r then 1 else 0)"
    and "r \<longrightarrow> q" "q \<longrightarrow> p"
  shows "365 * (y + 1 - 1970) + (a' - b' + c' - 477) =
     365 * (y - 1970) + (a - b + c - 477) + (if p \<and> (\<not> q \<or> r) then 366 else 365)"
  using assms by (cases p; cases q; cases r) simp_all

lemma days_before_year_Suc: "days_before_year (y + 1) = days_before_year y + (if is_leap y then 366 else 365)"
proof -
  have imp: "y mod 400 = 0 \<longrightarrow> y mod 100 = 0" "y mod 100 = 0 \<longrightarrow> y mod 4 = 0"
    using mod_mod_cancel [of 100 400 y] mod_mod_cancel [of 4 100 y] by auto
  show ?thesis
    unfolding days_before_year_def is_leap_def add_diff_cancel_right'
    by (rule leap_count [OF div_pred div_pred div_pred imp]) simp_all
qed

lemma days_before_month_Suc: "1 \<le> m \<Longrightarrow> days_before_month y (m + 1) = days_before_month y m + last_day y m"
  by (simp add: days_before_month_def upto_rec2)

lemma days_before_month_12: "days_before_month y 12 + last_day y 12 = (if is_leap y then 366 else 365)"
  by (simp add: days_before_month_def upto.simps last_day_def)

lemma last_day_range: "28 \<le> last_day y m \<and> last_day y m \<le> 31"
  by (simp add: last_day_def)

definition next_date :: "int \<times> int \<times> int \<Rightarrow> int \<times> int \<times> int" where
  "next_date = (\<lambda>(y, m, d). if d < last_day y m then (y, m, d + 1) else if m < 12 then (y, m + 1, 1) else (y + 1, 1, 1))"

definition date_number :: "int \<times> int \<times> int \<Rightarrow> int" where
  "date_number = (\<lambda>(y, m, d). sys_days y m d)"

lemma days_before_month_1 [simp]: "days_before_month y 1 = 0"
  by (simp add: days_before_month_def)

lemma next_date_number:
  assumes "date_ok y m d"
  shows "date_number (next_date (y, m, d)) = date_number (y, m, d) + 1"
proof -
  from assms have "d = last_day y m" if "\<not> d < last_day y m" using that by (simp add: date_ok_def)
  moreover have "m = 12" if "\<not> m < 12" using that assms by (simp add: date_ok_def)
  moreover have "1 \<le> m" using assms by (simp add: date_ok_def)
  ultimately show ?thesis
    using days_before_year_Suc [of y] days_before_month_Suc [of m y] days_before_month_12 [of y]
    by (auto simp: next_date_def date_number_def sys_days_def)
qed

lemma epoch_number: "date_number (1970, 1, 1) = 0"
  by (simp add: date_number_def sys_days_def days_before_year_def)

subsection \<open>Properties\<close>

text \<open>The text of a point in time, as \<open>strftime\<close> with \<open>%Y-%m-%dT%H:%M:%SZ\<close> writes it.\<close>

definition pad2 :: "int \<Rightarrow> string" where
  "pad2 k = [char_of (48 + nat k div 10), char_of (48 + nat k mod 10)]"

definition pad4 :: "int \<Rightarrow> string" where
  "pad4 k = pad2 (k div 100) @ pad2 (k mod 100)"

definition timestamp_text :: "int \<times> int \<times> int \<Rightarrow> int \<Rightarrow> int \<Rightarrow> int \<Rightarrow> string" where
  "timestamp_text date hour minute second =
     (case date of (y, m, d) \<Rightarrow>
        pad4 y @ ''-'' @ pad2 m @ ''-'' @ pad2 d @ ''T'' @ pad2 hour @ '':'' @ pad2 minute @ '':'' @ pad2 second @ ''Z'')"

lemma length_pad [simp]: "length (pad2 k) = 2" "length (pad4 k) = 4"
  by (simp_all add: pad2_def pad4_def)

lemma pad2_digits: "0 \<le> k \<Longrightarrow> k < 100 \<Longrightarrow> list_all is_digit (pad2 k)"
  by (simp add: pad2_def is_digit_char_of)

lemma pad2_value: "0 \<le> k \<Longrightarrow> k < 100 \<Longrightarrow> digits_value (pad2 k) = nat k"
  by (simp add: pad2_def digits_value_def)

lemma pad4_digits: "0 \<le> k \<Longrightarrow> k < 10000 \<Longrightarrow> list_all is_digit (pad4 k)"
  using pad2_digits [of "k div 100"] pad2_digits [of "k mod 100"] by (simp add: pad4_def)

lemma pad4_value:
  assumes "0 \<le> k" "k < 10000"
  shows "digits_value (pad4 k) = nat k"
proof -
  have split: "digits_value (xs @ pad2 j) = 100 * digits_value xs + nat j" if "0 \<le> j" "j < 100" for xs j
    using that by (simp add: pad2_def digits_value_def)
  have "digits_value (pad4 k) = 100 * nat (k div 100) + nat (k mod 100)"
    using split [of "k mod 100"] pad2_value [of "k div 100"] assms by (simp add: pad4_def)
  also have "\<dots> = nat k" using assms by (simp add: nat_div_distrib nat_mod_distrib)
  finally show ?thesis .
qed

lemma pad2_at:
  assumes "t = p @ pad2 k @ r" "length p = n" "0 \<le> k" "k < 100"
  shows "two_digits t n = k" "digits_at t n 2"
  using assms pad2_value [of k] pad2_digits [of k] by (auto simp: two_digits_def digits_at_def)

lemma timestamp_text_read:
  assumes "date_ok y m d" "1970 \<le> y" "y \<le> 9999" "0 \<le> h" "h \<le> 23" "0 \<le> mi" "mi \<le> 59" "0 \<le> s" "s \<le> 59"
  shows "timestamp_unix_seconds (JString (timestamp_text (y, m, d) h mi s)) =
     Some (sys_days y m d * 86400 + h * 3600 + mi * 60 + s)"
proof -
  define t where "t = timestamp_text (y, m, d) h mi s"
  have t: "t = pad4 y @ ''-'' @ pad2 m @ ''-'' @ pad2 d @ ''T'' @ pad2 h @ '':'' @ pad2 mi @ '':'' @ pad2 s @ ''Z''"
    by (simp add: t_def timestamp_text_def)
  have md: "0 \<le> m" "m < 100" "0 \<le> d" "d < 100" using assms(1) last_day_range [of y m] by (auto simp: date_ok_def)
  have y: "take 4 t = pad4 y" "digits_at t 0 4" "digits_value (pad4 y) = nat y"
    using assms pad4_digits [of y] pad4_value [of y] by (simp_all add: t digits_at_def)
  have f5: "two_digits t 5 = m" "digits_at t 5 2"
    using pad2_at [of t "pad4 y @ ''-''" m "''-'' @ pad2 d @ ''T'' @ pad2 h @ '':'' @ pad2 mi @ '':'' @ pad2 s @ ''Z''" 5] md
    by (simp_all add: t)
  have f8: "two_digits t 8 = d" "digits_at t 8 2"
    using pad2_at [of t "pad4 y @ ''-'' @ pad2 m @ ''-''" d "''T'' @ pad2 h @ '':'' @ pad2 mi @ '':'' @ pad2 s @ ''Z''" 8] md
    by (simp_all add: t)
  have f11: "two_digits t 11 = h" "digits_at t 11 2"
    using pad2_at [of t "pad4 y @ ''-'' @ pad2 m @ ''-'' @ pad2 d @ ''T''" h "'':'' @ pad2 mi @ '':'' @ pad2 s @ ''Z''" 11] assms
    by (simp_all add: t)
  have f14: "two_digits t 14 = mi" "digits_at t 14 2"
    using pad2_at [of t "pad4 y @ ''-'' @ pad2 m @ ''-'' @ pad2 d @ ''T'' @ pad2 h @ '':''" mi "'':'' @ pad2 s @ ''Z''" 14] assms
    by (simp_all add: t)
  have f17: "two_digits t 17 = s" "digits_at t 17 2"
    using pad2_at [of t "pad4 y @ ''-'' @ pad2 m @ ''-'' @ pad2 d @ ''T'' @ pad2 h @ '':'' @ pad2 mi @ '':''" s "''Z''" 17] assms
    by (simp_all add: t)
  have seps: "length t = 20" "t ! 4 = CHR ''-''" "t ! 7 = CHR ''-''" "t ! 10 = CHR ''T''" "t ! 13 = CHR '':''"
    "t ! 16 = CHR '':''" "t ! 19 = CHR ''Z''"
    by (simp_all add: t nth_append pad4_def pad2_def)
  show ?thesis unfolding t_def [symmetric]
    using assms y f5 f8 f11 f14 f17 seps by (simp add: timestamp_unix_seconds_def)
qed

lemma next_date_ok:
  assumes "date_ok y m d" "next_date (y, m, d) = (y', m', d')"
  shows "date_ok y' m' d' \<and> y \<le> y'"
  using assms last_day_range [of y' m'] by (auto simp: next_date_def date_ok_def split: if_splits)

lemma calendar_day:
  "(next_date ^^ n) (1970, 1, 1) = (y, m, d) \<Longrightarrow> date_ok y m d \<and> 1970 \<le> y \<and> sys_days y m d = int n"
proof (induction n arbitrary: y m d)
  case 0
  then show ?case using epoch_number by (auto simp: date_ok_def last_day_def date_number_def)
next
  case (Suc n)
  obtain y0 m0 d0 where e: "(next_date ^^ n) (1970, 1, 1) = (y0, m0, d0)" by (cases "(next_date ^^ n) (1970, 1, 1)")
  with Suc have ih: "date_ok y0 m0 d0" "1970 \<le> y0" "sys_days y0 m0 d0 = int n" by blast+
  have n: "next_date (y0, m0, d0) = (y, m, d)" using Suc.prems e by simp
  from next_date_ok [OF ih(1) n] next_date_number [OF ih(1)] ih n show ?case by (simp add: date_number_def)
qed

text \<open>
  C33: the reader of timestamps follows the calendar. The text of the day reached
  by \<open>n\<close> steps of the Gregorian calendar from 1970-01-01, at a given time of day, is read as
  \<open>n\<close> days of 86400 seconds plus the time of day.
\<close>

theorem timestamp_calendar:
  assumes "(next_date ^^ n) (1970, 1, 1) = (y, m, d)" and "y \<le> 9999"
    and "0 \<le> h \<and> h \<le> 23" "0 \<le> mi \<and> mi \<le> 59" "0 \<le> s \<and> s \<le> 59"
  shows "timestamp_unix_seconds (JString (timestamp_text (y, m, d) h mi s)) =
     Some (int n * 86400 + h * 3600 + mi * 60 + s)"
  using calendar_day [OF assms(1)] timestamp_text_read assms(2-) by simp

theorem timestamp_calendar_witness:
  "timestamp_unix_seconds (JString (timestamp_text (1970, 2, 1) 12 30 59)) = Some (31 * 86400 + 12 * 3600 + 30 * 60 + 59)"
proof -
  have "(next_date ^^ 31) (1970, 1, 1) = (1970, 2, 1)" by code_simp
  from timestamp_calendar [OF this, of 12 30 59] show ?thesis by simp
qed

lemma from_chars_rest: "(case from_chars_int64 t of None \<Rightarrow> False | Some (parsed, rest) \<Rightarrow> rest = []) \<longleftrightarrow>
   (\<exists>i. from_chars_int64 t = Some (i, []))"
  by (auto split: option.splits)

lemma to_string_nat_0: "to_string_nat 0 = ''0''"
  by code_simp

lemma digit_not_sign: "is_digit c \<Longrightarrow> c \<noteq> CHR ''-'' \<and> c \<noteq> CHR ''+''"
  by (auto simp: char_classes)

definition canonical_decimal :: "string \<Rightarrow> bool" where
  "canonical_decimal t \<longleftrightarrow> (\<exists>i. - (2 ^ 63) \<le> i \<and> i < 2 ^ 63 \<and> t = to_string_int i)"

lemma canonical_decimal_natI:
  "list_all is_digit ds \<Longrightarrow> ds = ''0'' \<or> ds \<noteq> [] \<and> hd ds \<noteq> CHR ''0'' \<Longrightarrow> digits_value ds < 2 ^ 63 \<Longrightarrow> canonical_decimal ds"
  using to_string_digits_value [of ds] to_string_nat_0
  by (auto simp: canonical_decimal_def to_string_int_of_nat to_string_int_def byte_of_def digits_value_def
      intro!: exI [of _ "int (digits_value ds)"])

lemma canonical_decimal_negI:
  assumes "list_all is_digit ds" "ds \<noteq> []" "hd ds \<noteq> CHR ''0''" "digits_value ds \<le> 2 ^ 63"
  shows "canonical_decimal (CHR ''-'' # ds)"
  using to_string_digits_value [OF assms(1-3)] digits_value_pos [OF assms(1-3)] assms(4)
  by (auto simp: canonical_decimal_def to_string_int_def intro!: exI [of _ "- int (digits_value ds)"])

lemma canonical_decimal_cases:
  assumes "canonical_decimal t"
  obtains (nat) ds where "t = ds" "list_all is_digit ds" "ds = ''0'' \<or> ds \<noteq> [] \<and> hd ds \<noteq> CHR ''0''" "digits_value ds < 2 ^ 63"
  | (neg) ds where "t = CHR ''-'' # ds" "list_all is_digit ds" "ds \<noteq> []" "hd ds \<noteq> CHR ''0''" "digits_value ds \<le> 2 ^ 63"
proof -
  from assms obtain i where i: "- (2 ^ 63) \<le> i" "i < 2 ^ 63" "t = to_string_int i" by (auto simp: canonical_decimal_def)
  show ?thesis
  proof (cases "i < 0")
    case True
    have "1 \<le> nat (- i)" "nat (- i) \<le> 2 ^ 63" using True i(1) by (simp_all add: nat_le_iff)
    with True i(3) to_string_nat_correct [of "nat (- i)"] to_string_nat_leading [of "nat (- i)"] show ?thesis
      by (intro neg [of "to_string_nat (nat (- i))"]) (simp_all add: to_string_int_def)
  next
    case False
    have "nat i < 2 ^ 63" using False i(2) by (simp add: nat_less_iff)
    with False i(3) to_string_nat_correct [of "nat i"] to_string_nat_leading [of "nat i"] to_string_nat_0 show ?thesis
      by (intro nat [of "to_string_nat (nat i)"]) (cases "nat i = 0"; simp add: to_string_int_def)+
  qed
qed

text \<open>The integers \<open>valid_canonical_int64\<close> admits beyond the canonical ones: zeros between sign and digits.\<close>

definition padded_negative :: "string \<Rightarrow> bool" where
  "padded_negative t \<longleftrightarrow>
     (\<exists>ds. t = ''-0'' @ ds \<and> ds \<noteq> [] \<and> list_all is_digit ds \<and> digits_value ds \<le> 2 ^ 63)"

lemma digits_value_zero: "digits_value (CHR ''0'' # ds) = digits_value ds"
  by (simp add: digits_value_def byte_of_def)

lemma session_id_decimal: "valid_session_id (JString t) \<longleftrightarrow> canonical_decimal t"
proof
  assume a: "valid_session_id (JString t)"
  then obtain i where i: "from_chars_int64 t = Some (i, [])"
    unfolding valid_session_id_def from_chars_rest Let_def by (auto split: if_splits)
  then consider (nat) "t \<noteq> []" "list_all is_digit t" "digits_value t < 2 ^ 63"
    | (neg) ds where "ds \<noteq> []" "list_all is_digit ds" "t = CHR ''-'' # ds" "digits_value ds \<le> 2 ^ 63"
    unfolding from_chars_all by blast
  then show "canonical_decimal t"
  proof cases
    case nat
    have "t = ''0'' \<or> t \<noteq> [] \<and> hd t \<noteq> CHR ''0''"
      using a nat(1) by (cases t) (auto simp: valid_session_id_def split: if_splits)
    with nat show ?thesis by (intro canonical_decimal_natI)
  next
    case neg
    then show ?thesis using a
      by (cases ds) (auto simp: valid_session_id_def intro!: canonical_decimal_negI split: if_splits)
  qed
next
  assume "canonical_decimal t"
  then show "valid_session_id (JString t)"
  proof (cases rule: canonical_decimal_cases)
    case (nat ds)
    then have "ds \<noteq> []" by auto
    moreover have "from_chars_int64 ds = Some (int (digits_value ds), [])"
      using from_chars_digits_range(1) [OF nat(2) calculation] nat(4) by simp
    ultimately show ?thesis using nat digit_not_sign [of "hd ds"]
      by (cases ds) (auto simp: valid_session_id_def)
  next
    case (neg ds)
    then show ?thesis using from_chars_digits_range(2) [OF neg(2,3)]
      by (cases ds) (auto simp: valid_session_id_def)
  qed
qed

lemma canonical_int64_decimal:
  "valid_canonical_int64 (JString t) False \<longleftrightarrow> canonical_decimal t \<or> padded_negative t"
proof
  assume a: "valid_canonical_int64 (JString t) False"
  show "canonical_decimal t \<or> padded_negative t"
  proof (cases "length t > 2 \<and> t ! 0 = CHR ''-'' \<and> t ! 1 = CHR ''0''")
    case False
    with a have "valid_session_id (JString t)"
      by (auto simp: valid_session_id_def valid_canonical_int64_def Let_def split: if_splits option.splits)
    then show ?thesis by (simp add: session_id_decimal)
  next
    case True
    then obtain ds where t: "t = ''-0'' @ ds" "ds \<noteq> []"
      by (cases t; cases "tl t") auto
    from a obtain i where "from_chars_int64 t = Some (i, [])"
      by (auto simp: valid_canonical_int64_def Let_def split: if_splits option.splits)
    then have "list_all is_digit (CHR ''0'' # ds)" "digits_value (CHR ''0'' # ds) \<le> 2 ^ 63"
      unfolding from_chars_all using t by auto
    with t show ?thesis by (auto simp: padded_negative_def digits_value_zero)
  qed
next
  assume "canonical_decimal t \<or> padded_negative t"
  then show "valid_canonical_int64 (JString t) False"
  proof
    assume "canonical_decimal t"
    then have "valid_session_id (JString t)" by (simp add: session_id_decimal)
    then show ?thesis
      by (auto simp: valid_session_id_def valid_canonical_int64_def Let_def split: if_splits option.splits)
  next
    assume "padded_negative t"
    then obtain ds where t: "t = ''-0'' @ ds" "ds \<noteq> []" "list_all is_digit ds" "digits_value ds \<le> 2 ^ 63"
      by (auto simp: padded_negative_def)
    then have "list_all is_digit (CHR ''0'' # ds)" by (simp add: char_classes)
    from from_chars_digits_range(2) [OF this] t show ?thesis
      by (simp add: valid_canonical_int64_def digits_value_zero)
  qed
qed

lemma padded_not_canonical: "padded_negative t \<Longrightarrow> \<not> canonical_decimal t"
  unfolding session_id_decimal [symmetric] by (auto simp: padded_negative_def valid_session_id_def)

text \<open>
  C34: \<open>valid_session_id\<close> accepts exactly the decimal texts \<open>std::to_string\<close> writes for 64-bit integers.
  \<open>valid_canonical_int64\<close>, the check of the account management contract for the same purpose, accepts
  in addition the negative numbers with zeros after the sign, which are not canonical.
\<close>

theorem canonical_integers_differ:
  "(valid_session_id (JString t) \<longleftrightarrow> (\<exists>i. - (2 ^ 63) \<le> i \<and> i < 2 ^ 63 \<and> t = to_string_int i)) \<and>
   (valid_canonical_int64 (JString t) False \<and> \<not> valid_session_id (JString t) \<longleftrightarrow> padded_negative t)"
  using session_id_decimal [of t] canonical_int64_decimal [of t] padded_not_canonical [of t]
  by (auto simp: canonical_decimal_def)

definition proper_component :: "string \<Rightarrow> bool" where
  "proper_component c \<longleftrightarrow> c \<noteq> [] \<and> c \<noteq> ''.'' \<and> c \<noteq> ''..'' \<and> CHR ''/'' \<notin> set c"

definition absolute_path :: "string list \<Rightarrow> string" where
  "absolute_path components = concat (map (\<lambda>c. CHR ''/'' # c) components)"

lemma takeWhile_component: "CHR ''/'' \<notin> set c \<Longrightarrow> takeWhile (\<lambda>c. c \<noteq> CHR ''/'') (c @ CHR ''/'' # r) = c"
  by (induction c) auto

lemma takeWhile_component_end: "CHR ''/'' \<notin> set c \<Longrightarrow> takeWhile (\<lambda>c. c \<noteq> CHR ''/'') c = c"
  by (induction c) auto

lemma canonical_path_loop_iff:
  "canonical_path_loop b rest \<longleftrightarrow>
     (\<exists>dirs. CHR ''/'' # rest = absolute_path (dirs @ [b]) \<and> list_all proper_component (dirs @ [b]))"
proof
  show "canonical_path_loop b rest \<Longrightarrow>
     \<exists>dirs. CHR ''/'' # rest = absolute_path (dirs @ [b]) \<and> list_all proper_component (dirs @ [b])"
  proof (induction b rest rule: canonical_path_loop.induct)
    case (1 b rest)
    define c where "c = takeWhile (\<lambda>c. c \<noteq> CHR ''/'') rest"
    have ns: "CHR ''/'' \<notin> set c" unfolding c_def by (auto dest: set_takeWhileD)
    have c: "proper_component c"
      using "1.prems" ns by (auto simp: canonical_path_loop.simps [of b rest] c_def [symmetric] proper_component_def Let_def)
    show ?case
    proof (cases "CHR ''/'' \<in> set rest")
      case True
      have r: "rest = c @ CHR ''/'' # drop (length c + 1) rest" using split_at_first [OF True] by (simp add: c_def)
      have "canonical_path_loop b (drop (length c + 1) rest)"
        using "1.prems" c True by (simp add: canonical_path_loop.simps [of b rest] c_def [symmetric] Let_def split: if_splits)
      moreover have "\<not> (c = [] \<or> c = ''.'' \<or> c = ''..'')" using c by (simp add: proper_component_def)
      ultimately obtain dirs
        where d: "CHR ''/'' # drop (length c + 1) rest = absolute_path (dirs @ [b])" "list_all proper_component (dirs @ [b])"
        using "1.IH" [OF c_def] True by blast
      have "CHR ''/'' # rest = absolute_path ((c # dirs) @ [b])"
        using d(1) by (subst r) (simp add: absolute_path_def)
      with d(2) c show ?thesis by (intro exI [of _ "c # dirs"]) simp
    next
      case False
      then have "c = rest" by (simp add: c_def takeWhile_component_end)
      moreover have "c = b" using "1.prems" c False
        by (simp add: canonical_path_loop.simps [of b rest] c_def [symmetric] Let_def proper_component_def split: if_splits)
      ultimately show ?thesis using c by (intro exI [of _ "[]"]) (simp add: absolute_path_def)
    qed
  qed
next
  assume "\<exists>dirs. CHR ''/'' # rest = absolute_path (dirs @ [b]) \<and> list_all proper_component (dirs @ [b])"
  then obtain dirs where "CHR ''/'' # rest = absolute_path (dirs @ [b])" "list_all proper_component (dirs @ [b])" by blast
  then show "canonical_path_loop b rest"
  proof (induction dirs arbitrary: rest)
    case Nil
    then have "rest = b" "proper_component b" by (simp_all add: absolute_path_def)
    then show ?case
      by (simp add: canonical_path_loop.simps [of b b] takeWhile_component_end proper_component_def)
  next
    case (Cons c dirs)
    define r where "r = tl (absolute_path (dirs @ [b]))"
    have ar: "absolute_path (dirs @ [b]) = CHR ''/'' # r" unfolding r_def by (cases dirs) (simp_all add: absolute_path_def)
    have "rest = c @ CHR ''/'' # r" using Cons.prems(1) ar by (simp add: absolute_path_def)
    moreover have "canonical_path_loop b r" using Cons.IH [OF ar [symmetric]] Cons.prems(2) by simp
    moreover have "proper_component c" using Cons.prems(2) by simp
    ultimately show ?case
      by (simp add: canonical_path_loop.simps [of b "c @ CHR ''/'' # r"] takeWhile_component proper_component_def)
  qed
qed

lemma last_absolute_path: "b \<noteq> [] \<Longrightarrow> last (absolute_path (dirs @ [b])) = last b"
  by (simp add: absolute_path_def last_append)

text \<open>
  C35: a path accepted for a file snapshot is absolute and resolved: it is the list of its
  components, each after one slash, none empty, none \<open>.\<close> or \<open>..\<close>, and the last one is the file's
  name. Every such UTF-8 path without a NUL byte and of at most 4096 bytes is accepted.
\<close>

theorem canonical_path_components:
  "valid_canonical_absolute_path (JString path) name \<longleftrightarrow>
     length path \<le> 4096 \<and> valid_utf8 path \<and> \<not> contains_nul path \<and>
     (\<exists>dirs. path = absolute_path (dirs @ [name]) \<and> list_all proper_component (dirs @ [name]))"
proof -
  have shape: "length path \<ge> 2 \<and> hd path = CHR ''/'' \<and> last path \<noteq> CHR ''/''"
    if "path = absolute_path (dirs @ [name])" "proper_component name" for dirs
  proof -
    have n1: "name \<noteq> []" "CHR ''/'' \<notin> set name" using that(2) by (simp_all add: proper_component_def)
    then have n: "name \<noteq> []" "last name \<noteq> CHR ''/''" using last_in_set [OF n1(1)] by metis+
    have "last path \<noteq> CHR ''/''" using last_absolute_path [OF n(1), of dirs] n(2) that(1) by simp
    moreover have "length path \<ge> 2" using n(1) unfolding that(1) absolute_path_def by (cases name) auto
    moreover have "hd path = CHR ''/''" unfolding that(1) absolute_path_def by (cases dirs) auto
    ultimately show ?thesis by blast
  qed
  have cons: "CHR ''/'' # tl path = path" if "length path \<ge> 2" "hd path = CHR ''/''" using that by (cases path) auto
  let ?Q = "\<exists>dirs. path = absolute_path (dirs @ [name]) \<and> list_all proper_component (dirs @ [name])"
  have s: "?Q \<Longrightarrow> 2 \<le> length path \<and> hd path = CHR ''/'' \<and> last path \<noteq> CHR ''/''" using shape by auto
  have l: "2 \<le> length path \<Longrightarrow> hd path = CHR ''/'' \<Longrightarrow> canonical_path_loop name (tl path) \<longleftrightarrow> ?Q"
    using cons by (simp add: canonical_path_loop_iff)
  have "valid_canonical_absolute_path (JString path) name \<longleftrightarrow>
     length path \<le> 4096 \<and> valid_utf8 path \<and> \<not> contains_nul path \<and>
     2 \<le> length path \<and> hd path = CHR ''/'' \<and> last path \<noteq> CHR ''/'' \<and> canonical_path_loop name (tl path)"
    by (auto simp: valid_canonical_absolute_path_def valid_string_def Let_def)
  with s l show ?thesis by blast
qed

lemma message_id_Some:
  "valid_message_id v \<longleftrightarrow> (\<exists>i. json_int64 v = Some i \<and> i \<noteq> 0 \<and> \<bar>i\<bar> \<le> 9007199254740991)"
  by (auto simp: valid_message_id_def valid_int53_def split: option.splits)

definition numbers :: "json list \<Rightarrow> int list" where
  "numbers items = map (\<lambda>v. the (json_int64 v)) items"

lemma message_ids_loop_iff:
  "message_ids_loop seen items \<longleftrightarrow>
     list_all valid_message_id items \<and> distinct (numbers items) \<and> set seen \<inter> set (numbers items) = {}"
  by (induction items arbitrary: seen) (auto simp: numbers_def message_id_Some split: option.splits)

lemma strict_ids_loop_iff:
  "strict_ids_loop previous items \<longleftrightarrow>
     list_all valid_message_id items \<and> sorted_wrt (<) (numbers items) \<and>
     (case previous of None \<Rightarrow> True | Some p \<Rightarrow> list_all (\<lambda>n. p < n) (numbers items))"
proof (induction items arbitrary: previous)
  case (Cons v items)
  show ?case
  proof (cases "json_int64 v")
    case None
    then show ?thesis by (simp add: message_id_Some)
  next
    case (Some n)
    show ?thesis using Cons.IH [of "Some n"] Some
      by (auto simp: numbers_def list_all_iff not_le split: option.splits intro: less_trans)
  qed
qed (simp add: numbers_def split: option.splits)

text \<open>
  C36: an accepted list of message ids has its length in the given bounds and holds non-zero 53-bit
  integers without repetition; the strict variant accepts exactly those of them that are sorted.
\<close>

theorem message_id_arrays:
  "(valid_message_id_array v lo hi \<longleftrightarrow>
      is_array v \<and> lo \<le> jsize v \<and> jsize v \<le> hi \<and>
      list_all (\<lambda>item. \<exists>i. json_int64 item = Some i \<and> i \<noteq> 0 \<and> \<bar>i\<bar> \<le> 9007199254740991) (items_of v) \<and>
      distinct (numbers (items_of v))) \<and>
   (valid_strict_message_id_array v lo hi \<longleftrightarrow> valid_message_id_array v lo hi \<and> sorted (numbers (items_of v)))"
proof -
  have "list_all valid_message_id items \<longleftrightarrow>
      list_all (\<lambda>item. \<exists>i. json_int64 item = Some i \<and> i \<noteq> 0 \<and> \<bar>i\<bar> \<le> 9007199254740991) items" for items
    by (simp add: list_all_iff message_id_Some)
  then show ?thesis
    by (auto simp: valid_message_id_array_def valid_strict_message_id_array_def message_ids_loop_iff
        strict_ids_loop_iff strict_sorted_iff)
qed

text \<open>The compact text of a result frame around a serialised payload.\<close>

definition result_frame :: "nat \<Rightarrow> string \<Rightarrow> string" where
  "result_frame request_id payload =
     ''{\"type\":\"result\",\"id\":'' @ to_string_nat request_id @ '',\"data\":'' @ payload @ ''}''"

lemma decimal_digits_pow: "n < 10 ^ k \<Longrightarrow> 1 \<le> k \<Longrightarrow> decimal_digits n \<le> k"
proof (induction n arbitrary: k rule: decimal_digits.induct)
  case (1 n)
  show ?case
  proof (cases "n < 10")
    case True
    then show ?thesis using "1.prems" by (simp add: decimal_digits.simps [of n])
  next
    case False
    with "1.prems" obtain j where k: "k = Suc j" "1 \<le> j" by (cases k; cases "k - 1") auto
    then have "n div 10 < 10 ^ j" using "1.prems" by (simp add: less_mult_imp_div_less mult.commute)
    with "1.IH" False k have "decimal_digits (n div 10) \<le> j" by simp
    with False k show ?thesis by (simp add: decimal_digits.simps [of n])
  qed
qed

lemma group_limits:
  "kIntentLineBytes = 134217729" "kNonVectorLineBytes = 65537" "kVectorLineBytes = 16846797"
  "kMaximumVectorLinesPerGroup = 103" "kMaximumGroupBytes = 1869634431"
proof -
  have "decimal_digits (2 ^ 64 - 1) = 20" by (simp add: decimal_digits.simps)
  then have v: "kVectorJsonBytes = 16846796"
    by (simp add: kVectorJsonBytes_def kM6TerminalBytes_def kMinimumResultPayloadBytes_def
        maximum_result_payload_bytes_def kMaximumSerializedFrameBytes_def kAuditEnvelopeBytes_def)
  then show "kIntentLineBytes = 134217729" "kNonVectorLineBytes = 65537" "kVectorLineBytes = 16846797"
    "kMaximumVectorLinesPerGroup = 103" "kMaximumGroupBytes = 1869634431"
    by (simp_all add: kIntentLineBytes_def kIntentJsonBytes_def kNonVectorLineBytes_def kNonVectorJsonBytes_def
        kVectorLineBytes_def kMaximumVectorLinesPerGroup_def kMaximumForwardProgressRecords_def kMaximumGroupBytes_def)
qed

lemma decimal_digits_mono: "m \<le> n \<Longrightarrow> decimal_digits m \<le> decimal_digits n"
proof (induction n arbitrary: m rule: decimal_digits.induct)
  case (1 n)
  then show ?case
    using "1.IH" [of "m div 10"] div_le_mono [of m n 10] decimal_digits.simps [of m] decimal_digits.simps [of n] by simp
qed

text \<open>
  C37: the payload budget of a request is exact: a result frame stays within the largest
  serialised frame exactly when its payload stays within the budget of its request identifier, and the
  budget of every 64-bit identifier is at least the one the audit limits are derived from.
\<close>

theorem result_frame_budget:
  assumes "request_id < 2 ^ 64"
  shows "(length (result_frame request_id payload) \<le> kMaximumSerializedFrameBytes \<longleftrightarrow>
       length payload \<le> maximum_result_payload_bytes request_id) \<and>
     kMinimumResultPayloadBytes \<le> maximum_result_payload_bytes request_id \<and>
     kVectorJsonBytes = 16846796"
proof -
  have "decimal_digits request_id \<le> 20" using assms by (intro decimal_digits_pow) simp_all
  moreover have "decimal_digits request_id \<le> decimal_digits (2 ^ 64 - 1)" using assms by (intro decimal_digits_mono) simp
  moreover have "decimal_digits (2 ^ 64 - 1) = 20" by (simp add: decimal_digits.simps)
  moreover have "length (result_frame request_id payload) = 31 + decimal_digits request_id + length payload"
    by (simp add: result_frame_def decimal_digits_length)
  ultimately show ?thesis
    by (simp add: maximum_result_payload_bytes_def kMinimumResultPayloadBytes_def kMaximumSerializedFrameBytes_def
        kVectorJsonBytes_def kM6TerminalBytes_def kAuditEnvelopeBytes_def) linarith
qed

theorem result_frame_budget_witness:
  "length (result_frame 7 ''null'') \<le> kMaximumSerializedFrameBytes \<longleftrightarrow> length ''null'' \<le> maximum_result_payload_bytes 7"
  using result_frame_budget [of 7 "''null''"] by simp

end
