(* ===== verification/Audit_Contract.thy ===== *)
theory Audit_Contract
  imports Audit_Values Operations
begin

text \<open>
  \<^bold>\<open>daemon/account_audit.cpp, the record contract\<close>: which arguments, plans, results and errors the audit
  log stores for each operation, which checkpoints may carry which data, and the three record validators.
  A \<open>switch\<close> over the operation is a chain of conditionals in the order of its cases. A validator's
  \<open>error\<close> out-parameter is an option: \<open>None\<close> is success, \<open>Some e\<close> a failure with that text. The text of a
  value, \<open>json::dump\<close>, is the parameter \<open>dump\<close>; \<open>None\<close> is its exception.
\<close>

subsection \<open>Arguments\<close>

definition valid_parse_mode :: "json \<Rightarrow> bool" where
  "valid_parse_mode value \<longleftrightarrow>
     json_eq value (JString ''plain'') \<or> json_eq value (JString ''markdown_v2'') \<or> json_eq value (JString ''html'')"

definition valid_duration_for :: "bool \<Rightarrow> json \<Rightarrow> bool" where
  "valid_duration_for mute value = (if mute then valid_mute_duration value else json_int64 value = Some 0)"

definition valid_message_text :: "json \<Rightarrow> bool" where
  "valid_message_text value = valid_utf8_text value kMessageTextBytes kMessageTextScalars False"

definition valid_arguments :: "audit_operation \<Rightarrow> json \<Rightarrow> bool" where
  "valid_arguments operation v =
     (if operation = A_Send then
        exact_fields v [''chat'', ''text'', ''parse_mode'', ''reply_to'', ''topic'', ''silent'', ''schedule''] \<and>
        valid_selector_string (field v ''chat'') \<and> valid_message_text (field v ''text'') \<and>
        valid_parse_mode (field v ''parse_mode'') \<and>
        (field v ''reply_to'' = JNull \<or> valid_message_id (field v ''reply_to'')) \<and>
        valid_topic (field v ''topic'') ''forum'' True \<and> is_boolean (field v ''silent'') \<and>
        valid_schedule (field v ''schedule'')
      else if operation = A_MsgEdit then
        exact_fields v [''chat'', ''message_id'', ''text''] \<and> valid_selector_string (field v ''chat'') \<and>
        valid_message_id (field v ''message_id'') \<and> valid_message_text (field v ''text'')
      else if operation = A_MsgDelete then
        exact_fields v [''chat'', ''message_ids'', ''for_all''] \<and> valid_selector_string (field v ''chat'') \<and>
        valid_strict_message_id_array (field v ''message_ids'') 1 100 \<and> is_boolean (field v ''for_all'')
      else if operation = A_MsgForward then
        exact_fields v [''from'', ''to'', ''message_ids'', ''drop_author''] \<and> valid_selector_string (field v ''from'') \<and>
        valid_selector_string (field v ''to'') \<and> valid_strict_message_id_array (field v ''message_ids'') 1 100 \<and>
        is_boolean (field v ''drop_author'')
      else if operation = A_MsgReact then
        exact_fields v [''chat'', ''message_id'', ''reaction'', ''remove'', ''big''] \<and>
        valid_selector_string (field v ''chat'') \<and> valid_message_id (field v ''message_id'') \<and>
        valid_utf8_text (field v ''reaction'') 64 64 False \<and> is_boolean (field v ''remove'') \<and>
        is_boolean (field v ''big'') \<and>
        \<not> (json_eq (field v ''remove'') (JBool True) \<and> json_eq (field v ''big'') (JBool True))
      else if operation \<in> {A_MsgPin, A_MsgUnpin} then
        exact_fields v [''chat'', ''message_id''] \<and> valid_selector_string (field v ''chat'') \<and>
        valid_message_id (field v ''message_id'')
      else if operation \<in> {A_ChatMarkRead, A_ChatPin, A_ChatUnpin, A_ChatArchive, A_ChatUnarchive, A_ChatLeave} then
        exact_fields v [''chat''] \<and> valid_selector_string (field v ''chat'')
      else if operation \<in> {A_ChatMute, A_ChatUnmute} then
        exact_fields v [''chat'', ''duration_seconds''] \<and> valid_selector_string (field v ''chat'') \<and>
        valid_duration_for (operation = A_ChatMute) (field v ''duration_seconds'')
      else if operation = A_ChatJoin then
        if exact_fields v [''source'', ''username'']
        then json_eq (field v ''source'') (JString ''username'') \<and> valid_selector_string (field v ''username'')
        else exact_fields v [''source'', ''invite_link_sha256''] \<and>
          json_eq (field v ''source'') (JString ''invite_link'') \<and> valid_hash (field v ''invite_link_sha256'')
      else if operation = A_SavedAttach then
        exact_fields v [''message_id'', ''path'', ''caption''] \<and> valid_message_id (field v ''message_id'') \<and>
        valid_argument_path (field v ''path'') \<and> valid_utf8_text (field v ''caption'') 4096 1024 True
      else if operation = A_SessionTerminate then
        exact_fields v [''session_id''] \<and> valid_session_id (field v ''session_id'')
      else case m6_operation_for_audit operation of
             None \<Rightarrow> False
           | Some m6 \<Rightarrow> valid_m6_audit_arguments m6 v)"

subsection \<open>Plans\<close>

definition expected_tdlib_functions :: "audit_operation \<Rightarrow> string list" where
  "expected_tdlib_functions operation =
     (if operation \<in> {A_Send, A_SavedAttach} then [''sendMessage'']
      else if operation = A_MsgEdit then [''editMessageText'']
      else if operation = A_MsgDelete then [''deleteMessages'']
      else if operation = A_MsgForward then [''forwardMessages'']
      else if operation = A_MsgReact then [''addMessageReaction'', ''removeMessageReaction'']
      else if operation = A_MsgPin then [''pinChatMessage'']
      else if operation = A_MsgUnpin then [''unpinChatMessage'']
      else if operation = A_ChatMarkRead then [''viewMessages'', '''']
      else if operation \<in> {A_ChatMute, A_ChatUnmute} then [''setChatNotificationSettings'']
      else if operation \<in> {A_ChatPin, A_ChatUnpin} then [''toggleChatIsPinned'']
      else if operation \<in> {A_ChatArchive, A_ChatUnarchive} then [''addChatToList'']
      else if operation = A_ChatJoin then [''joinChat'', ''joinChatByInviteLink'']
      else if operation = A_ChatLeave then [''leaveChat'']
      else if operation = A_SessionTerminate then [''terminateSession'']
      else case Option.bind (m6_operation_for_audit operation) find_policy of
             None \<Rightarrow> []
           | Some policy \<Rightarrow> take (policy_function_count policy) [fst (policy_functions policy), snd (policy_functions policy)])"

definition device_types :: "string list" where
  "device_types =
     [''android'', ''apple'', ''brave'', ''chrome'', ''edge'', ''firefox'', ''ipad'', ''iphone'', ''linux'',
      ''mac'', ''opera'', ''safari'', ''ubuntu'', ''unknown'', ''vivaldi'', ''windows'', ''xbox'']"

definition valid_session_target :: "json \<Rightarrow> bool" where
  "valid_session_target v =
     (if \<not> exact_fields v [''id'', ''is_current'', ''is_password_pending'', ''is_unconfirmed'', ''device_type'',
           ''application_name'', ''application_version'', ''device_model'', ''platform'', ''system_version'',
           ''last_active_date''] \<or>
         \<not> valid_session_id (field v ''id'') \<or> \<not> json_eq (field v ''is_current'') (JBool False) \<or>
         \<not> is_boolean (field v ''is_password_pending'') \<or> \<not> is_boolean (field v ''is_unconfirmed'') \<or>
         \<not> is_string (field v ''device_type'') \<or>
         \<not> valid_string (field v ''application_name'') kSessionStringBytes \<or>
         \<not> valid_string (field v ''application_version'') kSessionStringBytes \<or>
         \<not> valid_string (field v ''device_model'') kSessionStringBytes \<or>
         \<not> valid_string (field v ''platform'') kSessionStringBytes \<or>
         \<not> valid_string (field v ''system_version'') kSessionStringBytes
      then False
      else if string_of (field v ''device_type'') \<notin> set device_types then False
      else field v ''last_active_date'' = JNull \<or> valid_session_timestamp (field v ''last_active_date''))"

text \<open>The checks before the \<open>switch\<close> of \<open>valid_plan\<close>.\<close>

definition valid_plan_request :: "audit_operation \<Rightarrow> json \<Rightarrow> bool" where
  "valid_plan_request operation v =
     (let functions = expected_tdlib_functions operation
      in if field v ''tdlib_request'' = JNull then '''' \<in> set functions
         else is_string (field v ''tdlib_request'') \<and> string_of (field v ''tdlib_request'') \<in> set functions)"

definition valid_plan :: "audit_operation \<Rightarrow> json \<Rightarrow> string \<Rightarrow> bool" where
  "valid_plan operation v account =
     (if \<not> is_object v \<or> \<not> contains v ''operation'' \<or>
         \<not> json_eq (field v ''operation'') (JString (account_audit_operation_name operation)) \<or>
         \<not> contains v ''account'' \<or> \<not> json_eq (field v ''account'') (JString account) \<or>
         \<not> contains v ''tdlib_request'' then False
      else if \<not> valid_plan_request operation v then False
      else if operation = A_Send then
        plan_fields v [''chat'', ''text'', ''parse_mode'', ''reply_to'', ''requested_topic'', ''effective_topic'',
          ''silent'', ''schedule'', ''observed_server_unix_time''] \<and>
        valid_chat_identity (field v ''chat'') \<and> valid_message_text (field v ''text'') \<and>
        valid_parse_mode (field v ''parse_mode'') \<and>
        (field v ''reply_to'' = JNull \<or> valid_message_id (field v ''reply_to'')) \<and>
        valid_topic (field v ''requested_topic'') ''forum'' True \<and>
        valid_topic (field v ''effective_topic'') ''forum'' True \<and> is_boolean (field v ''silent'') \<and>
        valid_schedule_plan (field v ''schedule'') (field v ''observed_server_unix_time'')
      else if operation = A_MsgEdit then
        plan_fields v [''chat'', ''message_id'', ''text''] \<and> valid_chat_identity (field v ''chat'') \<and>
        valid_message_id (field v ''message_id'') \<and> valid_message_text (field v ''text'')
      else if operation = A_MsgDelete then
        if \<not> plan_fields v [''chat'', ''message_ids'', ''requested_for_all'', ''effective_for_all''] \<or>
           \<not> valid_chat_identity (field v ''chat'') \<or> \<not> valid_strict_message_id_array (field v ''message_ids'') 1 100 \<or>
           \<not> is_boolean (field v ''requested_for_all'') \<or> \<not> is_boolean (field v ''effective_for_all'')
        then False
        else if json_eq (field (field v ''chat'') ''type'') (JString ''supergroup'') \<or>
          json_eq (field (field v ''chat'') ''type'') (JString ''channel'')
        then json_eq (field v ''requested_for_all'') (JBool True) \<and> json_eq (field v ''effective_for_all'') (JBool True)
        else json_eq (field v ''effective_for_all'') (field v ''requested_for_all'')
      else if operation = A_MsgForward then
        plan_fields v [''from'', ''to'', ''message_ids'', ''drop_author''] \<and> valid_chat_identity (field v ''from'') \<and>
        valid_chat_identity (field v ''to'') \<and> valid_strict_message_id_array (field v ''message_ids'') 1 100 \<and>
        is_boolean (field v ''drop_author'')
      else if operation = A_MsgReact then
        plan_fields v [''chat'', ''message_id'', ''reaction'', ''remove'', ''big''] \<and>
        valid_chat_identity (field v ''chat'') \<and> valid_message_id (field v ''message_id'') \<and>
        valid_utf8_text (field v ''reaction'') 64 64 False \<and> is_boolean (field v ''remove'') \<and>
        is_boolean (field v ''big'') \<and>
        \<not> (json_eq (field v ''remove'') (JBool True) \<and> json_eq (field v ''big'') (JBool True)) \<and>
        json_eq (field v ''tdlib_request'')
          (JString (if json_eq (field v ''remove'') (JBool True) then ''removeMessageReaction'' else ''addMessageReaction''))
      else if operation \<in> {A_MsgPin, A_MsgUnpin} then
        plan_fields v [''chat'', ''message_id'', ''pinned''] \<and> valid_chat_identity (field v ''chat'') \<and>
        valid_message_id (field v ''message_id'') \<and> is_boolean (field v ''pinned'')
      else if operation = A_ChatMarkRead then
        plan_fields v [''chat'', ''last_message_id''] \<and> valid_chat_identity (field v ''chat'') \<and>
        (field v ''last_message_id'' = JNull \<or> valid_message_id (field v ''last_message_id'')) \<and>
        (if field v ''last_message_id'' = JNull then field v ''tdlib_request'' = JNull
         else json_eq (field v ''tdlib_request'') (JString ''viewMessages''))
      else if operation \<in> {A_ChatMute, A_ChatUnmute} then
        plan_fields v [''chat'', ''muted'', ''duration_seconds''] \<and> valid_chat_identity (field v ''chat'') \<and>
        is_boolean (field v ''muted'') \<and> json_eq (field v ''muted'') (JBool (operation = A_ChatMute)) \<and>
        valid_duration_for (operation = A_ChatMute) (field v ''duration_seconds'')
      else if operation \<in> {A_ChatPin, A_ChatUnpin} then
        plan_fields v [''chat'', ''chat_list'', ''pinned''] \<and> valid_chat_identity (field v ''chat'') \<and>
        (json_eq (field v ''chat_list'') (JString ''main'') \<or> json_eq (field v ''chat_list'') (JString ''archive'')) \<and>
        is_boolean (field v ''pinned'')
      else if operation \<in> {A_ChatArchive, A_ChatUnarchive} then
        plan_fields v [''chat'', ''archived''] \<and> valid_chat_identity (field v ''chat'') \<and> is_boolean (field v ''archived'')
      else if operation = A_ChatJoin then
        if \<not> plan_fields v [''source'', ''chat'', ''invite_link_sha256''] then False
        else if json_eq (field v ''source'') (JString ''username'') then
          json_eq (field v ''tdlib_request'') (JString ''joinChat'') \<and> valid_chat_identity (field v ''chat'') \<and>
          field v ''invite_link_sha256'' = JNull
        else json_eq (field v ''source'') (JString ''invite_link'') \<and>
          json_eq (field v ''tdlib_request'') (JString ''joinChatByInviteLink'') \<and>
          (field v ''chat'' = JNull \<or> valid_chat_identity (field v ''chat'')) \<and> valid_hash (field v ''invite_link_sha256'')
      else if operation = A_ChatLeave then
        plan_fields v [''chat''] \<and> valid_chat_identity (field v ''chat'') \<and>
        \<not> json_eq (field (field v ''chat'') ''type'') (JString ''private'')
      else if operation = A_SavedAttach then
        plan_fields v [''chat'', ''message_id'', ''effective_topic'', ''caption'', ''file''] \<and>
        valid_chat_identity (field v ''chat'') \<and> valid_message_id (field v ''message_id'') \<and>
        valid_topic (field v ''effective_topic'') ''saved'' False \<and>
        valid_utf8_text (field v ''caption'') 4096 1024 True \<and> valid_file_snapshot (field v ''file'')
      else if operation = A_SessionTerminate then
        plan_fields v [''session''] \<and> valid_session_target (field v ''session'')
      else case m6_operation_for_audit operation of
             None \<Rightarrow> False
           | Some m6 \<Rightarrow> valid_m6_audit_plan m6 v account)"

definition same_field :: "json \<Rightarrow> json \<Rightarrow> string \<Rightarrow> string \<Rightarrow> bool" where
  "same_field arguments plan a p = json_eq (field arguments a) (field plan p)"

definition arguments_match_plan :: "audit_operation \<Rightarrow> json \<Rightarrow> json \<Rightarrow> bool" where
  "arguments_match_plan operation arguments plan =
     (if operation = A_Send then
        same_field arguments plan ''text'' ''text'' \<and> same_field arguments plan ''parse_mode'' ''parse_mode'' \<and>
        same_field arguments plan ''reply_to'' ''reply_to'' \<and> same_field arguments plan ''topic'' ''requested_topic'' \<and>
        same_field arguments plan ''silent'' ''silent'' \<and> same_field arguments plan ''schedule'' ''schedule''
      else if operation = A_MsgEdit then
        same_field arguments plan ''message_id'' ''message_id'' \<and> same_field arguments plan ''text'' ''text''
      else if operation = A_MsgDelete then
        same_field arguments plan ''message_ids'' ''message_ids'' \<and> same_field arguments plan ''for_all'' ''requested_for_all''
      else if operation = A_MsgForward then
        same_field arguments plan ''message_ids'' ''message_ids'' \<and> same_field arguments plan ''drop_author'' ''drop_author''
      else if operation = A_MsgReact then
        same_field arguments plan ''message_id'' ''message_id'' \<and> same_field arguments plan ''reaction'' ''reaction'' \<and>
        same_field arguments plan ''remove'' ''remove'' \<and> same_field arguments plan ''big'' ''big''
      else if operation \<in> {A_MsgPin, A_MsgUnpin} then
        same_field arguments plan ''message_id'' ''message_id'' \<and>
        json_eq (field plan ''pinned'') (JBool (operation = A_MsgPin))
      else if operation \<in> {A_ChatMute, A_ChatUnmute} then
        same_field arguments plan ''duration_seconds'' ''duration_seconds'' \<and>
        json_eq (field plan ''muted'') (JBool (operation = A_ChatMute))
      else if operation \<in> {A_ChatPin, A_ChatUnpin} then
        json_eq (field plan ''pinned'') (JBool (operation = A_ChatPin))
      else if operation \<in> {A_ChatArchive, A_ChatUnarchive} then
        json_eq (field plan ''archived'') (JBool (operation = A_ChatArchive))
      else if operation = A_ChatJoin then
        same_field arguments plan ''source'' ''source'' \<and>
        (if json_eq (field arguments ''source'') (JString ''username'') then
           json_eq (field plan ''tdlib_request'') (JString ''joinChat'') \<and> is_object (field plan ''chat'') \<and>
           field plan ''invite_link_sha256'' = JNull
         else json_eq (field plan ''tdlib_request'') (JString ''joinChatByInviteLink'') \<and>
           json_eq (field plan ''invite_link_sha256'') (field arguments ''invite_link_sha256''))
      else if operation = A_SavedAttach then
        same_field arguments plan ''message_id'' ''message_id'' \<and> same_field arguments plan ''caption'' ''caption''
      else if operation = A_SessionTerminate then
        json_eq (field arguments ''session_id'') (field (field plan ''session'') ''id'')
      else if operation \<in> {A_ChatMarkRead, A_ChatLeave} then True
      else case m6_operation_for_audit operation of
             None \<Rightarrow> False
           | Some m6 \<Rightarrow> m6_arguments_match_plan m6 arguments plan)"

subsection \<open>Results\<close>

definition valid_message_topic :: "json \<Rightarrow> bool" where
  "valid_message_topic v =
     (if v = JNull then True
      else if \<not> exact_fields v [''kind'', ''id''] \<or> \<not> is_string (field v ''kind'') then False
      else let kind = string_of (field v ''kind'')
           in if kind \<noteq> ''forum'' \<and> kind \<noteq> ''thread'' \<and> kind \<noteq> ''direct'' \<and> kind \<noteq> ''saved'' then False
              else valid_int53 (field v ''id'') True \<and> (kind \<noteq> ''forum'' \<or> get_int64 (field v ''id'') \<le> 2 ^ 31 - 1))"

definition valid_nonzero_int53 :: "json \<Rightarrow> bool" where
  "valid_nonzero_int53 v \<longleftrightarrow> valid_int53 v False \<and> \<not> json_eq v (JInt 0)"

definition valid_message_write_result :: "json \<Rightarrow> bool" where
  "valid_message_write_result v =
     (if \<not> exact_fields v [''id'', ''chat_id'', ''date'', ''sender'', ''is_outgoing'', ''topic'', ''type'', ''text'',
           ''scheduled''] \<or>
         \<not> valid_message_id (field v ''id'') \<or> \<not> valid_int53 (field v ''chat_id'') False \<or>
         json_eq (field v ''chat_id'') (JInt 0) \<or> \<not> is_boolean (field v ''is_outgoing'') \<or>
         \<not> valid_message_topic (field v ''topic'') \<or> \<not> is_string (field v ''type'') \<or>
         \<not> valid_string (field v ''text'') kMessageTextBytes \<or> \<not> is_boolean (field v ''scheduled'') then False
      else if string_of (field v ''type'') \<notin> {''text'', ''photo'', ''video'', ''doc'', ''voice'', ''other''} then False
      else if (case utf8_scalar_count (string_of (field v ''text'')) of
                 None \<Rightarrow> True
               | Some scalars \<Rightarrow> scalars > kMessageTextScalars) \<or>
              (field v ''date'' = JNull) \<noteq> bool_of (field v ''scheduled'') then False
      else if field v ''date'' \<noteq> JNull \<and> \<not> valid_timestamp (field v ''date'') then False
      else if \<not> is_object (field v ''sender'') \<or> \<not> exact_fields (field v ''sender'') [''type'', ''id''] \<or>
              \<not> is_string (field (field v ''sender'') ''type'') then False
      else if json_eq (field (field v ''sender'') ''type'') (JString ''user'')
      then valid_int53 (field (field v ''sender'') ''id'') True
      else json_eq (field (field v ''sender'') ''type'') (JString ''chat'') \<and>
           valid_int53 (field (field v ''sender'') ''id'') False \<and>
           \<not> json_eq (field (field v ''sender'') ''id'') (JInt 0))"

definition valid_forward_item :: "json \<Rightarrow> bool" where
  "valid_forward_item v =
     (if \<not> is_object v \<or> \<not> contains v ''source_id'' \<or> \<not> valid_message_id (field v ''source_id'') \<or>
         \<not> contains v ''status'' \<or> \<not> is_string (field v ''status'') then False
      else if json_eq (field v ''status'') (JString ''pending'') then
        exact_fields v [''source_id'', ''status'', ''temporary_message_id''] \<and>
        valid_message_id (field v ''temporary_message_id'')
      else if json_eq (field v ''status'') (JString ''sent'') then
        exact_fields v [''source_id'', ''status'', ''message''] \<and> valid_message_write_result (field v ''message'')
      else if \<not> json_eq (field v ''status'') (JString ''failed'') \<or>
        \<not> exact_fields v [''source_id'', ''status'', ''failure_reason'', ''tdlib_code'', ''retry_after''] \<or>
        \<not> is_string (field v ''failure_reason'') then False
      else let reason = string_of (field v ''failure_reason'');
               code_valid = (field v ''tdlib_code'' = JNull \<or> valid_int32 (field v ''tdlib_code''));
               retry_valid = (field v ''retry_after'' = JNull \<or> valid_nonnegative_int32 (field v ''retry_after''))
           in if reason \<noteq> ''upstream_null'' \<and> reason \<noteq> ''tdlib_error'' \<and> reason \<noteq> ''deleted_before_confirmation'' then False
              else if \<not> code_valid \<or> \<not> retry_valid then False
              else if reason \<noteq> ''tdlib_error'' then field v ''tdlib_code'' = JNull \<and> field v ''retry_after'' = JNull
              else if field v ''tdlib_code'' = JNull then False
              else if json_eq (field v ''tdlib_code'') (JInt 429) then field v ''retry_after'' \<noteq> JNull
              else field v ''retry_after'' = JNull)"

fun sent_items_loop :: "int option \<Rightarrow> json list \<Rightarrow> bool" where
  "sent_items_loop previous [] = True"
| "sent_items_loop previous (item # items) =
     (if \<not> valid_forward_item item \<or> \<not> json_eq (field item ''status'') (JString ''sent'') then False
      else case json_int64 (field item ''source_id'') of
             None \<Rightarrow> False
           | Some source \<Rightarrow>
               if (case previous of None \<Rightarrow> False | Some p \<Rightarrow> source \<le> p) then False
               else sent_items_loop (Some source) items)"

definition valid_result_data :: "audit_operation \<Rightarrow> json \<Rightarrow> bool" where
  "valid_result_data operation v =
     (if operation \<in> {A_Send, A_MsgEdit, A_SavedAttach} then valid_message_write_result v
      else if operation = A_MsgDelete then
        exact_fields v [''chat_id'', ''message_ids'', ''for_all'', ''deleted''] \<and> valid_nonzero_int53 (field v ''chat_id'') \<and>
        valid_strict_message_id_array (field v ''message_ids'') 1 100 \<and> is_boolean (field v ''for_all'') \<and>
        json_eq (field v ''deleted'') (JBool True)
      else if operation = A_MsgForward then
        if \<not> exact_fields v [''from_chat_id'', ''to_chat_id'', ''items''] \<or> \<not> valid_int53 (field v ''from_chat_id'') False \<or>
           json_eq (field v ''from_chat_id'') (JInt 0) \<or> \<not> valid_int53 (field v ''to_chat_id'') False \<or>
           json_eq (field v ''to_chat_id'') (JInt 0) \<or> \<not> is_array (field v ''items'') \<or>
           jempty (field v ''items'') \<or> jsize (field v ''items'') > kForwardItemCount then False
        else sent_items_loop None (items_of (field v ''items''))
      else if operation = A_MsgReact then
        exact_fields v [''chat_id'', ''message_id'', ''reaction'', ''removed'', ''big''] \<and>
        valid_nonzero_int53 (field v ''chat_id'') \<and> valid_message_id (field v ''message_id'') \<and>
        valid_utf8_text (field v ''reaction'') 64 64 False \<and> is_boolean (field v ''removed'') \<and> is_boolean (field v ''big'')
      else if operation \<in> {A_MsgPin, A_MsgUnpin} then
        exact_fields v [''chat_id'', ''message_id'', ''pinned''] \<and> valid_nonzero_int53 (field v ''chat_id'') \<and>
        valid_message_id (field v ''message_id'') \<and> is_boolean (field v ''pinned'') \<and>
        json_eq (field v ''pinned'') (JBool (operation = A_MsgPin))
      else if operation = A_ChatMarkRead then
        exact_fields v [''chat_id'', ''last_read_message_id'', ''marked_read''] \<and> valid_nonzero_int53 (field v ''chat_id'') \<and>
        (field v ''last_read_message_id'' = JNull \<or> valid_message_id (field v ''last_read_message_id'')) \<and>
        json_eq (field v ''marked_read'') (JBool True)
      else if operation \<in> {A_ChatMute, A_ChatUnmute} then
        exact_fields v [''chat_id'', ''muted'', ''duration_seconds''] \<and> valid_nonzero_int53 (field v ''chat_id'') \<and>
        is_boolean (field v ''muted'') \<and> json_eq (field v ''muted'') (JBool (operation = A_ChatMute)) \<and>
        valid_duration_for (operation = A_ChatMute) (field v ''duration_seconds'')
      else if operation \<in> {A_ChatPin, A_ChatUnpin} then
        exact_fields v [''chat_id'', ''chat_list'', ''pinned''] \<and> valid_nonzero_int53 (field v ''chat_id'') \<and>
        (json_eq (field v ''chat_list'') (JString ''main'') \<or> json_eq (field v ''chat_list'') (JString ''archive'')) \<and>
        is_boolean (field v ''pinned'') \<and> json_eq (field v ''pinned'') (JBool (operation = A_ChatPin))
      else if operation \<in> {A_ChatArchive, A_ChatUnarchive} then
        exact_fields v [''chat_id'', ''archived''] \<and> valid_nonzero_int53 (field v ''chat_id'') \<and>
        is_boolean (field v ''archived'') \<and> json_eq (field v ''archived'') (JBool (operation = A_ChatArchive))
      else if operation = A_ChatJoin then
        if exact_fields v [''status'', ''chat_id''] \<and> json_eq (field v ''status'') (JString ''joined'')
        then valid_nonzero_int53 (field v ''chat_id'')
        else exact_fields v [''status'', ''chat_id''] \<and> json_eq (field v ''status'') (JString ''request_sent'') \<and>
          (field v ''chat_id'' = JNull \<or> valid_nonzero_int53 (field v ''chat_id''))
      else if operation = A_ChatLeave then
        exact_fields v [''chat_id'', ''left''] \<and> valid_nonzero_int53 (field v ''chat_id'') \<and>
        json_eq (field v ''left'') (JBool True)
      else if operation = A_SessionTerminate then
        exact_fields v [''session_id'', ''terminated''] \<and> valid_session_id (field v ''session_id'') \<and>
        json_eq (field v ''terminated'') (JBool True)
      else case m6_operation_for_audit operation of
             None \<Rightarrow> False
           | Some m6 \<Rightarrow> valid_m6_audit_result m6 v)"

subsection \<open>The tree walk\<close>

text \<open>The vector \<open>pending\<close> is a stack whose top is the head of the list; the members of an object are pushed
  after the check of each key, so a bad key ends the walk as it ends the loop.\<close>

definition bad_key :: "string \<Rightarrow> bool" where
  "bad_key key \<longleftrightarrow> \<not> valid_utf8 key \<or> contains_nul key \<or> key = ''idempotency_key'' \<or> key = ''invite''"

function json_tree_loop :: "(json \<times> nat) list \<Rightarrow> nat \<Rightarrow> bool" where
  "json_tree_loop [] nodes = True"
| "json_tree_loop ((current, depth) # pending) nodes =
     (if depth > 32 \<or> nodes + 1 > 16384 then False
      else if is_string current then
        if \<not> valid_string current kRequestSourceBytes \<or> contains_nul (string_of current) then False
        else json_tree_loop pending (nodes + 1)
      else if is_array current then
        json_tree_loop (rev (map (\<lambda>item. (item, depth + 1)) (items_of current)) @ pending) (nodes + 1)
      else if \<not> is_object current then json_tree_loop pending (nodes + 1)
      else if list_ex (\<lambda>member. bad_key (fst member)) (members_of current) then False
      else json_tree_loop (rev (map (\<lambda>member. (snd member, depth + 1)) (members_of current)) @ pending) (nodes + 1))"
  by pat_completeness auto
termination
  by (relation "measure (\<lambda>(pending, nodes). 16385 - nodes)") auto

definition valid_json_tree :: "json \<Rightarrow> bool" where
  "valid_json_tree value = json_tree_loop [(value, 0)] 0"

subsection \<open>Stored errors\<close>

definition auth_states :: "string list" where
  "auth_states =
     [''unknown'', ''wait_tdlib_parameters'', ''wait_phone_number'', ''wait_premium_purchase'', ''wait_email_address'',
      ''wait_email_code'', ''wait_code'', ''wait_other_device_confirmation'', ''wait_registration'', ''wait_password'',
      ''ready'', ''logging_out'', ''closing'', ''closed'']"

definition valid_auth_state :: "json \<Rightarrow> bool \<Rightarrow> bool" where
  "valid_auth_state value nullable =
     (if nullable \<and> value = JNull then True
      else if \<not> is_string value then False
      else string_of value \<in> set auth_states)"

definition valid_operation_field :: "audit_operation \<Rightarrow> json \<Rightarrow> bool" where
  "valid_operation_field operation details \<longleftrightarrow>
     contains details ''operation'' \<and> is_string (field details ''operation'') \<and>
     json_eq (field details ''operation'') (JString (account_audit_operation_name operation))"

fun forward_items_loop :: "bool \<Rightarrow> int option \<Rightarrow> int list \<Rightarrow> int list \<Rightarrow> json list \<Rightarrow> bool" where
  "forward_items_loop require_terminal previous temporary_ids final_ids [] = True"
| "forward_items_loop require_terminal previous temporary_ids final_ids (item # items) =
     (if \<not> valid_forward_item item then False
      else case json_int64 (field item ''source_id'') of
             None \<Rightarrow> False
           | Some source \<Rightarrow>
               if (case previous of None \<Rightarrow> False | Some p \<Rightarrow> source \<le> p) \<or>
                  require_terminal \<and> json_eq (field item ''status'') (JString ''pending'') then False
               else if json_eq (field item ''status'') (JString ''pending'') then
                 (case json_int64 (field item ''temporary_message_id'') of
                    None \<Rightarrow> False
                  | Some temporary \<Rightarrow>
                      if temporary \<in> set temporary_ids then False
                      else forward_items_loop require_terminal (Some source) (temporary # temporary_ids) final_ids items)
               else if json_eq (field item ''status'') (JString ''sent'') then
                 (case json_int64 (field (field item ''message'') ''id'') of
                    None \<Rightarrow> False
                  | Some final_id \<Rightarrow>
                      if final_id \<in> set final_ids then False
                      else forward_items_loop require_terminal (Some source) temporary_ids (final_id # final_ids) items)
               else forward_items_loop require_terminal (Some source) temporary_ids final_ids items)"

definition valid_forward_items :: "json \<Rightarrow> bool \<Rightarrow> bool \<Rightarrow> bool" where
  "valid_forward_items items allow_empty require_terminal =
     (if \<not> is_array items \<or> \<not> allow_empty \<and> jempty items \<or> jsize items > kForwardItemCount then False
      else forward_items_loop require_terminal None [] [] (items_of items))"

definition item_status :: "json \<Rightarrow> string \<Rightarrow> bool" where
  "item_status item status = json_eq (field item ''status'') (JString status)"

definition valid_forward_timeout_items :: "json \<Rightarrow> bool" where
  "valid_forward_timeout_items items \<longleftrightarrow>
     valid_forward_items items True False \<and>
     (jempty items \<or> list_ex (\<lambda>item. item_status item ''pending'') (items_of items))"

text \<open>The body of the four nested loops: the complete stage sequence for one choice of the four flags.\<close>

definition complete_stages :: "audit_operation \<Rightarrow> bool \<Rightarrow> bool \<Rightarrow> bool \<Rightarrow> bool \<Rightarrow> audit_stage list" where
  "complete_stages operation keyed temporary progress mutation_proof =
     (if keyed \<and> write_operation_idempotent (Some operation) then [IdempotencyPending] else []) @
     (if operation = A_SavedAttach \<or> write_operation_uses_photo_spool (Some operation) \<and> temporary
      then [SpoolReady] else []) @
     [DispatchStarted] @
     (if temporary \<and> (operation = A_Send \<or> operation = A_SavedAttach \<or> operation = A_MsgForward)
      then [TemporaryIdsObserved] else []) @
     (if progress \<and> operation = A_MsgForward then [ForwardProgress] else []) @
     (if mutation_proof then [MutationConfirmed] else [])"

definition is_stage_prefix :: "audit_stage list \<Rightarrow> audit_stage list \<Rightarrow> bool" where
  "is_stage_prefix completed full \<longleftrightarrow>
     length completed \<le> length full \<and> take (length completed) full = completed"

definition legal_completed_stages :: "audit_operation \<Rightarrow> audit_stage list \<Rightarrow> bool" where
  "legal_completed_stages operation completed =
     (if completed = [] then True
      else list_ex (\<lambda>keyed. list_ex (\<lambda>temporary. list_ex (\<lambda>progress. list_ex (\<lambda>mutation_proof.
             is_stage_prefix completed (complete_stages operation keyed temporary progress mutation_proof))
             [False, True]) [False, True]) [False, True]) [False, True])"

text \<open>The loop that parses a list of stage names and refuses repetitions.\<close>

fun stages_loop :: "audit_stage list \<Rightarrow> json list \<Rightarrow> audit_stage list option" where
  "stages_loop completed [] = Some completed"
| "stages_loop completed (item # items) =
     (if \<not> is_string item then None
      else case parse_account_audit_stage (string_of item) of
             None \<Rightarrow> None
           | Some stage \<Rightarrow> if stage \<in> set completed then None else stages_loop (completed @ [stage]) items)"

definition mutation_names :: "string list" where
  "mutation_names = [''none'', ''possible'', ''confirmed'']"

definition valid_audit_incomplete_details :: "audit_operation \<Rightarrow> json \<Rightarrow> bool" where
  "valid_audit_incomplete_details operation details =
     (if \<not> exact_fields details [''account'', ''path'', ''mutation_state'', ''completed_stages''] \<or>
         \<not> is_string (field details ''account'') \<or> \<not> valid_account_name (string_of (field details ''account'')) \<or>
         \<not> valid_selector_string (field details ''path'') \<or> \<not> is_string (field details ''mutation_state'') \<or>
         \<not> is_array (field details ''completed_stages'') then False
      else let mutation = string_of (field details ''mutation_state'')
           in if mutation \<notin> set mutation_names then False
              else case stages_loop [] (items_of (field details ''completed_stages'')) of
                     None \<Rightarrow> False
                   | Some completed \<Rightarrow>
                       if \<not> legal_completed_stages operation completed then False
                       else if DispatchStarted \<notin> set completed then mutation = ''none''
                       else if MutationConfirmed \<in> set completed then mutation = ''confirmed''
                       else if ForwardProgress \<in> set completed then mutation \<in> set mutation_names
                       else mutation = ''possible'')"

definition timeout_fields :: "string list" where
  "timeout_fields = [''operation'', ''phase'', ''state'', ''outcome'', ''idempotency'']"

definition valid_timeout_details :: "audit_operation \<Rightarrow> json \<Rightarrow> bool" where
  "valid_timeout_details operation details =
     (if operation = A_SessionTerminate then
        exact_fields details timeout_fields \<and> valid_operation_field operation details \<and>
        valid_auth_state (field details ''state'') True \<and>
        (json_eq (field details ''phase'') (JString ''preflight'') \<or> json_eq (field details ''phase'') (JString ''dispatch'')) \<and>
        json_eq (field details ''outcome'')
          (JString (if json_eq (field details ''phase'') (JString ''preflight'') then ''not_started'' else ''unknown'')) \<and>
        json_eq (field details ''idempotency'') (JString ''not_requested'')
      else if \<not> valid_operation_field operation details \<or> \<not> contains details ''phase'' \<or>
        \<not> is_string (field details ''phase'') \<or> \<not> contains details ''state'' \<or>
        \<not> valid_auth_state (field details ''state'') True \<or> \<not> contains details ''outcome'' \<or>
        \<not> is_string (field details ''outcome'') \<or> \<not> contains details ''idempotency'' \<or>
        \<not> is_string (field details ''idempotency'') then False
      else let idempotency = string_of (field details ''idempotency'')
           in if json_eq (field details ''phase'') (JString ''preflight'') then
                exact_fields details timeout_fields \<and> json_eq (field details ''outcome'') (JString ''not_started'') \<and>
                (idempotency = ''not_requested'' \<or> idempotency = ''not_created'' \<or> idempotency = ''removed'')
              else if json_eq (field details ''phase'') (JString ''replay_confirmation'') then
                exact_fields details timeout_fields \<and> (operation = A_MsgDelete \<or> operation = A_ChatLeave) \<and>
                json_eq (field details ''outcome'') (JString ''not_started'') \<and> idempotency = ''completed_unchanged''
              else if json_eq (field details ''phase'') (JString ''dispatch'') then
                (operation \<noteq> A_Send \<and> operation \<noteq> A_SavedAttach \<and> operation \<noteq> A_MsgForward) \<and>
                exact_fields details timeout_fields \<and> json_eq (field details ''outcome'') (JString ''unknown'') \<and>
                (idempotency = ''not_requested'' \<or> idempotency = ''pending'')
              else if \<not> json_eq (field details ''phase'') (JString ''confirmation'') \<or>
                \<not> json_eq (field details ''outcome'') (JString ''unknown'') \<or>
                idempotency \<noteq> ''not_requested'' \<and> idempotency \<noteq> ''pending'' then False
              else if operation = A_MsgForward then
                exact_fields details (timeout_fields @ [''items'']) \<and> valid_forward_timeout_items (field details ''items'')
              else (operation = A_Send \<or> operation = A_SavedAttach) \<and>
                exact_fields details (timeout_fields @ [''temporary_message_id'']) \<and>
                (field details ''temporary_message_id'' = JNull \<or> valid_message_id (field details ''temporary_message_id'')))"

text \<open>The loop over rate-limited items: the largest \<open>retry_after\<close>, \<open>None\<close> for the early \<open>false\<close>.\<close>

fun rate_limit_loop :: "int \<Rightarrow> json list \<Rightarrow> int option" where
  "rate_limit_loop maximum_retry [] = Some maximum_retry"
| "rate_limit_loop maximum_retry (item # items) =
     (if \<not> item_status item ''failed'' \<or> \<not> json_eq (field item ''failure_reason'') (JString ''tdlib_error'') \<or>
         \<not> json_eq (field item ''tdlib_code'') (JInt 429) \<or> \<not> valid_nonnegative_int32 (field item ''retry_after'') then None
      else rate_limit_loop
        (max maximum_retry (case json_int64 (field item ''retry_after'') of None \<Rightarrow> 0 | Some r \<Rightarrow> r)) items)"

definition valid_forward_error_details :: "string \<Rightarrow> json \<Rightarrow> bool" where
  "valid_forward_error_details code details =
     (if code = ''RATE_LIMITED'' then
        if \<not> exact_fields details [''operation'', ''tdlib_code'', ''retry_after'', ''items''] \<or>
           \<not> json_eq (field details ''operation'') (JString ''msg_forward'') \<or>
           \<not> json_eq (field details ''tdlib_code'') (JInt 429) \<or>
           \<not> valid_nonnegative_int32 (field details ''retry_after'') \<or>
           \<not> valid_forward_items (field details ''items'') True True then False
        else if jempty (field details ''items'') then True
        else (case rate_limit_loop 0 (items_of (field details ''items'')) of
                None \<Rightarrow> False
              | Some maximum_retry \<Rightarrow> json_eq (field details ''retry_after'') (JInt maximum_retry))
      else if \<not> exact_fields details [''operation'', ''from_chat_id'', ''to_chat_id'', ''items''] \<or>
        \<not> json_eq (field details ''operation'') (JString ''msg_forward'') \<or>
        \<not> valid_int53 (field details ''from_chat_id'') False \<or> json_eq (field details ''from_chat_id'') (JInt 0) \<or>
        \<not> valid_int53 (field details ''to_chat_id'') False \<or> json_eq (field details ''to_chat_id'') (JInt 0) \<or>
        \<not> valid_forward_items (field details ''items'') False True then False
      else let sent = length (filter (\<lambda>item. item_status item ''sent'') (items_of (field details ''items'')))
           in if code = ''FORWARD_PARTIAL'' then sent > 0 \<and> sent < jsize (field details ''items'') else sent = 0)"

definition stored_error_messages :: "(string \<times> string list) list" where
  "stored_error_messages =
     [(''AUDIT_INCOMPLETE'', [''a prior audited invocation did not reach a terminal proof'']),
      (''TIMEOUT'', [''request timed out'']),
      (''DAEMON_SHUTDOWN'', [''daemon is shutting down'']),
      (''NOT_AUTHED'', [''authorization was lost'']),
      (''TDLIB_ERROR'', [''Telegram request failed'']),
      (''RATE_LIMITED'', [''Telegram rate limit exceeded'']),
      (''INTERNAL'', [''internal error'', ''TDLib returned data outside the supported persistence bounds'',
         ''TDLib returned malformed session data'', ''TDLib returned a malformed response'']),
      (''SEND_FAILED'', [''message was deleted before confirmation'']),
      (''FORWARD_FAILED'', [''messages could not be forwarded'']),
      (''FORWARD_PARTIAL'', [''some messages could not be forwarded'']),
      (''JOIN_APPROVAL_REQUIRED'', [''join request requires approval'']),
      (''JOIN_DECLINED'', [''join request was declined'']),
      (''INPUT_CHANGED'', [''input file changed while being read'']),
      (''SPOOL_UNAVAILABLE'', [''attachment spool is unavailable'']),
      (''PRECONDITION_FAILED'', [''operation precondition failed''])]"

definition valid_stored_error_message :: "string \<Rightarrow> json \<Rightarrow> bool" where
  "valid_stored_error_message code message =
     (if \<not> is_string message then False
      else case map_of stored_error_messages code of
             None \<Rightarrow> False
           | Some texts \<Rightarrow> string_of message \<in> set texts)"

definition kGeneric :: int where "kGeneric = 1"
definition kNotAuthed :: int where "kNotAuthed = 3"
definition kRateLimited :: int where "kRateLimited = 5"
definition kTimeout :: int where "kTimeout = 7"

definition precondition_reasons :: "string list" where
  "precondition_reasons =
     [''not_editable'', ''not_deletable_for_self'', ''not_deletable_for_all'', ''not_forwardable'', ''not_copyable'',
      ''not_pinnable'', ''not_replyable'', ''wrong_content_type'', ''wrong_chat_type'', ''wrong_topic'',
      ''chat_not_listed'', ''saved_notifications_unsupported'', ''online_schedule_unsupported'',
      ''schedule_window_elapsed'', ''schedule_too_far'', ''reply_markup_preservation_unsupported'', ''reaction_unavailable'']"

definition allowed_precondition_reasons :: "audit_operation \<Rightarrow> string list" where
  "allowed_precondition_reasons operation =
     (if operation = A_Send then
        [''not_replyable'', ''wrong_topic'', ''online_schedule_unsupported'', ''schedule_window_elapsed'', ''schedule_too_far'']
      else if operation = A_MsgEdit then [''not_editable'', ''wrong_content_type'', ''reply_markup_preservation_unsupported'']
      else if operation = A_MsgDelete then [''not_deletable_for_self'', ''not_deletable_for_all'']
      else if operation = A_MsgForward then [''not_forwardable'', ''not_copyable'']
      else if operation = A_MsgReact then [''reaction_unavailable'']
      else if operation = A_MsgPin then [''not_pinnable'']
      else if operation \<in> {A_ChatMute, A_ChatUnmute} then [''saved_notifications_unsupported'']
      else if operation \<in> {A_ChatPin, A_ChatUnpin} then [''chat_not_listed'']
      else if operation = A_ChatLeave then [''wrong_chat_type'']
      else if operation = A_SavedAttach then [''wrong_content_type'', ''wrong_topic'']
      else [])"

definition valid_internal_details :: "audit_operation \<Rightarrow> json \<Rightarrow> json \<Rightarrow> bool" where
  "valid_internal_details operation message details =
     (if operation = A_SessionTerminate then
        exact_fields details [''operation'', ''reason'', ''tdlib_type_id''] \<and>
        json_eq (field details ''reason'') (JString ''malformed_tdlib_response'') \<and>
        (field details ''tdlib_type_id'' = JNull \<or> valid_int32 (field details ''tdlib_type_id''))
      else if m6_operation_for_audit operation \<noteq> None then
        exact_fields details [''operation'', ''reason''] \<and>
        (json_eq (field details ''reason'') (JString ''internal_error'') \<and> json_eq message (JString ''internal error'') \<or>
         json_eq (field details ''reason'') (JString ''malformed_tdlib_response'') \<and>
         json_eq message (JString ''TDLib returned a malformed response''))
      else exact_fields details [''operation'', ''reason''] \<and>
        json_eq (field details ''reason'') (JString ''internal_error''))"

definition valid_precondition_details :: "audit_operation \<Rightarrow> json \<Rightarrow> bool" where
  "valid_precondition_details operation details =
     (if \<not> exact_fields details [''operation'', ''chat_id'', ''message_id'', ''reason''] \<or>
         \<not> valid_operation_field operation details \<or>
         \<not> (field details ''chat_id'' = JNull \<or> valid_nonzero_int53 (field details ''chat_id'')) \<or>
         \<not> (field details ''message_id'' = JNull \<or> valid_message_id (field details ''message_id'')) \<or>
         \<not> is_string (field details ''reason'') then False
      else let reason = string_of (field details ''reason'')
           in if reason \<notin> set precondition_reasons then False
              else reason \<in> set (allowed_precondition_reasons operation))"

text \<open>The conditions on \<open>details\<close> and \<open>exit\<close> that \<open>valid_stored_error\<close> tests per code.\<close>

definition valid_error_details :: "audit_operation \<Rightarrow> string \<Rightarrow> json \<Rightarrow> json \<Rightarrow> int \<Rightarrow> bool" where
  "valid_error_details operation code message details exit =
     (if code = ''AUDIT_INCOMPLETE'' then
        exit = kGeneric \<and> json_eq message (JString ''a prior audited invocation did not reach a terminal proof'') \<and>
        valid_audit_incomplete_details operation details
      else if code = ''TIMEOUT'' then exit = kTimeout \<and> valid_timeout_details operation details
      else if code = ''DAEMON_SHUTDOWN'' then
        exit = kGeneric \<and> exact_fields details [''reason''] \<and> json_eq (field details ''reason'') (JString ''daemon_shutdown'')
      else if code = ''NOT_AUTHED'' then
        exit = kNotAuthed \<and> exact_fields details [''account'', ''state'', ''reason''] \<and>
        is_string (field details ''account'') \<and> valid_account_name (string_of (field details ''account'')) \<and>
        valid_auth_state (field details ''state'') False \<and> json_eq (field details ''reason'') (JString ''authorization_lost'')
      else if code = ''TDLIB_ERROR'' then
        exit = kGeneric \<and> exact_fields details [''operation'', ''tdlib_code''] \<and>
        valid_operation_field operation details \<and> valid_int32 (field details ''tdlib_code'')
      else if code = ''RATE_LIMITED'' then
        if exit \<noteq> kRateLimited then False
        else if operation = A_MsgForward \<and> contains details ''items'' then valid_forward_error_details code details
        else exact_fields details [''operation'', ''tdlib_code'', ''retry_after''] \<and> valid_operation_field operation details \<and>
          json_eq (field details ''tdlib_code'') (JInt 429) \<and> valid_nonnegative_int32 (field details ''retry_after'')
      else if code = ''INTERNAL'' then
        if exit \<noteq> kGeneric \<or> \<not> valid_operation_field operation details then False
        else valid_internal_details operation message details
      else if code = ''SEND_FAILED'' then
        exit = kGeneric \<and> (operation = A_Send \<or> operation = A_SavedAttach) \<and>
        exact_fields details [''operation'', ''chat_id'', ''temporary_message_id'', ''reason''] \<and>
        valid_operation_field operation details \<and> valid_nonzero_int53 (field details ''chat_id'') \<and>
        valid_message_id (field details ''temporary_message_id'') \<and>
        json_eq (field details ''reason'') (JString ''deleted_before_confirmation'')
      else if code = ''FORWARD_FAILED'' \<or> code = ''FORWARD_PARTIAL'' then
        exit = kGeneric \<and> operation = A_MsgForward \<and> valid_forward_error_details code details
      else if code = ''JOIN_APPROVAL_REQUIRED'' then
        exit = kGeneric \<and> operation = A_ChatJoin \<and> exact_fields details [''operation'', ''bot_user_id'', ''query_id''] \<and>
        valid_operation_field operation details \<and> valid_int53 (field details ''bot_user_id'') True \<and>
        valid_int53 (field details ''query_id'') True
      else if code = ''JOIN_DECLINED'' then
        exit = kGeneric \<and> operation = A_ChatJoin \<and> exact_fields details [''operation''] \<and>
        valid_operation_field operation details
      else if code = ''INPUT_CHANGED'' then
        exit = kGeneric \<and> operation = A_SavedAttach \<and> exact_fields details [''operation'', ''path''] \<and>
        valid_operation_field operation details \<and> valid_argument_path (field details ''path'')
      else if code = ''SPOOL_UNAVAILABLE'' then
        if operation \<noteq> A_SavedAttach \<and> \<not> write_operation_uses_photo_spool (Some operation) \<or>
           exit \<noteq> kGeneric \<or> \<not> exact_fields details [''operation'', ''path'', ''reason''] \<or>
           \<not> valid_operation_field operation details \<or> \<not> valid_argument_path (field details ''path'') \<or>
           \<not> is_string (field details ''reason'') then False
        else list_ex (\<lambda>item. snd item = string_of (field details ''reason'')) kDurabilityReasons
      else if code = ''PRECONDITION_FAILED'' then
        if exit \<noteq> kGeneric then False else valid_precondition_details operation details
      else False)"

definition valid_stored_error :: "audit_operation \<Rightarrow> json \<Rightarrow> bool" where
  "valid_stored_error operation v =
     (if \<not> exact_fields v [''kind'', ''code'', ''message'', ''details'', ''exit_code''] \<or>
         \<not> json_eq (field v ''kind'') (JString ''error'') \<or> \<not> is_string (field v ''code'') \<or>
         \<not> is_object (field v ''details'') \<or> \<not> valid_int32 (field v ''exit_code'') then False
      else if \<not> valid_json_tree v then False
      else if \<not> valid_stored_error_message (string_of (field v ''code'')) (field v ''message'') then False
      else valid_error_details operation (string_of (field v ''code'')) (field v ''message'') (field v ''details'')
             (case json_int64 (field v ''exit_code'') of None \<Rightarrow> 0 | Some exit \<Rightarrow> exit))"

definition valid_terminal :: "audit_operation \<Rightarrow> json \<Rightarrow> bool" where
  "valid_terminal operation v =
     (if exact_fields v [''kind'', ''data'']
      then json_eq (field v ''kind'') (JString ''result'') \<and> valid_json_tree v \<and> valid_result_data operation (field v ''data'')
      else valid_stored_error operation v)"

text \<open>For a forward that timed out the source reads \<open>terminal["details"]["items"]\<close> without asking whether the
  member exists. Reading an absent member of a constant object is undefined in the JSON library: the
  result is \<open>None\<close> there. Where the recovery asks for the proof, an undefined answer counts as none.\<close>

definition terminal_proves_mutation_checked :: "audit_operation \<Rightarrow> json \<Rightarrow> bool option" where
  "terminal_proves_mutation_checked operation terminal =
     (if \<not> valid_terminal operation terminal then Some False
      else if json_eq (field terminal ''kind'') (JString ''result'') then Some True
      else let code = string_of (field terminal ''code'')
           in if operation = A_MsgForward then
                if code = ''TIMEOUT''
                then if contains (field terminal ''details'') ''items''
                  then Some (list_ex (\<lambda>item. item_status item ''sent'') (items_of (field (field terminal ''details'') ''items'')))
                  else None
                else Some (code = ''FORWARD_PARTIAL'' \<or> code = ''INTERNAL'')
              else Some (code = ''INTERNAL'' \<and> (operation = A_Send \<or> operation = A_MsgEdit \<or> operation = A_SavedAttach)))"

definition terminal_proves_mutation :: "audit_operation \<Rightarrow> json \<Rightarrow> bool" where
  "terminal_proves_mutation operation terminal \<longleftrightarrow> terminal_proves_mutation_checked operation terminal = Some True"

definition terminal_proves_explicit_no_mutation :: "audit_operation \<Rightarrow> json \<Rightarrow> bool" where
  "terminal_proves_explicit_no_mutation operation terminal =
     (if \<not> valid_terminal operation terminal \<or> \<not> json_eq (field terminal ''kind'') (JString ''error'') then False
      else let code = string_of (field terminal ''code'')
           in if operation = A_ChatJoin then code = ''JOIN_APPROVAL_REQUIRED'' \<or> code = ''JOIN_DECLINED''
              else (operation = A_Send \<or> operation = A_SavedAttach) \<and> (code = ''TDLIB_ERROR'' \<or> code = ''RATE_LIMITED''))"

definition terminal_byte_ceiling :: "audit_operation \<Rightarrow> nat" where
  "terminal_byte_ceiling operation =
     (if operation = A_MsgForward then kForwardTerminalBytes
      else if operation = A_Send \<or> operation = A_MsgEdit \<or> operation = A_SavedAttach then kSingleMessageTerminalBytes
      else if m6_operation_for_audit operation \<noteq> None then kM6TerminalBytes
      else kOtherTerminalBytes)"

subsection \<open>Checkpoints and records\<close>

definition valid_checkpoint_data :: "audit_operation \<Rightarrow> audit_stage \<Rightarrow> json \<Rightarrow> bool" where
  "valid_checkpoint_data operation stage v =
     (case stage of
        IdempotencyPending \<Rightarrow>
          write_operation_idempotent (Some operation) \<and>
          exact_fields v [''key_hash'', ''request_fingerprint'', ''expires_at'', ''reserved_terminal_bytes''] \<and>
          valid_hash (field v ''key_hash'') \<and> valid_hash (field v ''request_fingerprint'') \<and>
          is_number_unsigned (field v ''expires_at'') \<and> is_number_unsigned (field v ''reserved_terminal_bytes'')
      | SpoolReady \<Rightarrow>
          (operation = A_SavedAttach \<or> write_operation_uses_photo_spool (Some operation)) \<and>
          exact_fields v [''file'', ''relative_path''] \<and> valid_file_snapshot (field v ''file'') \<and>
          valid_string (field v ''relative_path'') 4096
      | DispatchStarted \<Rightarrow>
          exact_fields v [''tdlib_function'', ''dispatch_token'', ''client_generation''] \<and>
          is_string (field v ''tdlib_function'') \<and> string_of (field v ''tdlib_function'') \<noteq> [] \<and>
          string_of (field v ''tdlib_function'') \<in> set (expected_tdlib_functions operation) \<and>
          is_string (field v ''dispatch_token'') \<and> valid_hex (string_of (field v ''dispatch_token'')) 32 \<and>
          is_number_unsigned (field v ''client_generation'')
      | TemporaryIdsObserved \<Rightarrow>
          (operation = A_Send \<or> operation = A_SavedAttach \<or> operation = A_MsgForward) \<and>
          exact_fields v [''temporary_message_ids''] \<and> valid_message_id_array (field v ''temporary_message_ids'') 1 100
      | ForwardProgress \<Rightarrow>
          operation = A_MsgForward \<and> exact_fields v [''items''] \<and> valid_forward_items (field v ''items'') False False
      | MutationConfirmed \<Rightarrow>
          exact_fields v [''terminal''] \<and> terminal_proves_mutation operation (field v ''terminal''))"

definition valid_common_identity :: "json \<Rightarrow> bool" where
  "valid_common_identity v \<longleftrightarrow>
     contains v ''invocation_id'' \<and> is_string (field v ''invocation_id'') \<and> valid_hex (string_of (field v ''invocation_id'')) 32 \<and>
     contains v ''timestamp'' \<and> valid_timestamp (field v ''timestamp'') \<and>
     contains v ''account'' \<and> is_string (field v ''account'') \<and> valid_account_name (string_of (field v ''account'')) \<and>
     contains v ''command'' \<and> is_string (field v ''command'') \<and>
     parse_account_audit_operation (string_of (field v ''command'')) \<noteq> None"

text \<open>\<open>valid_config_snapshot_identity\<close> of \<open>proto/destructive_plan.cpp\<close>; \<open>consume_identity_field\<close> returns the rest of the
  view it advances.\<close>

definition valid_unsigned_decimal :: "string \<Rightarrow> bool" where
  "valid_unsigned_decimal s =
     (if s = [] \<or> length s \<noteq> 1 \<and> hd s = CHR ''0'' \<or> \<not> list_all is_digit s then False
      else digits_value s < 2 ^ 64)"

definition consume_identity_field :: "string \<Rightarrow> string \<Rightarrow> bool \<Rightarrow> string option" where
  "consume_identity_field identity prefix_text final =
     (if \<not> starts_with identity prefix_text then None
      else let rest = drop (length prefix_text) identity;
               part = (if final then rest else takeWhile (\<lambda>c. c \<noteq> CHR '';'') rest)
           in if \<not> final \<and> CHR '';'' \<notin> set rest \<or> \<not> valid_unsigned_decimal part then None
              else Some (if final then [] else drop (length part + 1) rest))"

definition valid_config_snapshot_identity :: "string \<Rightarrow> bool \<Rightarrow> bool" where
  "valid_config_snapshot_identity identity allow_missing =
     (if identity = ''missing'' then allow_missing
      else if \<not> starts_with identity ''sha256:'' then False
      else let rest = drop 7 identity; hash = takeWhile (\<lambda>c. c \<noteq> CHR '';'') rest
           in if CHR '';'' \<notin> set rest \<or> length hash \<noteq> 64 \<or> \<not> list_all is_lower_hex hash then False
              else case consume_identity_field (drop 65 rest) ''dev:'' False of
                     None \<Rightarrow> False
                   | Some r1 \<Rightarrow>
                       (case consume_identity_field r1 ''ino:'' False of
                          None \<Rightarrow> False
                        | Some r2 \<Rightarrow>
                            (case consume_identity_field r2 ''size:'' False of
                               None \<Rightarrow> False
                             | Some r3 \<Rightarrow> consume_identity_field r3 ''ctime_ns:'' True = Some [])))"

type_synonym dumper = "json \<Rightarrow> string option"

definition serialized_size_at_most :: "dumper \<Rightarrow> json \<Rightarrow> nat \<Rightarrow> bool" where
  "serialized_size_at_most dump value maximum =
     (case dump value of None \<Rightarrow> False | Some t \<Rightarrow> length t \<le> maximum)"

definition valid_confirmation :: "audit_operation \<Rightarrow> json \<Rightarrow> bool" where
  "valid_confirmation operation source =
     (if write_operation_destructive (Some operation)
      then json_eq source (JString ''yes'') \<or> json_eq source (JString ''tty'')
      else source = JNull)"

definition intent_fields :: "string list" where
  "intent_fields =
     [''schema_version'', ''phase'', ''invocation_id'', ''timestamp'', ''account'', ''command'', ''arguments'', ''plan'',
      ''request_fingerprint'', ''config_snapshot'', ''authority_source'', ''confirmation_source'', ''idempotency_key_hash'']"

definition validate_intent_impl :: "dumper \<Rightarrow> json \<Rightarrow> string option" where
  "validate_intent_impl dump d =
     (if \<not> exact_fields d intent_fields \<or> \<not> json_eq (field d ''schema_version'') (JInt 2) \<or>
         \<not> json_eq (field d ''phase'') (JString ''intent'') \<or> \<not> valid_common_identity d
      then Some ''invalid v2 intent envelope''
      else case parse_account_audit_operation (string_of (field d ''command'')) of
             None \<Rightarrow> Some ''invalid v2 intent operation''
           | Some operation \<Rightarrow>
               let confirmation_valid = valid_confirmation operation (field d ''confirmation_source'');
                   key_valid = (field d ''idempotency_key_hash'' = JNull \<or> valid_hash (field d ''idempotency_key_hash''))
               in if \<not> valid_arguments operation (field d ''arguments'') \<or>
                     \<not> valid_plan operation (field d ''plan'') (string_of (field d ''account'')) \<or>
                     \<not> arguments_match_plan operation (field d ''arguments'') (field d ''plan'') \<or>
                     \<not> valid_hash (field d ''request_fingerprint'') \<or> \<not> is_string (field d ''config_snapshot'') \<or>
                     \<not> valid_config_snapshot_identity (string_of (field d ''config_snapshot'')) False \<or>
                     \<not> json_eq (field d ''authority_source'') (JString ''request'') \<and>
                       \<not> json_eq (field d ''authority_source'') (JString ''config'') \<or>
                     \<not> confirmation_valid \<or> \<not> key_valid \<or>
                     operation = A_SessionTerminate \<and> field d ''idempotency_key_hash'' \<noteq> JNull
                  then Some ''invalid v2 intent fields''
                  else if \<not> valid_json_tree d \<or> \<not> serialized_size_at_most dump d kIntentJsonBytes
                  then Some ''v2 intent exceeds its byte ceiling''
                  else None)"

definition checkpoint_fields :: "string list" where
  "checkpoint_fields =
     [''schema_version'', ''phase'', ''invocation_id'', ''timestamp'', ''account'', ''command'', ''checkpoint_sequence'',
      ''stage'', ''data'']"

definition checkpoint_json_bytes :: "audit_stage \<Rightarrow> nat" where
  "checkpoint_json_bytes stage =
     (if stage = ForwardProgress \<or> stage = MutationConfirmed then kVectorJsonBytes else kNonVectorJsonBytes)"

definition validate_checkpoint_impl :: "dumper \<Rightarrow> json \<Rightarrow> string option" where
  "validate_checkpoint_impl dump d =
     (if \<not> exact_fields d checkpoint_fields \<or> \<not> json_eq (field d ''schema_version'') (JInt 2) \<or>
         \<not> json_eq (field d ''phase'') (JString ''checkpoint'') \<or> \<not> valid_common_identity d \<or>
         \<not> is_number_unsigned (field d ''checkpoint_sequence'') \<or> get_uint64 (field d ''checkpoint_sequence'') = 0 \<or>
         get_uint64 (field d ''checkpoint_sequence'') > 2 ^ 32 - 1 \<or> \<not> is_string (field d ''stage'')
      then Some ''invalid v2 checkpoint envelope''
      else case parse_account_audit_operation (string_of (field d ''command'')) of
             None \<Rightarrow> Some ''invalid v2 checkpoint operation''
           | Some operation \<Rightarrow>
               (case parse_account_audit_stage (string_of (field d ''stage'')) of
                  None \<Rightarrow> Some ''invalid v2 checkpoint data''
                | Some stage \<Rightarrow>
                    if \<not> valid_checkpoint_data operation stage (field d ''data'') then Some ''invalid v2 checkpoint data''
                    else if stage = IdempotencyPending \<and>
                      (get_uint64 (field (field d ''data'') ''expires_at'') > 253402300799 \<or>
                       get_uint64 (field (field d ''data'') ''reserved_terminal_bytes'') > 2 ^ 32 - 1)
                    then Some ''v2 idempotency checkpoint integer is out of range''
                    else if stage = SpoolReady \<and>
                      \<not> json_eq (field (field d ''data'') ''relative_path'')
                          (JString (''spool/'' @ string_of (field d ''invocation_id'') @ ''/'' @
                             string_of (field (field (field d ''data'') ''file'') ''name'')))
                    then Some ''v2 spool checkpoint path is not canonical''
                    else if stage = MutationConfirmed \<and>
                      \<not> serialized_size_at_most dump (field (field d ''data'') ''terminal'') (terminal_byte_ceiling operation)
                    then Some ''v2 mutation terminal exceeds its operation ceiling''
                    else if \<not> valid_json_tree d \<or> \<not> serialized_size_at_most dump d (checkpoint_json_bytes stage)
                    then Some ''v2 checkpoint exceeds its byte ceiling''
                    else None))"

definition outcome_fields :: "string list" where
  "outcome_fields =
     [''schema_version'', ''phase'', ''invocation_id'', ''timestamp'', ''account'', ''command'', ''success'',
      ''mutation_state'', ''completed_stages'', ''terminal'']"

text \<open>The last condition of \<open>validate_outcome_impl\<close>: the relations between stages, mutation state and terminal.\<close>

definition outcome_contradicts :: "audit_operation \<Rightarrow> bool \<Rightarrow> string \<Rightarrow> audit_stage list \<Rightarrow> json \<Rightarrow> bool" where
  "outcome_contradicts operation success mutation completed terminal =
     (let legal_prefix = legal_completed_stages operation completed;
          has_dispatch = (DispatchStarted \<in> set completed);
          has_progress = (ForwardProgress \<in> set completed);
          has_proof = (MutationConfirmed \<in> set completed);
          successful_mark_read_noop =
            (operation = A_ChatMarkRead \<and> success \<and> mutation = ''none'' \<and> \<not> has_dispatch \<and> \<not> has_proof \<and>
             json_eq (field terminal ''kind'') (JString ''result'') \<and>
             field (field terminal ''data'') ''last_read_message_id'' = JNull);
          spool_unavailable =
            (json_eq (field terminal ''kind'') (JString ''error'') \<and>
             json_eq (field terminal ''code'') (JString ''SPOOL_UNAVAILABLE''))
      in \<not> legal_prefix \<or> json_eq (field terminal ''kind'') (JString ''result'') \<noteq> success \<or>
         success \<and> \<not> successful_mark_read_noop \<and> (mutation \<noteq> ''confirmed'' \<or> \<not> has_proof) \<or>
         \<not> has_dispatch \<and> mutation \<noteq> ''none'' \<or> has_proof \<and> mutation \<noteq> ''confirmed'' \<or>
         has_dispatch \<and> \<not> has_progress \<and> \<not> has_proof \<and> mutation \<noteq> ''possible'' \<and>
           \<not> (mutation = ''none'' \<and> terminal_proves_explicit_no_mutation operation terminal) \<or>
         mutation = ''confirmed'' \<and> \<not> has_proof \<and> \<not> has_progress \<or>
         (mutation = ''possible'' \<or> mutation = ''confirmed'') \<and> \<not> has_dispatch \<or>
         spool_unavailable \<and>
           (operation \<noteq> A_SavedAttach \<and> \<not> write_operation_uses_photo_spool (Some operation) \<or> has_dispatch \<or>
            mutation \<noteq> ''none'' \<or> list_ex (\<lambda>stage. stage \<noteq> IdempotencyPending \<and> stage \<noteq> SpoolReady) completed))"

definition validate_outcome_impl :: "dumper \<Rightarrow> json \<Rightarrow> string option" where
  "validate_outcome_impl dump d =
     (if \<not> exact_fields d outcome_fields \<or> \<not> json_eq (field d ''schema_version'') (JInt 2) \<or>
         \<not> json_eq (field d ''phase'') (JString ''outcome'') \<or> \<not> valid_common_identity d \<or>
         \<not> is_boolean (field d ''success'') \<or> \<not> is_string (field d ''mutation_state'') \<or>
         \<not> is_array (field d ''completed_stages'')
      then Some ''invalid v2 outcome envelope''
      else case parse_account_audit_operation (string_of (field d ''command'')) of
             None \<Rightarrow> Some ''invalid v2 outcome terminal''
           | Some operation \<Rightarrow>
               let terminal = field d ''terminal''; mutation = string_of (field d ''mutation_state'')
               in if \<not> valid_terminal operation terminal then Some ''invalid v2 outcome terminal''
                  else if mutation \<notin> set mutation_names then Some ''invalid v2 outcome mutation state''
                  else (case stages_loop [] (items_of (field d ''completed_stages'')) of
                         None \<Rightarrow> Some ''invalid v2 outcome stage''
                       | Some completed \<Rightarrow>
                           if json_eq (field terminal ''kind'') (JString ''error'') \<and>
                              contains (field terminal ''details'') ''account'' \<and>
                              \<not> json_eq (field (field terminal ''details'') ''account'') (field d ''account'')
                           then Some ''v2 outcome terminal account contradicts the envelope''
                           else if json_eq (field terminal ''kind'') (JString ''error'') \<and>
                              json_eq (field terminal ''code'') (JString ''AUDIT_INCOMPLETE'') \<and>
                              (\<not> json_eq (field (field terminal ''details'') ''mutation_state'') (JString mutation) \<or>
                               \<not> json_eq (field (field terminal ''details'') ''completed_stages'') (field d ''completed_stages''))
                           then Some ''v2 incomplete terminal contradicts the outcome prefix''
                           else if outcome_contradicts operation (bool_of (field d ''success'')) mutation completed terminal \<or>
                              \<not> serialized_size_at_most dump terminal (terminal_byte_ceiling operation) \<or>
                              \<not> serialized_size_at_most dump d kVectorJsonBytes
                           then Some ''invalid v2 outcome terminal''
                           else None))"

subsection \<open>The tree walk and its specification\<close>

fun tree_ok :: "nat \<Rightarrow> json \<Rightarrow> bool"
  and trees_ok :: "nat \<Rightarrow> json list \<Rightarrow> bool"
  and members_ok :: "nat \<Rightarrow> (string \<times> json) list \<Rightarrow> bool"
where
  "tree_ok d (JString s) = (d \<le> 32 \<and> length s \<le> kRequestSourceBytes \<and> valid_utf8 s \<and> \<not> contains_nul s)"
| "tree_ok d (JArray vs) = (d \<le> 32 \<and> trees_ok (Suc d) vs)"
| "tree_ok d (JObject ms) = (d \<le> 32 \<and> members_ok (Suc d) ms)"
| "tree_ok d _ = (d \<le> 32)"
| "trees_ok d [] = True"
| "trees_ok d (v # vs) = (tree_ok d v \<and> trees_ok d vs)"
| "members_ok d [] = True"
| "members_ok d ((k, v) # ms) = (\<not> bad_key k \<and> tree_ok d v \<and> members_ok d ms)"

fun tree_nodes :: "json \<Rightarrow> nat"
  and trees_nodes :: "json list \<Rightarrow> nat"
  and members_nodes :: "(string \<times> json) list \<Rightarrow> nat"
where
  "tree_nodes (JArray vs) = Suc (trees_nodes vs)"
| "tree_nodes (JObject ms) = Suc (members_nodes ms)"
| "tree_nodes _ = 1"
| "trees_nodes [] = 0"
| "trees_nodes (v # vs) = tree_nodes v + trees_nodes vs"
| "members_nodes [] = 0"
| "members_nodes ((k, v) # ms) = tree_nodes v + members_nodes ms"

lemma trees_ok_iff: "trees_ok d vs \<longleftrightarrow> (\<forall>v \<in> set vs. tree_ok d v)"
  by (induction vs) auto

lemma members_ok_iff: "members_ok d ms \<longleftrightarrow> (\<forall>m \<in> set ms. \<not> bad_key (fst m) \<and> tree_ok d (snd m))"
  by (induction ms) auto

lemma trees_nodes_sum: "trees_nodes vs = sum_list (map tree_nodes vs)"
  by (induction vs) auto

lemma members_nodes_sum: "members_nodes ms = sum_list (map (\<lambda>m. tree_nodes (snd m)) ms)"
  by (induction ms) auto

lemma tree_nodes_pos: "tree_nodes v > 0"
  by (cases v) auto

definition pending_ok :: "(json \<times> nat) list \<Rightarrow> bool" where
  "pending_ok pending \<longleftrightarrow> (\<forall>(v, d) \<in> set pending. tree_ok d v)"

definition pending_nodes :: "(json \<times> nat) list \<Rightarrow> nat" where
  "pending_nodes pending = sum_list (map (\<lambda>p. tree_nodes (fst p)) pending)"

lemma pending_simps:
  "pending_ok []" "pending_ok ((v, d) # p) \<longleftrightarrow> tree_ok d v \<and> pending_ok p"
  "pending_ok (p @ q) \<longleftrightarrow> pending_ok p \<and> pending_ok q" "pending_ok (rev p) \<longleftrightarrow> pending_ok p"
  "pending_nodes [] = 0" "pending_nodes ((v, d) # p) = tree_nodes v + pending_nodes p"
  "pending_nodes (p @ q) = pending_nodes p + pending_nodes q" "pending_nodes (rev p) = pending_nodes p"
  by (auto simp: pending_ok_def pending_nodes_def rev_map [symmetric] sum_list_rev)

lemma pending_children:
  "pending_ok (map (\<lambda>item. (item, d)) vs) \<longleftrightarrow> trees_ok d vs"
  "pending_nodes (map (\<lambda>item. (item, d)) vs) = trees_nodes vs"
  "pending_ok (map (\<lambda>member. (snd member, d)) ms) \<longleftrightarrow> (\<forall>m \<in> set ms. tree_ok d (snd m))"
  "pending_nodes (map (\<lambda>member. (snd member, d)) ms) = members_nodes ms"
  by (auto simp: pending_ok_def pending_nodes_def trees_ok_iff trees_nodes_sum members_nodes_sum comp_def)

lemma json_tree_loop_iff:
  "json_tree_loop pending nodes \<longleftrightarrow> pending_ok pending \<and> (pending = [] \<or> nodes + pending_nodes pending \<le> 16384)"
proof (induction pending nodes rule: json_tree_loop.induct)
  case (2 v d pending nodes)
  have pos: "pending_nodes pending = 0 \<Longrightarrow> pending = []"
    using tree_nodes_pos [of "fst (hd pending)"] by (cases pending) (auto simp: pending_nodes_def)
  show ?case
  proof (cases "d > 32 \<or> nodes + 1 > 16384")
    case True
    then show ?thesis using tree_nodes_pos [of v]
      by (cases v) (auto simp: pending_simps)
  next
    case False
    then show ?thesis using 2 pos
      by (cases v) (auto simp: pending_simps pending_children members_ok_iff valid_string_def list_ex_iff)
  qed
qed (simp add: pending_simps)

lemma valid_json_tree_iff: "valid_json_tree v \<longleftrightarrow> tree_ok 0 v \<and> tree_nodes v \<le> 16384"
  by (simp add: valid_json_tree_def json_tree_loop_iff pending_simps)

text \<open>
  C38: the walk with an explicit stack always ends, and accepts exactly the values that are at most 32
  levels deep, have at most 16384 nodes, hold only UTF-8 texts without NUL bytes, and have no forbidden
  key at any level.
\<close>

theorem json_tree_walk:
  "valid_json_tree v \<longleftrightarrow> tree_ok 0 v \<and> tree_nodes v \<le> 16384"
  by (rule valid_json_tree_iff)


subsection \<open>Forward vectors and proofs\<close>

definition forward_source_ids :: "json list \<Rightarrow> int list" where
  "forward_source_ids items = map (\<lambda>item. the (json_int64 (field item ''source_id''))) items"

definition forward_temporary_ids :: "json list \<Rightarrow> int list" where
  "forward_temporary_ids items =
     map (\<lambda>item. the (json_int64 (field item ''temporary_message_id''))) (filter (\<lambda>item. item_status item ''pending'') items)"

definition forward_final_ids :: "json list \<Rightarrow> int list" where
  "forward_final_ids items =
     map (\<lambda>item. the (json_int64 (field (field item ''message'') ''id''))) (filter (\<lambda>item. item_status item ''sent'') items)"

lemma valid_message_id_number: "valid_message_id v \<Longrightarrow> \<exists>i. json_int64 v = Some i"
  by (auto simp: message_id_Some)

lemma forward_item_numbers:
  assumes "valid_forward_item v"
  shows "\<exists>i. json_int64 (field v ''source_id'') = Some i"
    and "field v ''status'' = JString ''pending'' \<Longrightarrow> \<exists>i. json_int64 (field v ''temporary_message_id'') = Some i"
    and "field v ''status'' = JString ''sent'' \<Longrightarrow> \<exists>i. json_int64 (field (field v ''message'') ''id'') = Some i"
  using assms valid_message_id_number
  by (auto simp: valid_forward_item_def valid_message_write_result_def split: if_splits)

lemma forward_items_loop_iff:
  "forward_items_loop require_terminal previous ts fs items \<longleftrightarrow>
     list_all valid_forward_item items \<and> sorted_wrt (<) (forward_source_ids items) \<and>
     (case previous of None \<Rightarrow> True | Some p \<Rightarrow> list_all (\<lambda>s. p < s) (forward_source_ids items)) \<and>
     distinct (forward_temporary_ids items) \<and> set ts \<inter> set (forward_temporary_ids items) = {} \<and>
     distinct (forward_final_ids items) \<and> set fs \<inter> set (forward_final_ids items) = {} \<and>
     (require_terminal \<longrightarrow> list_all (\<lambda>item. \<not> item_status item ''pending'') items)"
proof (induction items arbitrary: previous ts fs)
  case Nil
  then show ?case by (simp add: forward_source_ids_def forward_temporary_ids_def forward_final_ids_def split: option.splits)
next
  case (Cons item items)
  show ?case
  proof (cases "valid_forward_item item")
    case False
    then show ?thesis by simp
  next
    case True
    obtain s where s: "json_int64 (field item ''source_id'') = Some s" using forward_item_numbers(1) [OF True] by blast
    have ne: "sorted_wrt (<) (forward_source_ids (item # items)) \<longleftrightarrow>
        list_all (\<lambda>n. s < n) (forward_source_ids items) \<and> sorted_wrt (<) (forward_source_ids items)"
      by (simp add: forward_source_ids_def s list_all_iff)
    have prev: "(case previous of None \<Rightarrow> True | Some p \<Rightarrow> list_all (\<lambda>n. p < n) (forward_source_ids (item # items))) \<longleftrightarrow>
        (case previous of None \<Rightarrow> True | Some p \<Rightarrow> p < s \<and> list_all (\<lambda>n. p < n) (forward_source_ids items))"
      by (simp add: forward_source_ids_def s split: option.splits)
    have weaken: "list_all (\<lambda>n. p < n) (forward_source_ids items)" if "p < s" "list_all (\<lambda>n. s < n) (forward_source_ids items)" for p
      using that by (auto simp: list_all_iff)
    consider (pending) t where "field item ''status'' = JString ''pending''" "json_int64 (field item ''temporary_message_id'') = Some t"
      | (sent) f where "field item ''status'' = JString ''sent''" "json_int64 (field (field item ''message'') ''id'') = Some f"
      | (failed) "field item ''status'' \<noteq> JString ''pending''" "field item ''status'' \<noteq> JString ''sent''"
      using forward_item_numbers [OF True] by blast
    then show ?thesis
    proof cases
      case pending
      then have ids: "forward_temporary_ids (item # items) = t # forward_temporary_ids items" "forward_final_ids (item # items) = forward_final_ids items"
        by (simp_all add: forward_temporary_ids_def forward_final_ids_def item_status_def)
      show ?thesis unfolding ne prev ids using Cons.IH [of "Some s" "t # ts" fs] True s pending weaken
        by (auto simp: item_status_def not_le split: option.splits)
    next
      case sent
      then have ids: "forward_temporary_ids (item # items) = forward_temporary_ids items" "forward_final_ids (item # items) = f # forward_final_ids items"
        by (simp_all add: forward_temporary_ids_def forward_final_ids_def item_status_def)
      show ?thesis unfolding ne prev ids using Cons.IH [of "Some s" ts "f # fs"] True s sent weaken
        by (auto simp: item_status_def not_le split: option.splits)
    next
      case failed
      then have ids: "forward_temporary_ids (item # items) = forward_temporary_ids items" "forward_final_ids (item # items) = forward_final_ids items"
        by (simp_all add: forward_temporary_ids_def forward_final_ids_def item_status_def)
      show ?thesis unfolding ne prev ids using Cons.IH [of "Some s" ts fs] True s failed weaken
        by (auto simp: item_status_def not_le split: option.splits)
    qed
  qed
qed

lemma valid_forward_items_iff:
  "valid_forward_items items allow_empty require_terminal \<longleftrightarrow>
     is_array items \<and> (if allow_empty then 0 else 1) \<le> length (items_of items) \<and> length (items_of items) \<le> kForwardItemCount \<and>
     list_all valid_forward_item (items_of items) \<and> sorted_wrt (<) (forward_source_ids (items_of items)) \<and>
     distinct (forward_temporary_ids (items_of items)) \<and> distinct (forward_final_ids (items_of items)) \<and>
     (if require_terminal then list_all (\<lambda>item. \<not> item_status item ''pending'') (items_of items) else True)"
  by (cases items) (auto simp: valid_forward_items_def forward_items_loop_iff jempty_def Suc_le_eq split: if_splits)

text \<open>
  An accepted forward vector has at most 100 items, each of a legal form, with increasing
  source ids; no temporary id and no final message id occurs twice, and none is pending where a terminal
  vector is required.
\<close>

theorem forward_items_unique:
  "valid_forward_items items allow_empty require_terminal \<longleftrightarrow>
     is_array items \<and> (if allow_empty then 0 else 1) \<le> length (items_of items) \<and> length (items_of items) \<le> kForwardItemCount \<and>
     list_all valid_forward_item (items_of items) \<and> sorted_wrt (<) (forward_source_ids (items_of items)) \<and>
     distinct (forward_temporary_ids (items_of items)) \<and> distinct (forward_final_ids (items_of items)) \<and>
     (if require_terminal then list_all (\<lambda>item. \<not> item_status item ''pending'') (items_of items) else True)"
  by (rule valid_forward_items_iff)

lemma terminal_kinds:
  assumes "valid_terminal operation t"
  shows "field t ''kind'' = JString ''result'' \<or> field t ''kind'' = JString ''error''"
  using assms by (auto simp: valid_terminal_def valid_stored_error_def split: if_splits)

lemma terminal_proves_mutation_iff:
  "terminal_proves_mutation operation terminal =
     (if \<not> valid_terminal operation terminal then False
      else if json_eq (field terminal ''kind'') (JString ''result'') then True
      else let code = string_of (field terminal ''code'')
           in if operation = A_MsgForward then
                if code = ''TIMEOUT''
                then contains (field terminal ''details'') ''items'' \<and>
                  list_ex (\<lambda>item. item_status item ''sent'') (items_of (field (field terminal ''details'') ''items''))
                else code = ''FORWARD_PARTIAL'' \<or> code = ''INTERNAL''
              else code = ''INTERNAL'' \<and> (operation = A_Send \<or> operation = A_MsgEdit \<or> operation = A_SavedAttach))"
  by (simp add: terminal_proves_mutation_def terminal_proves_mutation_checked_def Let_def)

text \<open>
  No terminal proves both that an operation took effect and that it had none.
\<close>

theorem mutation_proofs_exclusive:
  "\<not> (terminal_proves_mutation operation t \<and> terminal_proves_explicit_no_mutation operation t)"
  by (auto simp: terminal_proves_mutation_iff terminal_proves_explicit_no_mutation_def Let_def split: if_splits)

lemma timeout_items:
  assumes "valid_timeout_details A_MsgForward d"
  shows "contains d ''items'' \<longleftrightarrow> field d ''phase'' \<noteq> JString ''preflight''"
proof -
  have plain: "\<not> contains d ''items''" if "exact_fields d timeout_fields"
    using exact_fields_absent [OF that, of "''items''"] by (simp add: timeout_fields_def)
  have with_items: "contains d ''items''" if "exact_fields d (timeout_fields @ [''items''])"
    using exact_fields_contains [OF that, of "''items''"] by simp
  show ?thesis using assms plain with_items by (auto simp: valid_timeout_details_def Let_def split: if_splits)
qed

definition preflight_timeout :: json where
  "preflight_timeout =
     JObject [(''code'', JString ''TIMEOUT''),
       (''details'', JObject [(''idempotency'', JString ''not_requested''), (''operation'', JString ''msg_forward''),
          (''outcome'', JString ''not_started''), (''phase'', JString ''preflight''), (''state'', JNull)]),
       (''exit_code'', JInt 7), (''kind'', JString ''error''), (''message'', JString ''request timed out'')]"

lemma valid_utf8_literal: "list_all (\<lambda>c. byte_of c < 128) s \<Longrightarrow> valid_utf8 s"
  by (rule valid_utf8_ascii) (simp add: list_all_iff)

lemma valid_preflight_timeout: "valid_terminal A_MsgForward preflight_timeout"
proof -
  have t: "valid_json_tree preflight_timeout"
    unfolding valid_json_tree_iff preflight_timeout_def
    by (simp add: bad_key_def contains_nul_def kRequestSourceBytes_def valid_utf8_literal byte_of_def)
  have o: "account_audit_operation_name A_MsgForward = ''msg_forward''" by code_simp
  from t show ?thesis
    unfolding valid_terminal_def valid_stored_error_def preflight_timeout_def
    by (simp add: json_eval valid_int32_def json_int64_def valid_stored_error_message_def stored_error_messages_def
        valid_error_details_def kTimeout_def valid_timeout_details_def timeout_fields_def valid_operation_field_def o
        valid_auth_state_def)
qed

lemma forward_timeout_details:
  assumes "valid_terminal A_MsgForward t" "string_of (field t ''code'') = ''TIMEOUT''" "\<not> json_eq (field t ''kind'') (JString ''result'')"
  shows "valid_timeout_details A_MsgForward (field t ''details'')"
  using assms by (auto simp: valid_terminal_def valid_stored_error_def valid_error_details_def split: if_splits)

text \<open>
  C39: the validator of the terminals of a forward and the reader of its proof disagree.
  \<open>terminal_proves_mutation\<close> reads a member that does not exist exactly for the valid terminals of a forward
  that timed out in the phase \<open>preflight\<close>, and such a terminal exists. For every other operation and
  terminal its result is defined.
\<close>

theorem forward_timeout_items:
  "(\<forall>operation t. terminal_proves_mutation_checked operation t = None \<longleftrightarrow>
      operation = A_MsgForward \<and> valid_terminal A_MsgForward t \<and> field t ''kind'' = JString ''error'' \<and>
      field t ''code'' = JString ''TIMEOUT'' \<and> field (field t ''details'') ''phase'' = JString ''preflight'') \<and>
   valid_terminal A_MsgForward preflight_timeout \<and> terminal_proves_mutation_checked A_MsgForward preflight_timeout = None"
proof -
  have "terminal_proves_mutation_checked operation t = None \<longleftrightarrow> operation = A_MsgForward \<and> valid_terminal A_MsgForward t \<and>
      field t ''kind'' = JString ''error'' \<and> field t ''code'' = JString ''TIMEOUT'' \<and>
      field (field t ''details'') ''phase'' = JString ''preflight''" (is "?none \<longleftrightarrow> ?timeout") for operation t
  proof
    assume n: ?none
    then have t: "operation = A_MsgForward" "valid_terminal A_MsgForward t" "\<not> json_eq (field t ''kind'') (JString ''result'')"
      "string_of (field t ''code'') = ''TIMEOUT''" "\<not> contains (field t ''details'') ''items''"
      by (auto simp: terminal_proves_mutation_checked_def Let_def split: if_splits)
    then have "field t ''kind'' = JString ''error''" "field t ''code'' = JString ''TIMEOUT''"
      by (auto simp: valid_terminal_def valid_stored_error_def is_string_iff split: if_splits)
    with t timeout_items [OF forward_timeout_details [OF t(2,4,3)]] show ?timeout by auto
  next
    assume t: ?timeout
    then have k: "\<not> json_eq (field t ''kind'') (JString ''result'')" by simp
    with t timeout_items [OF forward_timeout_details [of t]] have "\<not> contains (field t ''details'') ''items''" by simp
    with t k show ?none by (simp add: terminal_proves_mutation_checked_def)
  qed
  then show ?thesis using valid_preflight_timeout by (simp add: preflight_timeout_def json_eval)
qed

end
