(* ===== verification/Audit_History.thy ===== *)
theory Audit_History
  imports Audit_Contract
begin

text \<open>
  \<^bold>\<open>daemon/account_audit.cpp, the group automaton\<close>: the order of checkpoint stages (\<open>transition_history\<close>),
  the state of an open group, the step a record makes on it (\<open>consume_v2\<close>), the terminal that is derived from a
  forward vector, and the recovery plan of a group the daemon left open. A step either fails with the
  source's error text and leaves the state as it was, or yields the new state and, when it closes a group, the
  view that the source hands to its visitor. Objects the source builds list their members in key order, as the
  JSON library stores them.
\<close>

subsection \<open>Checkpoint order\<close>

record checkpoint_input =
  ci_invocation_id :: string
  ci_timestamp :: string
  ci_account :: string
  ci_operation :: audit_operation
  ci_sequence :: nat
  ci_stage :: audit_stage
  ci_data :: json

definition allowed_order :: "audit_operation \<Rightarrow> audit_stage list" where
  "allowed_order operation =
     (if operation = A_SavedAttach then
        [IdempotencyPending, SpoolReady, DispatchStarted, TemporaryIdsObserved, MutationConfirmed]
      else if write_operation_uses_photo_spool (Some operation) then
        [IdempotencyPending, SpoolReady, DispatchStarted, MutationConfirmed]
      else if operation = A_MsgForward then
        [IdempotencyPending, DispatchStarted, TemporaryIdsObserved, ForwardProgress, MutationConfirmed]
      else if operation = A_Send then
        [IdempotencyPending, DispatchStarted, TemporaryIdsObserved, MutationConfirmed]
      else if \<not> write_operation_idempotent (Some operation) then [DispatchStarted, MutationConfirmed]
      else [IdempotencyPending, DispatchStarted, MutationConfirmed])"

record history_state =
  previous_sequence :: nat
  previous_position :: "nat option"
  previous_forward :: "json option"
  progress_count :: nat
  saw_idempotency :: bool
  saw_spool :: bool
  saw_dispatch :: bool
  saw_temporary_ids :: bool
  saw_mutation :: bool

definition history_init :: history_state where
  "history_init = \<lparr>previous_sequence = 0, previous_position = None, previous_forward = None, progress_count = 0,
     saw_idempotency = False, saw_spool = False, saw_dispatch = False, saw_temporary_ids = False, saw_mutation = False\<rparr>"

text \<open>The \<open>switch\<close> of \<open>transition_history\<close>: the error of an illegal predecessor, or the updated flags.\<close>

definition history_switch :: "audit_operation \<Rightarrow> audit_stage \<Rightarrow> history_state \<Rightarrow> string + history_state" where
  "history_switch operation stage h =
     (case stage of
        IdempotencyPending \<Rightarrow>
          if previous_position h \<noteq> None \<or> saw_idempotency h then Inl ''idempotency checkpoint is not first''
          else Inr (h\<lparr>saw_idempotency := True\<rparr>)
      | SpoolReady \<Rightarrow>
          if operation \<noteq> A_SavedAttach \<and> \<not> write_operation_uses_photo_spool (Some operation) \<or>
             saw_spool h \<or> saw_dispatch h \<or> previous_position h \<noteq> None \<and> \<not> saw_idempotency h
          then Inl ''spool checkpoint has an illegal predecessor''
          else Inr (h\<lparr>saw_spool := True\<rparr>)
      | DispatchStarted \<Rightarrow>
          if saw_dispatch h \<or> saw_mutation h \<or> operation = A_SavedAttach \<and> \<not> saw_spool h \<or>
             previous_position h \<noteq> None \<and> \<not> saw_idempotency h \<and> \<not> saw_spool h
          then Inl ''dispatch checkpoint has an illegal predecessor''
          else Inr (h\<lparr>saw_dispatch := True\<rparr>)
      | TemporaryIdsObserved \<Rightarrow>
          if \<not> saw_dispatch h \<or> saw_temporary_ids h \<or> saw_mutation h
          then Inl ''temporary ids checkpoint has an illegal predecessor''
          else Inr (h\<lparr>saw_temporary_ids := True\<rparr>)
      | ForwardProgress \<Rightarrow>
          if \<not> saw_dispatch h \<or> saw_mutation h then Inl ''forward progress has an illegal predecessor'' else Inr h
      | MutationConfirmed \<Rightarrow>
          if \<not> saw_dispatch h \<or> saw_mutation h then Inl ''mutation proof has an illegal predecessor''
          else Inr (h\<lparr>saw_mutation := True\<rparr>))"

text \<open>The comparison of two forward vectors of equal length; the flag \<open>advanced\<close> is the result.\<close>

fun forward_advance :: "json list \<Rightarrow> json list \<Rightarrow> bool \<Rightarrow> string + bool" where
  "forward_advance (before # bs) (after # as) advanced =
     (if \<not> json_eq (field before ''source_id'') (field after ''source_id'') \<or>
         \<not> item_status before ''pending'' \<and> \<not> json_eq before after
      then Inl ''forward vector regressed or changed terminal item''
      else if item_status before ''pending'' \<and> item_status after ''pending'' \<and> \<not> json_eq before after
      then Inl ''forward pending item changed without becoming terminal''
      else forward_advance bs as (advanced \<or> \<not> json_eq before after))"
| "forward_advance _ _ advanced = Inr advanced"

definition history_forward :: "json \<Rightarrow> history_state \<Rightarrow> string + history_state" where
  "history_forward current h =
     (if progress_count h + 1 > kMaximumForwardProgressRecords then Inl ''too many forward progress records''
      else let h' = h\<lparr>progress_count := progress_count h + 1, previous_forward := Some current\<rparr>
           in case previous_forward h of
                None \<Rightarrow> Inr h'
              | Some previous \<Rightarrow>
                  if jsize current \<noteq> jsize previous then Inl ''forward vector size changed''
                  else (case forward_advance (items_of previous) (items_of current) False of
                          Inl e \<Rightarrow> Inl e
                        | Inr advanced \<Rightarrow> if \<not> advanced then Inl ''forward progress did not advance'' else Inr h'))"

definition history_step :: "audit_operation \<Rightarrow> checkpoint_input \<Rightarrow> history_state \<Rightarrow> string + history_state" where
  "history_step operation c h =
     (if ci_operation c \<noteq> operation \<or> ci_sequence c \<le> previous_sequence h \<or>
         \<not> valid_checkpoint_data operation (ci_stage c) (ci_data c)
      then Inl ''invalid v2 checkpoint history identity or sequence''
      else case index_of (ci_stage c) (allowed_order operation) of
             None \<Rightarrow> Inl ''illegal v2 checkpoint stage''
           | Some position \<Rightarrow>
               if (case previous_position h of None \<Rightarrow> False | Some p \<Rightarrow> position < p) then Inl ''v2 checkpoint stage regression''
               else if previous_position h = Some position \<and> ci_stage c \<noteq> ForwardProgress
               then Inl ''repeated non-forward checkpoint stage''
               else if ci_stage c = IdempotencyPending \<and> \<not> write_operation_idempotent (Some operation)
               then Inl ''operation cannot use idempotency''
               else (case history_switch operation (ci_stage c) (h\<lparr>previous_sequence := ci_sequence c\<rparr>) of
                       Inl e \<Rightarrow> Inl e
                     | Inr h1 \<Rightarrow>
                         (case (if ci_stage c = ForwardProgress then history_forward (field (ci_data c) ''items'') h1
                                else Inr h1) of
                            Inl e \<Rightarrow> Inl e
                          | Inr h2 \<Rightarrow> Inr (h2\<lparr>previous_position := Some position\<rparr>))))"

fun history_loop :: "audit_operation \<Rightarrow> history_state \<Rightarrow> checkpoint_input list \<Rightarrow> string + history_state" where
  "history_loop operation h [] = Inr h"
| "history_loop operation h (c # cs) =
     (case history_step operation c h of Inl e \<Rightarrow> Inl e | Inr h' \<Rightarrow> history_loop operation h' cs)"

definition transition_history :: "audit_operation \<Rightarrow> checkpoint_input list \<Rightarrow> string option" where
  "transition_history operation history =
     (case history_loop operation history_init history of Inl e \<Rightarrow> Some e | Inr h \<Rightarrow> None)"

subsection \<open>Groups\<close>

record open_group =
  audit_generation :: nat
  intent :: json
  checkpoints :: "json list"
  completed_stages :: "audit_stage list"
  keyed :: bool
  has_spool :: bool
  dispatch_started :: bool
  mutation_confirmed :: bool
  forward_complete :: bool
  any_forward_sent :: bool

record scan_state =
  open_of :: "open_group option"
  positive_v2 :: bool

record file_snapshot =
  fs_path :: string
  fs_name :: string
  fs_size :: nat
  fs_sha256 :: string
  fs_device :: nat
  fs_inode :: nat
  fs_mtime_ns :: int
  fs_ctime_ns :: int

record spool_ref =
  relative_path :: string
  spool_file :: file_snapshot

record completed_view =
  view_audit_generation :: nat
  view_invocation_id :: string
  view_account :: string
  view_operation :: audit_operation
  view_request_fingerprint :: string
  view_idempotency_key_hash :: "string option"
  view_plan :: json
  view_intent_timestamp :: string
  view_intent_unix_seconds :: int
  view_idempotency_pending :: "json option"
  view_spool :: "spool_ref option"
  view_temporary_message_ids :: json
  view_forward_progress :: json
  view_mutation_proof :: "json option"
  view_completed_stages :: "audit_stage list"
  view_outcome :: json

definition stage_names :: "audit_stage list \<Rightarrow> json" where
  "stage_names stages = JArray (map (\<lambda>stage. JString (account_audit_stage_name stage)) stages)"

definition incomplete_terminal :: "string \<Rightarrow> string \<Rightarrow> mutation_state \<Rightarrow> audit_stage list \<Rightarrow> json" where
  "incomplete_terminal account path mutation completed =
     JObject [(''code'', JString ''AUDIT_INCOMPLETE''),
       (''details'', JObject [(''account'', JString account), (''completed_stages'', stage_names completed),
          (''mutation_state'', JString (account_audit_mutation_state_name mutation)), (''path'', JString path)]),
       (''exit_code'', JInt 1), (''kind'', JString ''error''),
       (''message'', JString ''a prior audited invocation did not reach a terminal proof'')]"

definition checkpoint_is :: "string \<Rightarrow> json \<Rightarrow> bool" where
  "checkpoint_is stage checkpoint = json_eq (field checkpoint ''stage'') (JString stage)"

definition forward_vector_complete :: "json \<Rightarrow> bool" where
  "forward_vector_complete items \<longleftrightarrow> \<not> list_ex (\<lambda>item. item_status item ''pending'') (items_of items)"

definition final_forward_items :: "open_group \<Rightarrow> json option" where
  "final_forward_items g =
     map_option (\<lambda>checkpoint. field (field checkpoint ''data'') ''items'')
       (find (checkpoint_is ''forward_progress'') (rev (checkpoints g)))"

definition forward_failure :: "string \<Rightarrow> string \<Rightarrow> json \<Rightarrow> json \<Rightarrow> json \<Rightarrow> json" where
  "forward_failure code message from to items =
     JObject [(''code'', JString code),
       (''details'', JObject [(''from_chat_id'', from), (''items'', items), (''operation'', JString ''msg_forward''),
          (''to_chat_id'', to)]),
       (''exit_code'', JInt 1), (''kind'', JString ''error''), (''message'', JString message)]"

definition rate_limited_item :: "json \<Rightarrow> bool" where
  "rate_limited_item item \<longleftrightarrow>
     json_eq (field item ''failure_reason'') (JString ''tdlib_error'') \<and> json_eq (field item ''tdlib_code'') (JInt 429) \<and>
     field item ''retry_after'' \<noteq> JNull"

text \<open>The part of \<open>derive_forward_terminal\<close> after the vector has been found complete.\<close>

definition forward_terminal_of :: "json \<Rightarrow> json \<Rightarrow> json \<Rightarrow> json" where
  "forward_terminal_of from to items =
     (let sent = length (filter (\<lambda>item. item_status item ''sent'') (items_of items))
      in if sent = jsize items then
           JObject [(''data'', JObject [(''from_chat_id'', from), (''items'', items), (''to_chat_id'', to)]),
             (''kind'', JString ''result'')]
         else if sent > 0 then forward_failure ''FORWARD_PARTIAL'' ''some messages could not be forwarded'' from to items
         else if list_all rate_limited_item (items_of items) then
           JObject [(''code'', JString ''RATE_LIMITED''),
             (''details'', JObject [(''items'', items), (''operation'', JString ''msg_forward''),
                (''retry_after'', JInt (foldl (\<lambda>r item. max r (get_int64 (field item ''retry_after''))) 0 (items_of items))),
                (''tdlib_code'', JInt 429)]),
             (''exit_code'', JInt 5), (''kind'', JString ''error''), (''message'', JString ''Telegram rate limit exceeded'')]
         else forward_failure ''FORWARD_FAILED'' ''messages could not be forwarded'' from to items)"

definition derive_forward_terminal :: "open_group \<Rightarrow> string + json" where
  "derive_forward_terminal g =
     (case find (checkpoint_is ''forward_progress'') (rev (checkpoints g)) of
        None \<Rightarrow> Inl ''terminal forward vector is unavailable''
      | Some checkpoint \<Rightarrow>
          let items = field (field checkpoint ''data'') ''items''
          in if \<not> forward_vector_complete items then Inl ''terminal forward vector is unavailable''
             else Inr (forward_terminal_of (field (field (field (intent g) ''plan'') ''from'') ''id'')
                    (field (field (field (intent g) ''plan'') ''to'') ''id'') items))"

definition result_field :: "json \<Rightarrow> json \<Rightarrow> string \<Rightarrow> string \<Rightarrow> bool" where
  "result_field data plan d p = json_eq (field data d) (field plan p)"

definition terminal_matches_plan :: "audit_operation \<Rightarrow> json \<Rightarrow> json \<Rightarrow> bool" where
  "terminal_matches_plan operation terminal intent_doc =
     (if json_eq (field terminal ''kind'') (JString ''error'') then
        let details = field terminal ''details''
        in if contains details ''account'' \<and> \<not> json_eq (field details ''account'') (field intent_doc ''account'') then False
           else \<not> contains details ''operation'' \<or>
                json_eq (field details ''operation'') (JString (account_audit_operation_name operation))
      else let data = field terminal ''data''; plan = field intent_doc ''plan'';
               same_chat = json_eq (field data ''chat_id'') (field (field plan ''chat'') ''id'')
           in if operation \<in> {A_Send, A_MsgEdit, A_SavedAttach} then
                same_chat \<and> (operation \<noteq> A_MsgEdit \<or> result_field data plan ''id'' ''message_id'')
              else if operation = A_MsgDelete then
                same_chat \<and> result_field data plan ''message_ids'' ''message_ids'' \<and> result_field data plan ''for_all'' ''effective_for_all''
              else if operation = A_MsgForward then
                json_eq (field data ''from_chat_id'') (field (field plan ''from'') ''id'') \<and>
                json_eq (field data ''to_chat_id'') (field (field plan ''to'') ''id'')
              else if operation = A_MsgReact then
                same_chat \<and> result_field data plan ''message_id'' ''message_id'' \<and> result_field data plan ''reaction'' ''reaction'' \<and>
                result_field data plan ''removed'' ''remove'' \<and> result_field data plan ''big'' ''big''
              else if operation \<in> {A_MsgPin, A_MsgUnpin} then
                same_chat \<and> result_field data plan ''message_id'' ''message_id'' \<and> result_field data plan ''pinned'' ''pinned''
              else if operation = A_ChatMarkRead then
                same_chat \<and> result_field data plan ''last_read_message_id'' ''last_message_id''
              else if operation \<in> {A_ChatMute, A_ChatUnmute} then
                same_chat \<and> result_field data plan ''muted'' ''muted'' \<and> result_field data plan ''duration_seconds'' ''duration_seconds''
              else if operation \<in> {A_ChatPin, A_ChatUnpin} then
                same_chat \<and> result_field data plan ''chat_list'' ''chat_list'' \<and> result_field data plan ''pinned'' ''pinned''
              else if operation \<in> {A_ChatArchive, A_ChatUnarchive} then
                same_chat \<and> result_field data plan ''archived'' ''archived''
              else if operation = A_ChatJoin then
                field data ''chat_id'' = JNull \<or> field plan ''chat'' = JNull \<or> same_chat
              else if operation = A_ChatLeave then same_chat
              else if operation = A_SessionTerminate then
                json_eq (field data ''session_id'') (field (field plan ''session'') ''id'')
              else case m6_operation_for_audit operation of
                     None \<Rightarrow> False
                   | Some m6 \<Rightarrow> m6_result_matches_plan m6 data plan)"

definition canonical_json_equal :: "dumper \<Rightarrow> json \<Rightarrow> json \<Rightarrow> bool" where
  "canonical_json_equal dump left right =
     (case (dump left, dump right) of (Some l, Some r) \<Rightarrow> l = r | _ \<Rightarrow> False)"

definition forward_terminal_items :: "json \<Rightarrow> json option" where
  "forward_terminal_items terminal =
     (let holder = (if json_eq (field terminal ''kind'') (JString ''result'') then field terminal ''data'' else field terminal ''details'')
      in if contains holder ''items'' then Some (field holder ''items'') else None)"

definition terminal_matches_latest_forward :: "dumper \<Rightarrow> open_group \<Rightarrow> json \<Rightarrow> bool" where
  "terminal_matches_latest_forward dump g terminal =
     (case forward_terminal_items terminal of
        None \<Rightarrow> True
      | Some terminal_items \<Rightarrow>
          (case final_forward_items g of
             None \<Rightarrow>
               json_eq (field terminal ''kind'') (JString ''error'') \<and> jempty terminal_items \<and>
               (json_eq (field terminal ''code'') (JString ''RATE_LIMITED'') \<or> json_eq (field terminal ''code'') (JString ''TIMEOUT''))
           | Some durable_items \<Rightarrow>
               if \<not> canonical_json_equal dump terminal_items durable_items then False
               else let source_ids = field (field (intent g) ''arguments'') ''message_ids''
                    in jsize terminal_items = jsize source_ids \<and>
                       list_all2 (\<lambda>item source. json_eq (field item ''source_id'') source)
                         (items_of terminal_items) (items_of source_ids)))"

definition derive_mutation_state :: "open_group \<Rightarrow> mutation_state" where
  "derive_mutation_state g =
     (if mutation_confirmed g \<or> any_forward_sent g then MutationCertain
      else if \<not> dispatch_started g then MutationNone
      else if \<not> forward_complete g then MutationPossible
      else case final_forward_items g of
             None \<Rightarrow> MutationPossible
           | Some items \<Rightarrow>
               if list_ex (\<lambda>item. item_status item ''failed'' \<and>
                    json_eq (field item ''failure_reason'') (JString ''deleted_before_confirmation'')) (items_of items)
               then MutationPossible else MutationNone)"

subsection \<open>The step of a record\<close>

definition file_snapshot_from_audit :: "json \<Rightarrow> file_snapshot" where
  "file_snapshot_from_audit v =
     \<lparr>fs_path = string_of (field v ''path''), fs_name = string_of (field v ''name''), fs_size = get_uint64 (field v ''size''),
      fs_sha256 = string_of (field v ''sha256''), fs_device = get_uint64 (field v ''device''),
      fs_inode = get_uint64 (field v ''inode''), fs_mtime_ns = get_int64 (field v ''mtime_ns''),
      fs_ctime_ns = get_int64 (field v ''ctime_ns'')\<rparr>"

definition view_checkpoint :: "json \<Rightarrow> completed_view \<Rightarrow> completed_view" where
  "view_checkpoint checkpoint view =
     (let stage = string_of (field checkpoint ''stage''); data = field checkpoint ''data''
      in if stage = ''idempotency_pending'' then view\<lparr>view_idempotency_pending := Some data\<rparr>
         else if stage = ''spool_ready'' then
           view\<lparr>view_spool := Some \<lparr>relative_path = string_of (field data ''relative_path''),
             spool_file = file_snapshot_from_audit (field data ''file'')\<rparr>\<rparr>
         else if stage = ''temporary_ids_observed'' then
           view\<lparr>view_temporary_message_ids := field data ''temporary_message_ids''\<rparr>
         else if stage = ''forward_progress'' then view\<lparr>view_forward_progress := field data ''items''\<rparr>
         else if stage = ''mutation_confirmed'' then view\<lparr>view_mutation_proof := Some data\<rparr>
         else view)"

definition make_completed_view :: "open_group \<Rightarrow> json \<Rightarrow> string + completed_view" where
  "make_completed_view g outcome =
     (case (parse_account_audit_operation (string_of (field (intent g) ''command'')),
            timestamp_unix_seconds (field (intent g) ''timestamp'')) of
        (Some operation, Some unix_seconds) \<Rightarrow>
          Inr (fold view_checkpoint (checkpoints g)
            \<lparr>view_audit_generation = audit_generation g,
             view_invocation_id = string_of (field (intent g) ''invocation_id''),
             view_account = string_of (field (intent g) ''account''),
             view_operation = operation,
             view_request_fingerprint = string_of (field (intent g) ''request_fingerprint''),
             view_idempotency_key_hash =
               (if field (intent g) ''idempotency_key_hash'' = JNull then None
                else Some (string_of (field (intent g) ''idempotency_key_hash''))),
             view_plan = field (intent g) ''plan'',
             view_intent_timestamp = string_of (field (intent g) ''timestamp''),
             view_intent_unix_seconds = unix_seconds,
             view_idempotency_pending = None, view_spool = None,
             view_temporary_message_ids = JArray [], view_forward_progress = JArray [],
             view_mutation_proof = None, view_completed_stages = completed_stages g, view_outcome = outcome\<rparr>)
      | _ \<Rightarrow> Inl ''validated completed group lost its typed intent facts'')"

text \<open>The typed form of a checkpoint record; \<open>None\<close> when its command or stage does not parse.\<close>

definition checkpoint_of :: "json \<Rightarrow> checkpoint_input option" where
  "checkpoint_of document =
     (case (parse_account_audit_operation (string_of (field document ''command'')),
            parse_account_audit_stage (string_of (field document ''stage''))) of
        (Some operation, Some stage) \<Rightarrow>
          Some \<lparr>ci_invocation_id = string_of (field document ''invocation_id''),
            ci_timestamp = string_of (field document ''timestamp''), ci_account = string_of (field document ''account''),
            ci_operation = operation, ci_sequence = get_uint64 (field document ''checkpoint_sequence''), ci_stage = stage,
            ci_data = field document ''data''\<rparr>
      | _ \<Rightarrow> None)"

fun history_of :: "json list \<Rightarrow> checkpoint_input list option" where
  "history_of [] = Some []"
| "history_of (prior # priors) =
     (case checkpoint_of prior of
        None \<Rightarrow> None
      | Some c \<Rightarrow> map_option (\<lambda>cs. c # cs) (history_of priors))"

definition pending_ids :: "json list \<Rightarrow> json" where
  "pending_ids items =
     JArray (map (\<lambda>item. field item ''temporary_message_id'') (filter (\<lambda>item. item_status item ''pending'') items))"

text \<open>The checks of a checkpoint against the intent of its group, stage by stage.\<close>

definition checkpoint_contradicts :: "open_group \<Rightarrow> checkpoint_input \<Rightarrow> string option" where
  "checkpoint_contradicts g c =
     (if ci_stage c = IdempotencyPending then
        if field (intent g) ''idempotency_key_hash'' = JNull \<or>
           \<not> json_eq (field (ci_data c) ''key_hash'') (field (intent g) ''idempotency_key_hash'') \<or>
           \<not> json_eq (field (ci_data c) ''request_fingerprint'') (field (intent g) ''request_fingerprint'')
        then Some ''idempotency checkpoint contradicts the intent'' else None
      else if ci_stage c = SpoolReady then
        if \<not> json_eq (field (ci_data c) ''file'') (field (field (intent g) ''plan'') ''file'')
        then Some ''spool checkpoint file contradicts the intent'' else None
      else if ci_stage c = TemporaryIdsObserved then
        let ids = field (ci_data c) ''temporary_message_ids'';
            maximum_count = (if ci_operation c = A_MsgForward
                             then jsize (field (field (intent g) ''arguments'') ''message_ids'') else 1)
        in if jsize ids > maximum_count \<or> ci_operation c \<noteq> A_MsgForward \<and> jsize ids \<noteq> 1
           then Some ''temporary id vector does not match the intent'' else None
      else if ci_stage c = ForwardProgress then
        let expected = field (field (intent g) ''arguments'') ''message_ids''; items = field (ci_data c) ''items''
        in if jsize items \<noteq> jsize expected then Some ''forward vector does not match the intent''
           else if \<not> list_all2 (\<lambda>item source. json_eq (field item ''source_id'') source) (items_of items) (items_of expected)
           then Some ''forward source order does not match the intent''
           else if find (checkpoint_is ''forward_progress'') (checkpoints g) = None \<and>
             (case find (checkpoint_is ''temporary_ids_observed'') (checkpoints g) of
                None \<Rightarrow> \<not> jempty (pending_ids (items_of items))
              | Some temporary \<Rightarrow>
                  \<not> json_eq (field (field temporary ''data'') ''temporary_message_ids'') (pending_ids (items_of items)))
           then Some ''forward pending ids do not match the durable temporary ids''
           else None
      else None)"

text \<open>The checks of a mutation proof against the plan and the forward vector.\<close>

definition proof_contradicts :: "dumper \<Rightarrow> open_group \<Rightarrow> checkpoint_input \<Rightarrow> string option" where
  "proof_contradicts dump g c =
     (if ci_stage c \<noteq> MutationConfirmed then None
      else let terminal = field (ci_data c) ''terminal''
           in if \<not> terminal_matches_plan (ci_operation c) terminal (intent g)
              then Some ''mutation proof terminal contradicts the immutable plan''
              else if ci_operation c \<noteq> A_MsgForward then None
              else if \<not> terminal_matches_latest_forward dump g terminal
              then Some ''mutation proof terminal contradicts the latest durable forward vector''
              else if json_eq (field terminal ''kind'') (JString ''error'') \<and> json_eq (field terminal ''code'') (JString ''INTERNAL'')
              then if final_forward_items g \<noteq> None then Some ''forward oversized terminal follows a persisted vector'' else None
              else if json_eq (field terminal ''kind'') (JString ''error'') \<and> json_eq (field terminal ''code'') (JString ''TIMEOUT'')
              then if forward_complete g then Some ''forward timeout mutation proof follows a complete vector'' else None
              else if \<not> forward_complete g then Some ''forward mutation proof precedes a complete vector''
              else (case derive_forward_terminal g of
                      Inl e \<Rightarrow> Some e
                    | Inr derived \<Rightarrow>
                        if \<not> canonical_json_equal dump terminal derived
                        then Some ''forward mutation proof contradicts the terminal vector'' else None))"

text \<open>The state update of an accepted checkpoint.\<close>

definition push_checkpoint :: "json \<Rightarrow> checkpoint_input \<Rightarrow> open_group \<Rightarrow> open_group" where
  "push_checkpoint document c g =
     (let items = items_of (field (ci_data c) ''items'')
      in g\<lparr>checkpoints := checkpoints g @ [document],
           completed_stages :=
             (if ci_stage c = ForwardProgress \<and> ForwardProgress \<in> set (completed_stages g) then completed_stages g
              else completed_stages g @ [ci_stage c]),
           any_forward_sent :=
             (if ci_stage c = ForwardProgress
              then any_forward_sent g \<or> list_ex (\<lambda>item. item_status item ''sent'') items else any_forward_sent g),
           forward_complete :=
             (if ci_stage c = ForwardProgress then forward_vector_complete (field (ci_data c) ''items'') else forward_complete g),
           has_spool := (has_spool g \<or> ci_stage c = SpoolReady),
           dispatch_started := (dispatch_started g \<or> ci_stage c = DispatchStarted),
           mutation_confirmed := (mutation_confirmed g \<or> ci_stage c = MutationConfirmed)\<rparr>)"

definition consume_checkpoint :: "dumper \<Rightarrow> json \<Rightarrow> open_group \<Rightarrow> string + open_group" where
  "consume_checkpoint dump document g =
     (case checkpoint_of document of
        None \<Rightarrow> Inl ''validated v2 checkpoint lost its enum identity''
      | Some c \<Rightarrow>
          (case checkpoint_contradicts g c of
             Some e \<Rightarrow> Inl e
           | None \<Rightarrow>
               (case history_of (checkpoints g) of
                  None \<Rightarrow> Inl ''validated v2 history lost its enum identity''
                | Some history \<Rightarrow>
                    (case transition_history (ci_operation c) (history @ [c]) of
                       Some e \<Rightarrow> Inl e
                     | None \<Rightarrow>
                         (case proof_contradicts dump g c of
                            Some e \<Rightarrow> Inl e
                          | None \<Rightarrow> Inr (push_checkpoint document c g))))))"

text \<open>The last check of an outcome: its terminal is the stored proof, or the one derived from a complete vector.\<close>

definition outcome_terminal_contradicts :: "dumper \<Rightarrow> json \<Rightarrow> open_group \<Rightarrow> string option" where
  "outcome_terminal_contradicts dump terminal g =
     (if mutation_confirmed g then
        (case find (checkpoint_is ''mutation_confirmed'') (rev (checkpoints g)) of
           None \<Rightarrow> Some ''v2 outcome terminal contradicts the mutation proof''
         | Some found \<Rightarrow>
             if \<not> canonical_json_equal dump terminal (field (field found ''data'') ''terminal'')
             then Some ''v2 outcome terminal contradicts the mutation proof'' else None)
      else if forward_complete g then
        (case derive_forward_terminal g of
           Inl e \<Rightarrow> Some e
         | Inr derived \<Rightarrow>
             if \<not> canonical_json_equal dump terminal derived
             then Some ''v2 outcome contradicts the terminal forward vector'' else None)
      else None)"

definition consume_outcome :: "dumper \<Rightarrow> json \<Rightarrow> open_group \<Rightarrow> string + completed_view" where
  "consume_outcome dump document g =
     (if \<not> json_eq (field document ''completed_stages'') (stage_names (completed_stages g))
      then Inl ''v2 outcome stages do not match the durable prefix''
      else let terminal = field document ''terminal'';
               operation = parse_account_audit_operation (string_of (field (intent g) ''command''));
               expected_mutation = derive_mutation_state g;
               explicit_no_mutation =
                 (case operation of
                    None \<Rightarrow> False
                  | Some op \<Rightarrow>
                      expected_mutation = MutationPossible \<and> json_eq (field document ''mutation_state'') (JString ''none'') \<and>
                      terminal_proves_explicit_no_mutation op terminal)
           in if \<not> json_eq (field document ''mutation_state'') (JString (account_audit_mutation_state_name expected_mutation)) \<and>
                 \<not> explicit_no_mutation
              then Inl ''v2 outcome mutation state contradicts the durable prefix''
              else (case operation of
                      None \<Rightarrow> Inl ''v2 outcome terminal contradicts the immutable plan''
                    | Some op \<Rightarrow>
                        if \<not> terminal_matches_plan op terminal (intent g)
                        then Inl ''v2 outcome terminal contradicts the immutable plan''
                        else if op = A_MsgForward \<and> \<not> terminal_matches_latest_forward dump g terminal
                        then Inl ''v2 outcome terminal contradicts the latest durable forward vector''
                        else (case outcome_terminal_contradicts dump terminal g of
                                Some e \<Rightarrow> Inl e
                              | None \<Rightarrow> make_completed_view g document)))"

definition open_group_of :: "nat \<Rightarrow> json \<Rightarrow> open_group" where
  "open_group_of generation document =
     \<lparr>audit_generation = generation, intent = document, checkpoints = [], completed_stages = [],
      keyed = (field document ''idempotency_key_hash'' \<noteq> JNull), has_spool = False, dispatch_started = False,
      mutation_confirmed = False, forward_complete = False, any_forward_sent = False\<rparr>"

definition matching_group :: "json \<Rightarrow> scan_state \<Rightarrow> open_group option" where
  "matching_group document state =
     (case open_of state of
        None \<Rightarrow> None
      | Some g \<Rightarrow>
          if json_eq (field (intent g) ''invocation_id'') (field document ''invocation_id'') \<and>
             json_eq (field (intent g) ''command'') (field document ''command'') \<and>
             json_eq (field (intent g) ''account'') (field document ''account'')
          then Some g else None)"

definition consume_v2 :: "dumper \<Rightarrow> nat \<Rightarrow> json \<Rightarrow> scan_state \<Rightarrow> string + (scan_state \<times> completed_view option)" where
  "consume_v2 dump generation document state =
     (if \<not> is_object document \<or> \<not> contains document ''phase'' \<or> \<not> is_string (field document ''phase'')
      then Inl ''invalid v2 record phase''
      else let phase = string_of (field document ''phase'')
           in if phase = ''intent'' then
                if open_of state \<noteq> None then Inl ''v2 intent contradicts chronology''
                else (case validate_intent_impl dump document of
                        Some e \<Rightarrow> Inl e
                      | None \<Rightarrow> Inr (state\<lparr>open_of := Some (open_group_of generation document)\<rparr>, None))
              else if phase \<noteq> ''checkpoint'' \<and> phase \<noteq> ''outcome'' then Inl ''invalid v2 record phase''
              else (case (if phase = ''checkpoint'' then validate_checkpoint_impl dump document
                          else validate_outcome_impl dump document) of
                      Some e \<Rightarrow> Inl e
                    | None \<Rightarrow>
                        (case matching_group document state of
                           None \<Rightarrow> Inl ''v2 record has no matching open group''
                         | Some g \<Rightarrow>
                             if phase = ''checkpoint'' then
                               (case consume_checkpoint dump document g of
                                  Inl e \<Rightarrow> Inl e
                                | Inr g' \<Rightarrow> Inr (state\<lparr>open_of := Some g'\<rparr>, None))
                             else
                               (case consume_outcome dump document g of
                                  Inl e \<Rightarrow> Inl e
                                | Inr view \<Rightarrow> Inr (state\<lparr>open_of := None\<rparr>, Some view)))))"

subsection \<open>Records the daemon writes\<close>

record intent_input =
  in_invocation_id :: string
  in_timestamp :: string
  in_account :: string
  in_operation :: audit_operation
  in_arguments :: json
  in_plan :: json
  in_request_fingerprint :: string
  in_config_snapshot :: string
  in_authority_source :: string
  in_confirmation_source :: "string option"
  in_idempotency_key_hash :: "string option"
  in_request_source_bytes :: nat

record outcome_input =
  out_invocation_id :: string
  out_timestamp :: string
  out_account :: string
  out_operation :: audit_operation
  out_success :: bool
  out_mutation_state :: mutation_state
  out_completed_stages :: "audit_stage list"
  out_terminal :: json

definition nullable_string :: "string option \<Rightarrow> json" where
  "nullable_string s = (case s of None \<Rightarrow> JNull | Some t \<Rightarrow> JString t)"

definition intent_document :: "intent_input \<Rightarrow> json" where
  "intent_document i =
     JObject [(''account'', JString (in_account i)), (''arguments'', in_arguments i),
       (''authority_source'', JString (in_authority_source i)),
       (''command'', JString (account_audit_operation_name (in_operation i))),
       (''config_snapshot'', JString (in_config_snapshot i)),
       (''confirmation_source'', nullable_string (in_confirmation_source i)),
       (''idempotency_key_hash'', nullable_string (in_idempotency_key_hash i)),
       (''invocation_id'', JString (in_invocation_id i)), (''phase'', JString ''intent''), (''plan'', in_plan i),
       (''request_fingerprint'', JString (in_request_fingerprint i)), (''schema_version'', JInt 2),
       (''timestamp'', JString (in_timestamp i))]"

definition make_account_audit_intent :: "dumper \<Rightarrow> intent_input \<Rightarrow> string + json" where
  "make_account_audit_intent dump i =
     (if in_request_source_bytes i = 0 \<or> in_request_source_bytes i > kRequestSourceBytes
      then Inl ''request source exceeds the v2 admission ceiling''
      else case validate_intent_impl dump (intent_document i) of
             Some e \<Rightarrow> Inl e
           | None \<Rightarrow> Inr (intent_document i))"

definition checkpoint_document :: "checkpoint_input \<Rightarrow> json" where
  "checkpoint_document c =
     JObject [(''account'', JString (ci_account c)), (''checkpoint_sequence'', JUInt (ci_sequence c)),
       (''command'', JString (account_audit_operation_name (ci_operation c))), (''data'', ci_data c),
       (''invocation_id'', JString (ci_invocation_id c)), (''phase'', JString ''checkpoint''), (''schema_version'', JInt 2),
       (''stage'', JString (account_audit_stage_name (ci_stage c))), (''timestamp'', JString (ci_timestamp c))]"

definition make_account_audit_checkpoint :: "dumper \<Rightarrow> checkpoint_input \<Rightarrow> string + json" where
  "make_account_audit_checkpoint dump c =
     (case validate_checkpoint_impl dump (checkpoint_document c) of
        Some e \<Rightarrow> Inl e
      | None \<Rightarrow> Inr (checkpoint_document c))"

definition outcome_document :: "outcome_input \<Rightarrow> json" where
  "outcome_document out =
     JObject [(''account'', JString (out_account out)), (''command'', JString (account_audit_operation_name (out_operation out))),
       (''completed_stages'', stage_names (out_completed_stages out)), (''invocation_id'', JString (out_invocation_id out)),
       (''mutation_state'', JString (account_audit_mutation_state_name (out_mutation_state out))),
       (''phase'', JString ''outcome''), (''schema_version'', JInt 2), (''success'', JBool (out_success out)),
       (''terminal'', out_terminal out), (''timestamp'', JString (out_timestamp out))]"

definition make_account_audit_outcome :: "dumper \<Rightarrow> outcome_input \<Rightarrow> string + json" where
  "make_account_audit_outcome dump out =
     (case validate_outcome_impl dump (outcome_document out) of
        Some e \<Rightarrow> Inl e
      | None \<Rightarrow> Inr (outcome_document out))"

subsection \<open>Recovery\<close>

record audit_pin =
  pin_audit_generation :: nat
  pin_invocation_id :: string
  pin_request_fingerprint :: string
  pin_operation :: audit_operation

datatype audit_pin_source = KnownPins "audit_pin list" | UnavailablePins durability_reason | AbsentPinsByPolicy

type_synonym pin_index = "((nat \<times> string) \<times> audit_pin \<times> bool) list"

text \<open>The loop of \<open>make_pin_index\<close>; the map, an association list, holds each pin with its \<open>matched\<close> flag.\<close>

fun pin_index_loop :: "pin_index \<Rightarrow> audit_pin list \<Rightarrow> string + pin_index" where
  "pin_index_loop result [] = Inr result"
| "pin_index_loop result (pin # pins) =
     (if pin_audit_generation pin = 0 \<or> \<not> valid_hex (pin_invocation_id pin) 32 \<or>
         \<not> valid_hash (JString (pin_request_fingerprint pin)) \<or> account_audit_operation_name (pin_operation pin) = []
      then Inl ''audit pin has an invalid tuple''
      else let key = (pin_audit_generation pin, pin_invocation_id pin)
           in if map_of result key \<noteq> None then Inl ''audit pin tuple is duplicated''
              else pin_index_loop ((key, pin, False) # result) pins)"

definition make_pin_index :: "audit_pin_source option \<Rightarrow> string + pin_index" where
  "make_pin_index source =
     (case source of
        Some (KnownPins pins) \<Rightarrow>
          if length pins > 10000 then Inl ''audit pin count exceeds the bounded store maximum''
          else pin_index_loop [] pins
      | _ \<Rightarrow> Inr [])"

definition match_pin :: "pin_index \<Rightarrow> nat \<Rightarrow> json \<Rightarrow> string + pin_index" where
  "match_pin pins generation intent_doc =
     (let key = (generation, string_of (field intent_doc ''invocation_id''))
      in case map_of pins key of
           None \<Rightarrow> Inr pins
         | Some (pin, matched) \<Rightarrow>
             (case parse_account_audit_operation (string_of (field intent_doc ''command'')) of
                None \<Rightarrow> Inl ''audit pin does not uniquely match its durable intent''
              | Some operation \<Rightarrow>
                  if matched \<or> pin_request_fingerprint pin \<noteq> string_of (field intent_doc ''request_fingerprint'') \<or>
                     pin_operation pin \<noteq> operation
                  then Inl ''audit pin does not uniquely match its durable intent''
                  else Inr (map (\<lambda>item. if fst item = key then (key, pin, True) else item) pins)))"

definition all_pins_matched :: "pin_index \<Rightarrow> bool" where
  "all_pins_matched pins \<longleftrightarrow> list_all (\<lambda>item. snd (snd item)) pins"

datatype recovery_boundary =
    DeleteSpoolAndSyncRoot | AppendMutationProofAndSync | AppendOutcomeAndSync | TransitionStoreAndSync
  | CleanupSpoolAndSyncRoot

record recovery_plan =
  rp_mutation_state :: mutation_state
  rp_terminal :: json
  rp_boundaries :: "recovery_boundary list"
  rp_continue_current_request :: bool
  rp_retain_store :: bool
  rp_complete_store :: bool
  rp_retain_spool :: bool

definition mark_read_noop :: "audit_operation \<Rightarrow> open_group \<Rightarrow> bool" where
  "mark_read_noop operation g \<longleftrightarrow>
     operation = A_ChatMarkRead \<and> field (field (intent g) ''plan'') ''tdlib_request'' = JNull \<and>
     field (field (intent g) ''plan'') ''last_message_id'' = JNull"

definition mark_read_result :: "open_group \<Rightarrow> json" where
  "mark_read_result g =
     JObject [(''data'', JObject [(''chat_id'', field (field (field (intent g) ''plan'') ''chat'') ''id''),
         (''last_read_message_id'', JNull), (''marked_read'', JBool True)]),
       (''kind'', JString ''result'')]"

text \<open>The three parts of \<open>classify_account_audit_recovery\<close>: before dispatch, dispatched without a proof, and with a proof.\<close>

definition recover_undispatched :: "open_group \<Rightarrow> audit_operation \<Rightarrow> string \<Rightarrow> string \<Rightarrow> recovery_plan" where
  "recover_undispatched g operation account audit_path =
     \<lparr>rp_mutation_state = MutationNone,
      rp_terminal =
        (if mark_read_noop operation g then mark_read_result g
         else incomplete_terminal account audit_path MutationNone (completed_stages g)),
      rp_boundaries =
        (if has_spool g then [DeleteSpoolAndSyncRoot] else []) @ [AppendOutcomeAndSync] @
        (if keyed g then [TransitionStoreAndSync] else []),
      rp_continue_current_request = True,
      rp_retain_store = False,
      rp_complete_store =
        (keyed g \<and> mark_read_noop operation g \<and> IdempotencyPending \<in> set (completed_stages g)),
      rp_retain_spool = False\<rparr>"

definition recover_unproved :: "open_group \<Rightarrow> string \<Rightarrow> string \<Rightarrow> recovery_plan" where
  "recover_unproved g account audit_path =
     \<lparr>rp_mutation_state = derive_mutation_state g,
      rp_terminal = incomplete_terminal account audit_path (derive_mutation_state g) (completed_stages g),
      rp_boundaries = [AppendOutcomeAndSync], rp_continue_current_request = False,
      rp_retain_store = keyed g, rp_complete_store = False, rp_retain_spool = has_spool g\<rparr>"

definition proof_terminal :: "open_group \<Rightarrow> string + json" where
  "proof_terminal g =
     (case find (checkpoint_is ''mutation_confirmed'') (rev (checkpoints g)) of
        None \<Rightarrow> Inl ''mutation proof is missing its stored terminal''
      | Some found \<Rightarrow> Inr (field (field found ''data'') ''terminal''))"

definition recover_proved :: "open_group \<Rightarrow> audit_operation \<Rightarrow> string + recovery_plan" where
  "recover_proved g operation =
     (case (if mutation_confirmed g then proof_terminal g else derive_forward_terminal g) of
        Inl e \<Rightarrow> Inl e
      | Inr terminal \<Rightarrow>
          let retain_incomplete_forward =
                (operation = A_MsgForward \<and> mutation_confirmed g \<and> \<not> forward_complete g \<and> final_forward_items g \<noteq> None)
          in Inr \<lparr>rp_mutation_state = derive_mutation_state g, rp_terminal = terminal,
               rp_boundaries =
                 (if forward_complete g \<and> any_forward_sent g \<and> \<not> mutation_confirmed g
                  then [AppendMutationProofAndSync] else []) @
                 [AppendOutcomeAndSync] @ (if keyed g then [TransitionStoreAndSync] else []) @
                 (if has_spool g \<and> \<not> retain_incomplete_forward then [CleanupSpoolAndSyncRoot] else []),
               rp_continue_current_request = True,
               rp_retain_store = (keyed g \<and> retain_incomplete_forward), rp_complete_store = False,
               rp_retain_spool = (has_spool g \<and> retain_incomplete_forward)\<rparr>)"

definition classify_account_audit_recovery ::
  "open_group \<Rightarrow> string \<Rightarrow> string \<Rightarrow> audit_pin_source \<Rightarrow> string + recovery_plan" where
  "classify_account_audit_recovery g account audit_path pins =
     (case parse_account_audit_operation (string_of (field (intent g) ''command'')) of
        None \<Rightarrow> Inl ''audit recovery group has an invalid operation''
      | Some operation \<Rightarrow>
          if (case pins of UnavailablePins reason \<Rightarrow> True | _ \<Rightarrow> False) then Inl ''audit pin provider is unavailable''
          else if pins = AbsentPinsByPolicy \<and> (keyed g \<or> has_spool g)
          then Inl ''store-dependent audit group cannot be recovered without store policy''
          else if \<not> dispatch_started g then Inr (recover_undispatched g operation account audit_path)
          else if \<not> mutation_confirmed g \<and> \<not> forward_complete g then Inr (recover_unproved g account audit_path)
          else recover_proved g operation)"

subsection \<open>Checks for the idempotency store\<close>

definition validate_persisted_terminal :: "audit_operation \<Rightarrow> json \<Rightarrow> json \<Rightarrow> string \<Rightarrow> bool" where
  "validate_persisted_terminal operation terminal plan account =
     (if \<not> valid_plan operation plan account \<or> \<not> valid_terminal operation terminal then False
      else terminal_matches_plan operation terminal (JObject [(''account'', JString account), (''plan'', plan)]))"

definition validate_persisted_temporary_ids :: "audit_operation \<Rightarrow> json \<Rightarrow> json \<Rightarrow> bool" where
  "validate_persisted_temporary_ids operation temporary_ids plan =
     (if \<not> is_array temporary_ids \<or> jempty temporary_ids then is_array temporary_ids
      else if operation \<noteq> A_Send \<and> operation \<noteq> A_SavedAttach \<and> operation \<noteq> A_MsgForward then False
      else let maximum = (if operation = A_MsgForward
                          then if contains plan ''message_ids'' then jsize (field plan ''message_ids'') else 0
                          else 1)
           in valid_message_id_array temporary_ids 1 maximum \<and> (operation = A_MsgForward \<or> jsize temporary_ids = 1))"

definition validate_persisted_forward_progress :: "audit_operation \<Rightarrow> json \<Rightarrow> json \<Rightarrow> bool" where
  "validate_persisted_forward_progress operation items plan =
     (if \<not> is_array items \<or> jempty items then is_array items
      else if operation \<noteq> A_MsgForward \<or> \<not> is_object plan \<or> \<not> contains plan ''message_ids'' \<or>
        \<not> is_array (field plan ''message_ids'') \<or> \<not> valid_forward_items items False False \<or>
        jsize items \<noteq> jsize (field plan ''message_ids'') then False
      else list_all2 (\<lambda>item source. json_eq (field item ''source_id'') source) (items_of items) (items_of (field plan ''message_ids'')))"

definition account_audit_terminal_reservation :: "audit_operation \<Rightarrow> nat" where
  "account_audit_terminal_reservation operation =
     (if m6_operation_for_audit operation \<noteq> None then kOtherTerminalBytes else terminal_byte_ceiling operation)"

end
