(* ===== verification/Audit_Order.thy ===== *)
theory Audit_Order
  imports Audit_History
begin

text \<open>
  \<^bold>\<open>The order of checkpoints\<close>: what \<open>transition_history\<close> guarantees of the histories it accepts. The completed
  stages are a function of the flags of the automaton, they increase in rank, and they are always a prefix
  that the outcome record may list (\<open>legal_completed_stages\<close>).
\<close>

subsection \<open>Checkpoint order\<close>

text \<open>The stages a history has completed are a function of the flags of the automaton.\<close>

definition stages_of :: "history_state \<Rightarrow> audit_stage list" where
  "stages_of h =
     (if saw_idempotency h then [IdempotencyPending] else []) @ (if saw_spool h then [SpoolReady] else []) @
     (if saw_dispatch h then [DispatchStarted] else []) @ (if saw_temporary_ids h then [TemporaryIdsObserved] else []) @
     (if previous_forward h \<noteq> None then [ForwardProgress] else []) @ (if saw_mutation h then [MutationConfirmed] else [])"

definition spooling :: "audit_operation \<Rightarrow> bool" where
  "spooling operation \<longleftrightarrow> operation = A_SavedAttach \<or> write_operation_uses_photo_spool (Some operation)"

definition flags_inv :: "audit_operation \<Rightarrow> history_state \<Rightarrow> bool" where
  "flags_inv operation h \<longleftrightarrow>
     (saw_idempotency h \<longrightarrow> write_operation_idempotent (Some operation)) \<and>
     (saw_spool h \<longrightarrow> spooling operation) \<and>
     (saw_dispatch h \<longrightarrow> operation = A_SavedAttach \<longrightarrow> saw_spool h) \<and>
     (saw_temporary_ids h \<longrightarrow> saw_dispatch h \<and> operation \<in> {A_Send, A_SavedAttach, A_MsgForward}) \<and>
     (previous_forward h \<noteq> None \<longrightarrow> saw_dispatch h \<and> operation = A_MsgForward) \<and>
     (saw_mutation h \<longrightarrow> saw_dispatch h) \<and>
     progress_count h \<le> kMaximumForwardProgressRecords \<and>
     (previous_forward h = None \<longleftrightarrow> progress_count h = 0)"

definition history_inv :: "audit_operation \<Rightarrow> history_state \<Rightarrow> bool" where
  "history_inv operation h \<longleftrightarrow>
     flags_inv operation h \<and> set (stages_of h) \<subseteq> set (allowed_order operation) \<and>
     previous_position h =
       (if stages_of h = [] then None else index_of (last (stages_of h)) (allowed_order operation))"

lemma history_inv_init: "history_inv operation history_init"
  by (simp add: history_inv_def flags_inv_def history_init_def stages_of_def)

definition push_stage :: "audit_stage list \<Rightarrow> audit_stage \<Rightarrow> audit_stage list" where
  "push_stage stages stage = (if stage = ForwardProgress \<and> ForwardProgress \<in> set stages then stages else stages @ [stage])"

text \<open>Every allowed order lists the stages by increasing rank, so positions compare as ranks do.\<close>

fun rank :: "audit_stage \<Rightarrow> nat" where
  "rank IdempotencyPending = 0"
| "rank SpoolReady = 1"
| "rank DispatchStarted = 2"
| "rank TemporaryIdsObserved = 3"
| "rank ForwardProgress = 4"
| "rank MutationConfirmed = 5"

lemma rank_inject: "rank s = rank t \<Longrightarrow> s = t"
  by (cases s; cases t) simp_all

lemma allowed_order_sorted: "sorted_wrt (\<lambda>s t. rank s < rank t) (allowed_order operation)"
  by (simp add: allowed_order_def)

lemma stages_of_sorted: "sorted_wrt (\<lambda>s t. rank s < rank t) (stages_of h)"
  by (simp add: stages_of_def)

lemma index_of_memb: "x \<in> set xs \<Longrightarrow> \<exists>i. index_of x xs = Some i"
  by (induction xs) auto

lemma index_of_rank:
  assumes "sorted_wrt (\<lambda>s t. rank s < rank t) xs" "index_of s xs = Some i" "index_of t xs = Some j"
  shows "i \<le> j \<longleftrightarrow> rank s \<le> rank t"
proof -
  have less: "rank (xs ! a) < rank (xs ! b)" if "a < b" "b < length xs" for a b
    using sorted_wrt_nth_less [OF assms(1)] that by blast
  from index_of_Some [OF assms(2)] index_of_Some [OF assms(3)] less show ?thesis
    by (metis leD leI order_le_less)
qed

lemma last_max_rank:
  assumes "t \<in> set (stages_of h)"
  shows "rank t \<le> rank (last (stages_of h))"
proof -
  obtain xs x where e: "stages_of h = xs @ [x]" using assms by (cases "stages_of h" rule: rev_cases) auto
  then show ?thesis using stages_of_sorted [of h] assms by (auto simp: sorted_wrt_append)
qed

lemma photo_distinct:
  assumes "write_operation_uses_photo_spool (Some operation)"
  shows "operation \<noteq> A_SavedAttach \<and> operation \<noteq> A_MsgForward \<and> operation \<noteq> A_Send"
proof -
  have "\<not> write_operation_uses_photo_spool (Some A_SavedAttach)" "\<not> write_operation_uses_photo_spool (Some A_MsgForward)"
    "\<not> write_operation_uses_photo_spool (Some A_Send)" by code_simp+
  with assms show ?thesis by auto
qed

text \<open>What a successful step says of the stage, without the parts that depend on the data.\<close>

lemma history_step_shape:
  assumes "history_step operation c h = Inr h'"
  obtains position h1 where
    "index_of (ci_stage c) (allowed_order operation) = Some position"
    "case previous_position h of None \<Rightarrow> True | Some p \<Rightarrow> p \<le> position"
    "previous_position h = Some position \<Longrightarrow> ci_stage c = ForwardProgress"
    "ci_stage c = IdempotencyPending \<Longrightarrow> write_operation_idempotent (Some operation)"
    "history_switch operation (ci_stage c) (h\<lparr>previous_sequence := ci_sequence c\<rparr>) = Inr h1"
    "if ci_stage c = ForwardProgress
     then h' = h1\<lparr>progress_count := progress_count h1 + 1, previous_forward := Some (field (ci_data c) ''items''),
            previous_position := Some position\<rparr> \<and> progress_count h1 + 1 \<le> kMaximumForwardProgressRecords
     else h' = h1\<lparr>previous_position := Some position\<rparr>"
    "ci_operation c = operation" "ci_sequence c > previous_sequence h" "valid_checkpoint_data operation (ci_stage c) (ci_data c)"
proof -
  from assms obtain position h1 h2 where *:
    "index_of (ci_stage c) (allowed_order operation) = Some position"
    "\<not> (case previous_position h of None \<Rightarrow> False | Some p \<Rightarrow> position < p)"
    "\<not> (previous_position h = Some position \<and> ci_stage c \<noteq> ForwardProgress)"
    "\<not> (ci_stage c = IdempotencyPending \<and> \<not> write_operation_idempotent (Some operation))"
    "history_switch operation (ci_stage c) (h\<lparr>previous_sequence := ci_sequence c\<rparr>) = Inr h1"
    "(if ci_stage c = ForwardProgress then history_forward (field (ci_data c) ''items'') h1 else Inr h1) = Inr h2"
    "h' = h2\<lparr>previous_position := Some position\<rparr>"
    "ci_operation c = operation" "\<not> ci_sequence c \<le> previous_sequence h" "valid_checkpoint_data operation (ci_stage c) (ci_data c)"
    by (auto simp: history_step_def split: if_splits option.splits sum.splits)
  have fwd: "h2 = h1\<lparr>progress_count := progress_count h1 + 1, previous_forward := Some (field (ci_data c) ''items'')\<rparr> \<and>
      progress_count h1 + 1 \<le> kMaximumForwardProgressRecords" if "ci_stage c = ForwardProgress"
    using *(6) that by (auto simp: history_forward_def Let_def split: if_splits option.splits sum.splits)
  show thesis
  proof (rule that)
    show "if ci_stage c = ForwardProgress
     then h' = h1\<lparr>progress_count := progress_count h1 + 1, previous_forward := Some (field (ci_data c) ''items''),
            previous_position := Some position\<rparr> \<and> progress_count h1 + 1 \<le> kMaximumForwardProgressRecords
     else h' = h1\<lparr>previous_position := Some position\<rparr>"
      using * fwd by (cases "ci_stage c = ForwardProgress") auto
  qed (use * in \<open>auto split: option.splits\<close>)
qed

lemma stages_of_memb:
  "IdempotencyPending \<in> set (stages_of h) \<longleftrightarrow> saw_idempotency h"
  "SpoolReady \<in> set (stages_of h) \<longleftrightarrow> saw_spool h"
  "DispatchStarted \<in> set (stages_of h) \<longleftrightarrow> saw_dispatch h"
  "TemporaryIdsObserved \<in> set (stages_of h) \<longleftrightarrow> saw_temporary_ids h"
  "ForwardProgress \<in> set (stages_of h) \<longleftrightarrow> previous_forward h \<noteq> None"
  "MutationConfirmed \<in> set (stages_of h) \<longleftrightarrow> saw_mutation h"
  by (auto simp: stages_of_def)

lemma history_step_rank:
  assumes "history_inv operation h" and "index_of stage (allowed_order operation) = Some position"
    and "case previous_position h of None \<Rightarrow> True | Some p \<Rightarrow> p \<le> position"
    and "previous_position h = Some position \<Longrightarrow> stage = ForwardProgress"
    and "t \<in> set (stages_of h)"
  shows "rank t < rank stage \<or> t = ForwardProgress \<and> stage = ForwardProgress"
proof -
  have ne: "stages_of h \<noteq> []" using assms(5) by auto
  define l where "l = last (stages_of h)"
  have "l \<in> set (allowed_order operation)" using assms(1) ne last_in_set unfolding history_inv_def l_def by blast
  then obtain p where p: "index_of l (allowed_order operation) = Some p" using index_of_memb by metis
  have "previous_position h = (if stages_of h = [] then None else index_of l (allowed_order operation))"
    using assms(1) unfolding history_inv_def l_def by (elim conjE)
  then have pp: "previous_position h = Some p" using ne p by simp
  then have ls: "rank l \<le> rank stage" using index_of_rank [OF allowed_order_sorted p assms(2)] assms(3) by simp
  have tl: "rank t \<le> rank l" unfolding l_def by (rule last_max_rank [OF assms(5)])
  show ?thesis
  proof (cases "rank t < rank stage")
    case False
    with ls tl have "rank l = rank stage" "rank t = rank stage" by linarith+
    then have "l = stage" "t = stage" by (metis rank_inject)+
    with p assms(2,4) pp show ?thesis by simp
  qed simp
qed

lemma history_step_inv:
  assumes "history_inv operation h" and "history_step operation c h = Inr h'"
  shows "history_inv operation h' \<and> stages_of h' = push_stage (stages_of h) (ci_stage c)"
  using assms(2)
proof (rule history_step_shape)
  fix position h1
  assume s: "index_of (ci_stage c) (allowed_order operation) = Some position"
    "case previous_position h of None \<Rightarrow> True | Some p \<Rightarrow> p \<le> position"
    "previous_position h = Some position \<Longrightarrow> ci_stage c = ForwardProgress"
    "ci_stage c = IdempotencyPending \<Longrightarrow> write_operation_idempotent (Some operation)"
    "history_switch operation (ci_stage c) (h\<lparr>previous_sequence := ci_sequence c\<rparr>) = Inr h1"
    "if ci_stage c = ForwardProgress
     then h' = h1\<lparr>progress_count := progress_count h1 + 1, previous_forward := Some (field (ci_data c) ''items''),
            previous_position := Some position\<rparr> \<and> progress_count h1 + 1 \<le> kMaximumForwardProgressRecords
     else h' = h1\<lparr>previous_position := Some position\<rparr>"
    and v: "valid_checkpoint_data operation (ci_stage c) (ci_data c)"
  define stage where "stage = ci_stage c"
  have i: "stage \<in> set (allowed_order operation)" using index_of_Some [OF s(1)] nth_mem unfolding stage_def by metis
  have later: "rank t < rank stage \<or> t = ForwardProgress \<and> stage = ForwardProgress" if "t \<in> set (stages_of h)" for t
    using history_step_rank [OF assms(1) s(1-3) that] unfolding stage_def .
  have m: "\<not> saw_mutation h"
    using later [of MutationConfirmed] unfolding stages_of_memb by (cases stage) auto
  have f: "rank stage \<le> 3 \<Longrightarrow> previous_forward h = None"
    using later [of ForwardProgress] unfolding stages_of_memb by (cases "previous_forward h"; cases stage) auto
  have t: "rank stage \<le> 3 \<Longrightarrow> \<not> saw_temporary_ids h"
    using later [of TemporaryIdsObserved] unfolding stages_of_memb by (cases stage) auto
  have d: "rank stage \<le> 2 \<Longrightarrow> \<not> saw_dispatch h"
    using later [of DispatchStarted] unfolding stages_of_memb by (cases stage) auto
  have sp: "rank stage \<le> 1 \<Longrightarrow> \<not> saw_spool h"
    using later [of SpoolReady] unfolding stages_of_memb by (cases stage) auto
  have k: "rank stage = 0 \<Longrightarrow> \<not> saw_idempotency h"
    using later [of IdempotencyPending] unfolding stages_of_memb by (cases stage) auto
  note flags = m f t d sp k
  have stage_op: "stage = TemporaryIdsObserved \<Longrightarrow> operation \<in> {A_Send, A_SavedAttach, A_MsgForward}"
    "stage = ForwardProgress \<Longrightarrow> operation = A_MsgForward"
    using v unfolding stage_def [symmetric] by (auto simp: valid_checkpoint_data_def)
  have fi: "flags_inv operation h" using assms(1) unfolding history_inv_def by blast
  have both: "flags_inv operation h' \<and> stages_of h' = push_stage (stages_of h) stage"
  proof (cases stage)
    case IdempotencyPending
    with s(5,6) have "h' = h\<lparr>previous_sequence := ci_sequence c, saw_idempotency := True, previous_position := Some position\<rparr>"
      unfolding stage_def by (simp add: history_switch_def split: if_splits)
    with fi s(4) IdempotencyPending show ?thesis using flags by (auto simp: stage_def flags_inv_def stages_of_def push_stage_def)
  next
    case SpoolReady
    with s(5,6) have "h' = h\<lparr>previous_sequence := ci_sequence c, saw_spool := True, previous_position := Some position\<rparr>" "spooling operation"
      unfolding stage_def by (simp_all add: history_switch_def spooling_def split: if_splits)
    with fi flags SpoolReady show ?thesis by (auto simp: flags_inv_def stages_of_def push_stage_def)
  next
    case DispatchStarted
    with s(5,6) have "h' = h\<lparr>previous_sequence := ci_sequence c, saw_dispatch := True, previous_position := Some position\<rparr>"
      "operation = A_SavedAttach \<Longrightarrow> saw_spool h"
      unfolding stage_def by (simp_all add: history_switch_def split: if_splits)
    with fi flags DispatchStarted show ?thesis by (auto simp: flags_inv_def stages_of_def push_stage_def)
  next
    case TemporaryIdsObserved
    with s(5,6) have "h' = h\<lparr>previous_sequence := ci_sequence c, saw_temporary_ids := True, previous_position := Some position\<rparr>" "saw_dispatch h"
      unfolding stage_def by (simp_all add: history_switch_def split: if_splits)
    with fi stage_op(1) [OF TemporaryIdsObserved] flags TemporaryIdsObserved show ?thesis by (auto simp: flags_inv_def stages_of_def push_stage_def)
  next
    case ForwardProgress
    with s(5,6) have "h' = h\<lparr>previous_sequence := ci_sequence c, progress_count := progress_count h + 1,
        previous_forward := Some (field (ci_data c) ''items''), previous_position := Some position\<rparr>" "saw_dispatch h"
      "progress_count h + 1 \<le> kMaximumForwardProgressRecords"
      unfolding stage_def by (auto simp: history_switch_def split: if_splits)
    with fi stage_op(2) [OF ForwardProgress] flags ForwardProgress show ?thesis by (auto simp: flags_inv_def stages_of_def push_stage_def)
  next
    case MutationConfirmed
    with s(5,6) have "h' = h\<lparr>previous_sequence := ci_sequence c, saw_mutation := True, previous_position := Some position\<rparr>" "saw_dispatch h"
      unfolding stage_def by (simp_all add: history_switch_def split: if_splits)
    with fi flags MutationConfirmed show ?thesis by (auto simp: flags_inv_def stages_of_def push_stage_def)
  qed
  then have rest: "flags_inv operation h'" and stages: "stages_of h' = push_stage (stages_of h) stage" by blast+
  have last: "stages_of h' \<noteq> [] \<and> last (stages_of h') = stage"
  proof (cases "stage = ForwardProgress \<and> ForwardProgress \<in> set (stages_of h)")
    case True
    then have "stages_of h' = stages_of h" by (simp add: stages push_stage_def)
    moreover have "last (stages_of h) = ForwardProgress" using True flags(1) by (simp add: stages_of_memb) (simp add: stages_of_def)
    ultimately show ?thesis using True by auto
  qed (auto simp: stages push_stage_def)
  have sub: "set (stages_of h') \<subseteq> set (allowed_order operation)"
    using assms(1) i unfolding stages push_stage_def history_inv_def by auto
  have pos: "previous_position h' = Some position" using s(6) by (auto split: if_splits)
  show ?thesis using rest sub last pos stages s(1) unfolding history_inv_def stage_def by simp
qed

lemma history_loop_snoc:
  "history_loop operation h (cs @ [c]) =
     (case history_loop operation h cs of Inl e \<Rightarrow> Inl e | Inr h' \<Rightarrow> history_step operation c h')"
  by (induction cs arbitrary: h) (auto split: sum.splits)

lemma history_loop_inv:
  "history_loop operation history_init cs = Inr h \<Longrightarrow>
     history_inv operation h \<and> stages_of h = foldl push_stage [] (map ci_stage cs)"
proof (induction cs arbitrary: h rule: rev_induct)
  case Nil
  then show ?case using history_inv_init by (auto simp: stages_of_def history_init_def)
next
  case (snoc c cs)
  then obtain h0 where h0: "history_loop operation history_init cs = Inr h0" "history_step operation c h0 = Inr h"
    by (auto simp: history_loop_snoc split: sum.splits)
  from snoc.IH [OF h0(1)] history_step_inv [OF _ h0(2)] show ?case by simp
qed

text \<open>The stages of an accepted history are ones the outcome record may list.\<close>

lemma is_stage_prefix_append: "is_stage_prefix xs (xs @ ys)"
  by (simp add: is_stage_prefix_def)

lemma legal_stages:
  assumes "flags_inv operation h"
  shows "legal_completed_stages operation (stages_of h)"
proof -
  define temporary where
    "temporary = (if write_operation_uses_photo_spool (Some operation) then saw_spool h else saw_temporary_ids h)"
  define full where
    "full = complete_stages operation (saw_idempotency h) temporary (previous_forward h \<noteq> None) (saw_mutation h)"
  have photo: "write_operation_uses_photo_spool (Some operation) \<Longrightarrow> operation \<noteq> A_Send \<and> operation \<noteq> A_SavedAttach \<and> operation \<noteq> A_MsgForward"
    using photo_distinct by blast
  have "\<exists>rest. full = stages_of h @ rest"
  proof (cases "saw_dispatch h")
    case True
    have k: "(saw_idempotency h \<and> write_operation_idempotent (Some operation)) = saw_idempotency h"
      and p: "(previous_forward h \<noteq> None \<and> operation = A_MsgForward) = (previous_forward h \<noteq> None)"
      using assms by (auto simp: flags_inv_def)
    have s: "(operation = A_SavedAttach \<or> write_operation_uses_photo_spool (Some operation) \<and> temporary) = saw_spool h"
      using assms True photo by (auto simp: flags_inv_def temporary_def spooling_def)
    have t: "(temporary \<and> (operation = A_Send \<or> operation = A_SavedAttach \<or> operation = A_MsgForward)) = saw_temporary_ids h"
      using assms photo by (auto simp: flags_inv_def temporary_def)
    have "full = stages_of h"
      unfolding full_def complete_stages_def stages_of_def k s t p using True by simp
    then show ?thesis by simp
  next
    case False
    then have st: "stages_of h = (if saw_idempotency h then [IdempotencyPending] else []) @ (if saw_spool h then [SpoolReady] else [])"
      using assms by (auto simp: flags_inv_def stages_of_def)
    have "saw_spool h \<Longrightarrow> operation = A_SavedAttach \<or> write_operation_uses_photo_spool (Some operation) \<and> temporary"
      using assms by (auto simp: flags_inv_def temporary_def spooling_def)
    moreover have "saw_idempotency h \<Longrightarrow> write_operation_idempotent (Some operation)" using assms by (simp add: flags_inv_def)
    ultimately show ?thesis unfolding st full_def complete_stages_def
      by (cases "saw_idempotency h"; cases "saw_spool h") simp_all
  qed
  then have "is_stage_prefix (stages_of h) full" using is_stage_prefix_append by metis
  then show ?thesis unfolding legal_completed_stages_def full_def
    by (cases "saw_idempotency h"; cases temporary; cases "previous_forward h"; cases "saw_mutation h") simp_all
qed

end
