(* ===== verification/Audit_Groups.thy ===== *)
theory Audit_Groups
  imports Audit_Order
begin

text \<open>
  \<^bold>\<open>Groups of audit records\<close>: the invariant of the open group that \<open>consume_v2\<close> maintains over every sequence
  of records, the bound on the bytes of a group, and what an outcome that reports success presupposes.
\<close>

subsection \<open>Records and their typed form\<close>

lemma stage_of_name: "parse_account_audit_stage name = Some stage \<longleftrightarrow> account_audit_stage_name stage = name"
  unfolding parse_account_audit_stage_def account_audit_stage_name_def by (rule stage_table.parse_some_iff)

lemma operation_of_name: "parse_account_audit_operation name = Some operation \<longleftrightarrow> account_audit_operation_name operation = name"
  unfolding parse_account_audit_operation_def account_audit_operation_name_def by (rule operation_table.parse_some_iff)

lemma stage_name_values:
  "account_audit_stage_name IdempotencyPending = ''idempotency_pending''"
  "account_audit_stage_name SpoolReady = ''spool_ready''"
  "account_audit_stage_name DispatchStarted = ''dispatch_started''"
  "account_audit_stage_name TemporaryIdsObserved = ''temporary_ids_observed''"
  "account_audit_stage_name ForwardProgress = ''forward_progress''"
  "account_audit_stage_name MutationConfirmed = ''mutation_confirmed''"
  by code_simp+

text \<open>What an accepted checkpoint record says of its typed form.\<close>

lemma validated_checkpoint:
  assumes "validate_checkpoint_impl dump d = None"
  obtains c where "checkpoint_of d = Some c" "is_string (field d ''command'')"
    "parse_account_audit_operation (string_of (field d ''command'')) = Some (ci_operation c)"
    "field d ''stage'' = JString (account_audit_stage_name (ci_stage c))" "ci_data c = field d ''data''"
    "valid_checkpoint_data (ci_operation c) (ci_stage c) (field d ''data'')"
    "serialized_size_at_most dump d (checkpoint_json_bytes (ci_stage c))"
    "ci_stage c = MutationConfirmed \<Longrightarrow>
       serialized_size_at_most dump (field (field d ''data'') ''terminal'') (terminal_byte_ceiling (ci_operation c))"
    "valid_json_tree d" "exact_fields d checkpoint_fields"
proof -
  have env: "exact_fields d checkpoint_fields" "valid_common_identity d" "is_string (field d ''stage'')"
    using assms unfolding validate_checkpoint_impl_def by (auto split: if_splits)
  from assms env obtain operation stage where
    o: "parse_account_audit_operation (string_of (field d ''command'')) = Some operation"
    and s: "parse_account_audit_stage (string_of (field d ''stage'')) = Some stage"
    and rest: "valid_checkpoint_data operation stage (field d ''data'')"
      "serialized_size_at_most dump d (checkpoint_json_bytes stage)" "valid_json_tree d"
      "stage = MutationConfirmed \<Longrightarrow>
         serialized_size_at_most dump (field (field d ''data'') ''terminal'') (terminal_byte_ceiling operation)"
    unfolding validate_checkpoint_impl_def by (auto split: if_splits option.splits)
  have n: "field d ''stage'' = JString (account_audit_stage_name stage)"
    using s env(3) unfolding stage_of_name by (auto simp: is_string_iff)
  have cmd: "is_string (field d ''command'')" using env(2) by (simp add: valid_common_identity_def)
  show thesis
    by (rule that [of "\<lparr>ci_invocation_id = string_of (field d ''invocation_id''),
            ci_timestamp = string_of (field d ''timestamp''), ci_account = string_of (field d ''account''),
            ci_operation = operation, ci_sequence = get_uint64 (field d ''checkpoint_sequence''), ci_stage = stage,
            ci_data = field d ''data''\<rparr>"])
      (use o s n rest env cmd in \<open>simp_all add: checkpoint_of_def\<close>)
qed

lemma checkpoint_is_stage:
  assumes "field d ''stage'' = JString (account_audit_stage_name stage)"
  shows "checkpoint_is (account_audit_stage_name stage') d \<longleftrightarrow> stage = stage'"
  unfolding checkpoint_is_def assms account_audit_stage_name_def by (auto simp: stage_table.name_inject)

lemma history_of_snoc:
  "history_of (ds @ [d]) =
     (case history_of ds of None \<Rightarrow> None | Some cs \<Rightarrow> map_option (\<lambda>c. cs @ [c]) (checkpoint_of d))"
  by (induction ds) (auto simp: option.map_comp comp_def split: option.splits)

subsection \<open>Equal values have equal members\<close>

lemma json_members_eq_map_of:
  "json_members_eq ms ns \<Longrightarrow>
     (case map_of ms k of None \<Rightarrow> map_of ns k = None | Some v \<Rightarrow> (\<exists>w. map_of ns k = Some w \<and> json_eq v w))"
proof (induction ms arbitrary: ns)
  case (Cons m ms)
  obtain k' v where m: "m = (k', v)" by (cases m)
  with Cons.prems obtain w ns' where n: "ns = (k', w) # ns'" "json_eq v w" "json_members_eq ms ns'"
    by (auto split: list.splits)
  show ?case using Cons.IH [OF n(3)] n(2) unfolding m n(1) by (auto split: option.splits)
qed simp

lemma json_eq_field:
  assumes "json_eq v w" "is_object v"
  shows "json_eq (field v k) (field w k)"
proof -
  obtain ms where v: "v = JObject ms" using assms(2) by (auto simp: is_object_iff)
  with assms(1) obtain ns where w: "w = JObject ns" "json_members_eq ms ns" by (auto split: json.splits)
  from json_members_eq_map_of [OF w(2), of k] show ?thesis
    unfolding v w field_def by (auto split: option.splits)
qed

lemma item_status_eq:
  assumes "json_eq v w" "item_status v s"
  shows "item_status w s"
proof -
  have "is_object v" using assms(2) by (cases v) (auto simp: item_status_def field_def)
  with json_eq_field [OF assms(1) this, of "''status''"] assms(2) show ?thesis by (auto simp: item_status_def)
qed

lemma forward_advance_sent:
  assumes "forward_advance bs as a = Inr b" "length bs = length as" "list_ex (\<lambda>i. item_status i ''sent'') bs"
  shows "list_ex (\<lambda>i. item_status i ''sent'') as"
  using assms
proof (induction bs as a rule: forward_advance.induct)
  case (1 x bs y as a)
  show ?case
  proof (cases "item_status x ''sent''")
    case True
    then have "\<not> item_status x ''pending''" by (auto simp: item_status_def)
    with "1.prems" have "json_eq x y" by (auto split: if_splits)
    from item_status_eq [OF this True] show ?thesis by simp
  next
    case False
    with 1 show ?thesis by (auto split: if_splits)
  qed
qed auto

subsection \<open>The invariant of an open group\<close>

definition vector_sent :: "json option \<Rightarrow> bool" where
  "vector_sent v \<longleftrightarrow> (case v of None \<Rightarrow> False | Some items \<Rightarrow> list_ex (\<lambda>item. item_status item ''sent'') (items_of items))"

definition vector_complete :: "json option \<Rightarrow> bool" where
  "vector_complete v \<longleftrightarrow> (case v of None \<Rightarrow> False | Some items \<Rightarrow> forward_vector_complete items)"

definition proof_inv :: "dumper \<Rightarrow> audit_operation \<Rightarrow> open_group \<Rightarrow> bool" where
  "proof_inv dump operation g \<longleftrightarrow>
     (case find (checkpoint_is ''mutation_confirmed'') (rev (checkpoints g)) of
        None \<Rightarrow> False
      | Some found \<Rightarrow>
          let terminal = field (field found ''data'') ''terminal''
          in terminal_proves_mutation operation terminal \<and> terminal_matches_plan operation terminal (intent g) \<and>
             serialized_size_at_most dump terminal (terminal_byte_ceiling operation) \<and>
             (operation = A_MsgForward \<longrightarrow> terminal_matches_latest_forward dump g terminal))"

definition group_inv :: "dumper \<Rightarrow> audit_operation \<Rightarrow> checkpoint_input list \<Rightarrow> history_state \<Rightarrow> open_group \<Rightarrow> bool" where
  "group_inv dump operation cs h g \<longleftrightarrow>
     validate_intent_impl dump (intent g) = None \<and>
     parse_account_audit_operation (string_of (field (intent g) ''command'')) = Some operation \<and>
     list_all (\<lambda>d. validate_checkpoint_impl dump d = None) (checkpoints g) \<and>
     history_of (checkpoints g) = Some cs \<and> history_loop operation history_init cs = Inr h \<and>
     completed_stages g = stages_of h \<and> dispatch_started g = saw_dispatch h \<and>
     mutation_confirmed g = saw_mutation h \<and> has_spool g = saw_spool h \<and>
     keyed g = (field (intent g) ''idempotency_key_hash'' \<noteq> JNull) \<and> (saw_idempotency h \<longrightarrow> keyed g) \<and>
     previous_forward h = final_forward_items g \<and> forward_complete g = vector_complete (final_forward_items g) \<and>
     any_forward_sent g = vector_sent (final_forward_items g) \<and> (mutation_confirmed g \<longrightarrow> proof_inv dump operation g)"

lemma group_inv_open:
  assumes "validate_intent_impl dump d = None"
  shows "\<exists>operation. group_inv dump operation [] history_init (open_group_of generation d)"
proof -
  from assms obtain operation where "parse_account_audit_operation (string_of (field d ''command'')) = Some operation"
    unfolding validate_intent_impl_def by (auto split: if_splits option.splits)
  with assms show ?thesis
    by (auto simp: group_inv_def open_group_of_def history_init_def stages_of_def final_forward_items_def
        vector_complete_def vector_sent_def)
qed

text \<open>The forward vector after one more checkpoint.\<close>

lemma find_checkpoint_push:
  assumes "field d ''stage'' = JString (account_audit_stage_name stage)"
  shows "find (checkpoint_is (account_audit_stage_name stage')) (rev (ds @ [d])) =
     (if stage = stage' then Some d else find (checkpoint_is (account_audit_stage_name stage')) (rev ds))"
  by (simp add: checkpoint_is_stage [OF assms])

lemmas find_checkpoint_names =
  find_checkpoint_push [where stage' = ForwardProgress, unfolded stage_name_values]
  find_checkpoint_push [where stage' = MutationConfirmed, unfolded stage_name_values]

lemma push_simps [simp]:
  "checkpoints (push_checkpoint d c g) = checkpoints g @ [d]" "intent (push_checkpoint d c g) = intent g"
  "keyed (push_checkpoint d c g) = keyed g"
  "completed_stages (push_checkpoint d c g) = push_stage (completed_stages g) (ci_stage c)"
  "has_spool (push_checkpoint d c g) = (has_spool g \<or> ci_stage c = SpoolReady)"
  "dispatch_started (push_checkpoint d c g) = (dispatch_started g \<or> ci_stage c = DispatchStarted)"
  "mutation_confirmed (push_checkpoint d c g) = (mutation_confirmed g \<or> ci_stage c = MutationConfirmed)"
  by (simp_all add: push_checkpoint_def push_stage_def Let_def)

lemma final_forward_push:
  assumes "field d ''stage'' = JString (account_audit_stage_name (ci_stage c))" "ci_data c = field d ''data''"
  shows "final_forward_items (push_checkpoint d c g) =
     (if ci_stage c = ForwardProgress then Some (field (ci_data c) ''items'') else final_forward_items g)"
  by (simp add: final_forward_items_def find_checkpoint_names(1) [OF assms(1)] assms(2) del: rev_append)

lemma step_flags:
  assumes "history_step operation c h = Inr h'"
  shows "saw_dispatch h' = (saw_dispatch h \<or> ci_stage c = DispatchStarted)"
    "saw_spool h' = (saw_spool h \<or> ci_stage c = SpoolReady)"
    "saw_mutation h' = (saw_mutation h \<or> ci_stage c = MutationConfirmed)"
    "saw_idempotency h' = (saw_idempotency h \<or> ci_stage c = IdempotencyPending)"
    "previous_forward h' = (if ci_stage c = ForwardProgress then Some (field (ci_data c) ''items'') else previous_forward h)"
  by (rule history_step_shape [OF assms]; cases "ci_stage c"; auto simp: history_switch_def split: if_splits)+

lemma step_no_mutation:
  assumes "history_step operation c h = Inr h'" "history_inv operation h"
  shows "\<not> saw_mutation h"
proof
  assume m: "saw_mutation h"
  show False
  proof (rule history_step_shape [OF assms(1)])
    fix position h1
    assume s: "index_of (ci_stage c) (allowed_order operation) = Some position"
      "case previous_position h of None \<Rightarrow> True | Some p \<Rightarrow> p \<le> position"
      "previous_position h = Some position \<Longrightarrow> ci_stage c = ForwardProgress"
    have "rank MutationConfirmed < rank (ci_stage c)"
      using history_step_rank [OF assms(2) s, of MutationConfirmed] m by (simp add: stages_of_memb)
    then show False by (cases "ci_stage c") simp_all
  qed
qed

lemma step_sent:
  assumes "history_step operation c h = Inr h'" "ci_stage c = ForwardProgress" "previous_forward h = Some items"
    "is_array items" "vector_sent (Some items)"
  shows "vector_sent (Some (field (ci_data c) ''items''))"
proof -
  have v: "valid_checkpoint_data operation ForwardProgress (ci_data c)"
    using history_step_shape [OF assms(1)] assms(2) by metis
  then have arr: "is_array (field (ci_data c) ''items'')" by (auto simp: valid_checkpoint_data_def valid_forward_items_def split: if_splits)
  from assms(1-3) obtain b where
    "jsize (field (ci_data c) ''items'') = jsize items"
    "forward_advance (items_of items) (items_of (field (ci_data c) ''items'')) False = Inr b"
    by (auto simp: history_step_def history_switch_def history_forward_def Let_def split: if_splits option.splits sum.splits)
  with arr assms(4,5) show ?thesis
    using forward_advance_sent [of "items_of items" "items_of (field (ci_data c) ''items'')" False b]
    by (auto simp: vector_sent_def is_array_iff)
qed

lemma final_items_valid:
  assumes "list_all (\<lambda>d. validate_checkpoint_impl dump d = None) (checkpoints g)" "final_forward_items g = Some items"
  shows "valid_forward_items items False False"
proof -
  from assms(2) obtain d where d: "d \<in> set (checkpoints g)" "checkpoint_is (account_audit_stage_name ForwardProgress) d"
    "items = field (field d ''data'') ''items''"
    unfolding final_forward_items_def stage_name_values by (auto dest: find_SomeD)
  from d(1) assms(1) have v: "validate_checkpoint_impl dump d = None" by (simp add: list_all_iff)
  obtain c :: checkpoint_input where c: "field d ''stage'' = JString (account_audit_stage_name (ci_stage c))"
    "valid_checkpoint_data (ci_operation c) (ci_stage c) (field d ''data'')"
    using validated_checkpoint [OF v] by blast
  have "ci_stage c = ForwardProgress" using d(2) checkpoint_is_stage [OF c(1)] by blast
  with c(2) d(3) show ?thesis by (simp add: valid_checkpoint_data_def)
qed

lemma latest_forward_cong:
  assumes "final_forward_items g' = final_forward_items g" and "intent g' = intent g"
  shows "terminal_matches_latest_forward dump g' t = terminal_matches_latest_forward dump g t"
  unfolding terminal_matches_latest_forward_def assms by (rule refl)

lemma consume_checkpoint_Inr:
  assumes "consume_checkpoint dump d g = Inr g'" "checkpoint_of d = Some c" "history_of (checkpoints g) = Some cs"
  shows "g' = push_checkpoint d c g" "checkpoint_contradicts g c = None" "proof_contradicts dump g c = None"
    "transition_history (ci_operation c) (cs @ [c]) = None"
  using assms by (auto simp: consume_checkpoint_def split: option.splits)

lemma proof_inv_push:
  assumes "validate_checkpoint_impl dump d = None" "checkpoint_of d = Some c" "ci_stage c = MutationConfirmed"
    "proof_contradicts dump g c = None"
  shows "proof_inv dump (ci_operation c) (push_checkpoint d c g)"
proof (rule validated_checkpoint [OF assms(1)])
  fix c'
  assume c': "checkpoint_of d = Some c'" "field d ''stage'' = JString (account_audit_stage_name (ci_stage c'))"
    "ci_data c' = field d ''data''" "valid_checkpoint_data (ci_operation c') (ci_stage c') (field d ''data'')"
    "ci_stage c' = MutationConfirmed \<Longrightarrow>
       serialized_size_at_most dump (field (field d ''data'') ''terminal'') (terminal_byte_ceiling (ci_operation c'))"
  have c: "c' = c" using c'(1) assms(2) by simp
  note c' = c' [unfolded c]
  define t where "t = field (field d ''data'') ''terminal''"
  have t: "terminal_proves_mutation (ci_operation c) t" using c'(4) assms(3) by (simp add: valid_checkpoint_data_def t_def)
  have m: "terminal_matches_plan (ci_operation c) t (intent g)"
    "ci_operation c = A_MsgForward \<Longrightarrow> terminal_matches_latest_forward dump g t"
    using assms(3,4) c'(3) by (auto simp: proof_contradicts_def Let_def t_def split: if_splits)
  have f: "final_forward_items (push_checkpoint d c g) = final_forward_items g"
    using final_forward_push [OF c'(2,3)] assms(3) by simp
  show ?thesis
    unfolding proof_inv_def push_simps(1) find_checkpoint_names(2) [OF c'(2)]
    using t m c'(5) assms(3) latest_forward_cong [OF f push_simps(2)] by (simp add: t_def Let_def)
qed

lemma group_inv_checkpoint:
  assumes inv: "group_inv dump operation cs h g" and v: "validate_checkpoint_impl dump d = None"
    and same: "json_eq (field (intent g) ''command'') (field d ''command'')"
    and consumed: "consume_checkpoint dump d g = Inr g'"
  shows "\<exists>cs' h'. group_inv dump operation cs' h' g'"
proof (rule validated_checkpoint [OF v])
  fix c
  assume c: "checkpoint_of d = Some c" "is_string (field d ''command'')"
    "parse_account_audit_operation (string_of (field d ''command'')) = Some (ci_operation c)"
    "field d ''stage'' = JString (account_audit_stage_name (ci_stage c))" "ci_data c = field d ''data''"
  note i = inv [unfolded group_inv_def]
  have op: "ci_operation c = operation" using i same c(2,3) by (auto simp: is_string_iff)
  note step = consume_checkpoint_Inr [OF consumed c(1)]
  have cs: "history_of (checkpoints g) = Some cs" using i by blast
  note step = step [OF cs, unfolded op]
  obtain h' where h': "history_loop operation history_init (cs @ [c]) = Inr h'" "history_step operation c h = Inr h'"
    using step(4) i by (auto simp: transition_history_def history_loop_snoc split: sum.splits)
  have hi: "history_inv operation h" using history_loop_inv i by blast
  note flags = step_flags [OF h'(2)] and stages = history_step_inv [OF hi h'(2)]
  note final = final_forward_push [OF c(4,5), of g]
  have no: "\<not> saw_mutation h" by (rule step_no_mutation [OF h'(2) hi])
  have key: "ci_stage c = IdempotencyPending \<Longrightarrow> field (intent g) ''idempotency_key_hash'' \<noteq> JNull"
    using step(2) by (auto simp: checkpoint_contradicts_def split: if_splits)
  have sent: "any_forward_sent (push_checkpoint d c g) = vector_sent (final_forward_items (push_checkpoint d c g))"
  proof (cases "ci_stage c = ForwardProgress")
    case True
    have "vector_sent (Some (field (ci_data c) ''items''))" if "vector_sent (final_forward_items g)"
    proof -
      obtain items where items: "final_forward_items g = Some items" using \<open>vector_sent (final_forward_items g)\<close>
        by (auto simp: vector_sent_def split: option.splits)
      have "list_all (\<lambda>d. validate_checkpoint_impl dump d = None) (checkpoints g)" using i by blast
      from final_items_valid [OF this items] have "is_array items" by (auto simp: valid_forward_items_def split: if_splits)
      with step_sent [OF h'(2) True] i items that show ?thesis by simp
    qed
    with True i final show ?thesis by (auto simp: push_checkpoint_def vector_sent_def Let_def)
  next
    case False
    with i final show ?thesis by (simp add: push_checkpoint_def Let_def)
  qed
  have complete: "forward_complete (push_checkpoint d c g) = vector_complete (final_forward_items (push_checkpoint d c g))"
    using i final by (simp add: push_checkpoint_def vector_complete_def Let_def)
  have pinv: "proof_inv dump operation (push_checkpoint d c g)" if "ci_stage c = MutationConfirmed"
    using proof_inv_push [OF v c(1) that step(3)] op by simp
  have keyed: "saw_idempotency h \<longrightarrow> field (intent g) ''idempotency_key_hash'' \<noteq> JNull" using i by blast
  have "group_inv dump operation (cs @ [c]) h' (push_checkpoint d c g)"
    using i keyed v c(1) h'(1) flags stages final no key sent complete pinv unfolding group_inv_def
    by (simp add: history_of_snoc)
  then show ?thesis using step(1) by blast
qed

subsection \<open>Sequences of records\<close>

text \<open>The states a scan of the log can be in: it starts without an open group and consumes records.\<close>

inductive scanned :: "dumper \<Rightarrow> scan_state \<Rightarrow> bool" for dump where
  start: "open_of state = None \<Longrightarrow> scanned dump state"
| step: "scanned dump state \<Longrightarrow> consume_v2 dump generation document state = Inr (state', view) \<Longrightarrow> scanned dump state'"

lemma consume_v2_cases:
  assumes "consume_v2 dump generation document state = Inr (state', view)"
  obtains (intent_record) "open_of state = None" "validate_intent_impl dump document = None"
      "open_of state' = Some (open_group_of generation document)" "view = None"
  | (checkpoint_record) g g' where "open_of state = Some g" "matching_group document state = Some g"
      "validate_checkpoint_impl dump document = None" "consume_checkpoint dump document g = Inr g'"
      "open_of state' = Some g'" "view = None"
  | (outcome_record) g v where "open_of state = Some g" "matching_group document state = Some g"
      "validate_outcome_impl dump document = None" "consume_outcome dump document g = Inr v" "open_of state' = None" "view = Some v"
proof -
  have m: "open_of state = Some g" if "matching_group document state = Some g" for g
    using that by (auto simp: matching_group_def split: option.splits if_splits)
  show thesis
    using assms m intent_record checkpoint_record outcome_record
    by (auto simp: consume_v2_def Let_def split: if_splits option.splits sum.splits)
qed

lemma matching_same: "matching_group document state = Some g \<Longrightarrow> json_eq (field (intent g) ''command'') (field document ''command'')"
  by (auto simp: matching_group_def split: option.splits if_splits)

text \<open>The scan of the log as a machine with an invariant.\<close>

definition scan_step :: "dumper \<Rightarrow> scan_state \<Rightarrow> scan_state \<Rightarrow> bool" where
  "scan_step dump state state' \<longleftrightarrow> (\<exists>generation document view. consume_v2 dump generation document state = Inr (state', view))"

definition scan_ok :: "dumper \<Rightarrow> scan_state \<Rightarrow> bool" where
  "scan_ok dump state \<longleftrightarrow> (\<forall>g. open_of state = Some g \<longrightarrow> (\<exists>operation cs h. group_inv dump operation cs h g))"

lemma scan_step_ok: "scan_ok dump state \<Longrightarrow> scan_step dump state state' \<Longrightarrow> scan_ok dump state'"
proof -
  assume ok: "scan_ok dump state" and "scan_step dump state state'"
  then obtain generation document view where "consume_v2 dump generation document state = Inr (state', view)"
    by (auto simp: scan_step_def)
  then show "scan_ok dump state'"
  proof (cases rule: consume_v2_cases)
    case intent_record
    from group_inv_open [OF intent_record(2), of generation] obtain operation where
      "group_inv dump operation [] history_init (open_group_of generation document)" by blast
    with intent_record(3) show ?thesis by (auto simp: scan_ok_def)
  next
    case (checkpoint_record g0 g')
    with ok obtain operation cs h where "group_inv dump operation cs h g0" by (auto simp: scan_ok_def)
    from group_inv_checkpoint [OF this checkpoint_record(3) matching_same [OF checkpoint_record(2)] checkpoint_record(4)]
    show ?thesis using checkpoint_record(5) by (auto simp: scan_ok_def)
  next
    case outcome_record
    then show ?thesis by (simp add: scan_ok_def)
  qed
qed

interpretation scan: invariant_machine "\<lambda>state. open_of state = None" "scan_step dump" "scan_ok dump" for dump
proof
  show "open_of state = None \<Longrightarrow> scan_ok dump state" for state by (simp add: scan_ok_def)
qed (rule scan_step_ok)

lemma scanned_reachable: "scanned dump state \<Longrightarrow> \<exists>state0. open_of state0 = None \<and> (scan_step dump)\<^sup>*\<^sup>* state0 state"
proof (induction rule: scanned.induct)
  case (step state generation document state' view)
  then have "scan_step dump state state'" by (auto simp: scan_step_def)
  with step.IH show ?case by (meson rtranclp.rtrancl_into_rtrancl)
qed blast

lemma scanned_inv: "scanned dump state \<Longrightarrow> open_of state = Some g \<Longrightarrow> \<exists>operation cs h. group_inv dump operation cs h g"
  using scanned_reachable scan.reachable_invariant by (metis scan_ok_def)

end
