(* ===== verification/Audit_Recovery.thy ===== *)
theory Audit_Recovery
  imports Audit_Groups
begin

text \<open>
  \<^bold>\<open>What the group automaton guarantees\<close>: the invariant of open groups over every scan, the bound on the
  bytes of a group, the proof behind every reported success, and recovery: the terminal that
  \<open>classify_account_audit_recovery\<close> chooses for a group the daemon left open is one that the reader of the log
  accepts.
\<close>

subsection \<open>Bytes of a group\<close>

definition record_bytes :: "dumper \<Rightarrow> json \<Rightarrow> nat" where
  "record_bytes dump d = (case dump d of None \<Rightarrow> 0 | Some t \<Rightarrow> length t + 1)"

definition line_bytes :: "audit_stage \<Rightarrow> nat" where
  "line_bytes stage = checkpoint_json_bytes stage + 1"

lemma line_bytes_values:
  "line_bytes IdempotencyPending = 65537" "line_bytes SpoolReady = 65537" "line_bytes DispatchStarted = 65537"
  "line_bytes TemporaryIdsObserved = 65537" "line_bytes ForwardProgress = 16846797" "line_bytes MutationConfirmed = 16846797"
  using group_limits by (simp_all add: line_bytes_def checkpoint_json_bytes_def kNonVectorLineBytes_def kVectorLineBytes_def)

lemma record_bytes_le: "serialized_size_at_most dump d n \<Longrightarrow> record_bytes dump d \<le> n + 1"
  by (auto simp: serialized_size_at_most_def record_bytes_def split: option.splits)

lemma checkpoint_bytes:
  "list_all (\<lambda>d. validate_checkpoint_impl dump d = None) ds \<Longrightarrow> history_of ds = Some cs \<Longrightarrow>
     sum_list (map (record_bytes dump) ds) \<le> sum_list (map (\<lambda>c. line_bytes (ci_stage c)) cs)"
proof (induction ds arbitrary: cs)
  case (Cons d ds)
  then obtain c cs' where c: "checkpoint_of d = Some c" "history_of ds = Some cs'" "cs = c # cs'"
    by (auto split: option.splits)
  have v: "validate_checkpoint_impl dump d = None" using Cons.prems(1) by simp
  have "serialized_size_at_most dump d (checkpoint_json_bytes (ci_stage c))"
    using validated_checkpoint [OF v] c(1) by (metis option.inject)
  from record_bytes_le [OF this] Cons.IH [OF _ c(2)] Cons.prems(1) c(3) show ?case by (simp add: line_bytes_def)
qed simp

lemma step_progress:
  assumes "history_step operation c h = Inr h'"
  shows "progress_count h' = progress_count h + (if ci_stage c = ForwardProgress then 1 else 0)"
  by (rule history_step_shape [OF assms]; cases "ci_stage c"; auto simp: history_switch_def split: if_splits)

lemma history_weight:
  "history_loop operation history_init cs = Inr h \<Longrightarrow>
     sum_list (map (\<lambda>c. line_bytes (ci_stage c)) cs) =
       sum_list (map line_bytes (filter (\<lambda>s. s \<noteq> ForwardProgress) (stages_of h))) + progress_count h * line_bytes ForwardProgress"
proof (induction cs arbitrary: h rule: rev_induct)
  case Nil
  then show ?case by (auto simp: stages_of_def history_init_def)
next
  case (snoc c cs)
  then obtain h0 where h0: "history_loop operation history_init cs = Inr h0" "history_step operation c h0 = Inr h"
    by (auto simp: history_loop_snoc split: sum.splits)
  have "stages_of h = push_stage (stages_of h0) (ci_stage c)"
    using history_step_inv [OF _ h0(2)] history_loop_inv [OF h0(1)] by blast
  with snoc.IH [OF h0(1)] step_progress [OF h0(2)] show ?case by (simp add: push_stage_def)
qed

lemma stages_weight:
  assumes "flags_inv operation h"
  shows "sum_list (map line_bytes (filter (\<lambda>s. s \<noteq> ForwardProgress) (stages_of h))) + progress_count h * line_bytes ForwardProgress
     \<le> 3 * kNonVectorLineBytes + (kMaximumForwardProgressRecords + 1) * kVectorLineBytes"
proof -
  define b where "b = (\<lambda>x. if x then 1 else 0 :: nat)"
  have sum: "sum_list (map line_bytes (filter (\<lambda>s. s \<noteq> ForwardProgress) (stages_of h))) =
      (b (saw_idempotency h) + b (saw_spool h) + b (saw_dispatch h) + b (saw_temporary_ids h)) * 65537 + b (saw_mutation h) * 16846797"
    by (simp add: stages_of_def line_bytes_values b_def)
  have b1: "b x \<le> 1" for x by (simp add: b_def)
  have spool: "b (saw_spool h) = 0" if "operation = A_MsgForward"
    using assms that photo_distinct by (auto simp: flags_inv_def spooling_def b_def)
  have progress: "progress_count h \<le> 101" "operation \<noteq> A_MsgForward \<Longrightarrow> progress_count h = 0"
    using assms by (auto simp: flags_inv_def kMaximumForwardProgressRecords_def)
  show ?thesis
    unfolding sum line_bytes_values group_limits kMaximumForwardProgressRecords_def
    using b1 [of "saw_idempotency h"] b1 [of "saw_spool h"] b1 [of "saw_dispatch h"] b1 [of "saw_temporary_ids h"]
      b1 [of "saw_mutation h"] spool progress by (cases "operation = A_MsgForward") simp_all
qed

lemma outcome_bytes: "validate_outcome_impl dump d = None \<Longrightarrow> record_bytes dump d \<le> kVectorLineBytes"
  using record_bytes_le [of dump d kVectorJsonBytes]
  by (auto simp: validate_outcome_impl_def kVectorLineBytes_def Let_def split: if_splits option.splits)

lemma intent_bytes: "validate_intent_impl dump d = None \<Longrightarrow> record_bytes dump d \<le> kIntentLineBytes"
  using record_bytes_le [of dump d kIntentJsonBytes]
  by (auto simp: validate_intent_impl_def kIntentLineBytes_def Let_def split: if_splits option.splits)

lemma group_bytes:
  assumes "group_inv dump operation cs h g" and "validate_outcome_impl dump outcome = None"
  shows "sum_list (map (record_bytes dump) (intent g # checkpoints g @ [outcome])) \<le> kMaximumGroupBytes"
proof -
  note i = assms(1) [unfolded group_inv_def]
  have "flags_inv operation h" using history_loop_inv i unfolding history_inv_def by blast
  from stages_weight [OF this] history_weight [of operation cs h] checkpoint_bytes [of dump "checkpoints g" cs] i
  have "sum_list (map (record_bytes dump) (checkpoints g)) \<le> 3 * kNonVectorLineBytes + (kMaximumForwardProgressRecords + 1) * kVectorLineBytes"
    by simp
  moreover have "record_bytes dump (intent g) \<le> kIntentLineBytes" using intent_bytes i by blast
  moreover note outcome_bytes [OF assms(2)]
  ultimately show ?thesis
    unfolding kMaximumGroupBytes_def kMaximumVectorLinesPerGroup_def by (simp add: algebra_simps)
qed

subsection \<open>What a scan guarantees\<close>

lemma outcome_accepted:
  assumes "validate_outcome_impl dump d = None"
  obtains operation completed where
    "parse_account_audit_operation (string_of (field d ''command'')) = Some operation"
    "stages_loop [] (items_of (field d ''completed_stages'')) = Some completed"
    "valid_terminal operation (field d ''terminal'')"
    "\<not> outcome_contradicts operation (bool_of (field d ''success'')) (string_of (field d ''mutation_state'')) completed
       (field d ''terminal'')"
  using assms unfolding validate_outcome_impl_def Let_def by (auto split: if_splits option.splits)

lemma stages_loop_names:
  "distinct (acc @ stages) \<Longrightarrow> stages_loop acc (items_of (stage_names stages)) = Some (acc @ stages)"
proof (induction stages arbitrary: acc)
  case (Cons s stages)
  have p: "parse_account_audit_stage (account_audit_stage_name s) = Some s" by (simp add: stage_of_name)
  from Cons.IH [of "acc @ [s]"] Cons.prems p show ?case by (simp add: stage_names_def)
qed (simp add: stage_names_def)

lemma json_list_eq_strings: "json_list_eq vs (map JString ss) \<Longrightarrow> vs = map JString ss"
proof (induction ss arbitrary: vs)
  case Nil
  then show ?case by (cases vs) auto
next
  case (Cons s ss)
  then show ?case by (cases vs) auto
qed

lemma stage_names_eq: "json_eq v (stage_names stages) \<longleftrightarrow> v = stage_names stages"
proof
  assume e: "json_eq v (stage_names stages)"
  then obtain vs where v: "v = JArray vs" by (cases v) (auto simp: stage_names_def split: json.splits)
  have "json_list_eq vs (map JString (map account_audit_stage_name stages))"
    using e by (simp add: v stage_names_def comp_def)
  from json_list_eq_strings [OF this] show "v = stage_names stages" by (simp add: v stage_names_def comp_def)
qed (simp add: json_eq_refl)

lemma distinct_stages_of: "distinct (stages_of h)"
  by (simp add: stages_of_def)

lemma group_stages:
  assumes "group_inv dump operation cs h g"
  shows "legal_completed_stages operation (completed_stages g)" "distinct (completed_stages g)"
    "dispatch_started g \<longleftrightarrow> DispatchStarted \<in> set (completed_stages g)"
    "mutation_confirmed g \<longleftrightarrow> MutationConfirmed \<in> set (completed_stages g)"
    "has_spool g \<longleftrightarrow> SpoolReady \<in> set (completed_stages g)"
    "final_forward_items g \<noteq> None \<longleftrightarrow> ForwardProgress \<in> set (completed_stages g)"
    "mutation_confirmed g \<Longrightarrow> dispatch_started g" "final_forward_items g \<noteq> None \<Longrightarrow> dispatch_started g"
    "final_forward_items g \<noteq> None \<Longrightarrow> operation = A_MsgForward"
    "IdempotencyPending \<in> set (completed_stages g) \<Longrightarrow> keyed g"
proof -
  note i = assms [unfolded group_inv_def]
  have f: "flags_inv operation h" using history_loop_inv i unfolding history_inv_def by blast
  have s: "completed_stages g = stages_of h" using i by blast
  have l: "previous_forward h = final_forward_items g" using i by blast
  have d: "dispatch_started g = saw_dispatch h" using i by blast
  have m: "mutation_confirmed g = saw_mutation h" using i by blast
  have p: "has_spool g = saw_spool h" using i by blast
  have k: "saw_idempotency h \<longrightarrow> keyed g" using i by blast
  show "legal_completed_stages operation (completed_stages g)" unfolding s by (rule legal_stages [OF f])
  show "distinct (completed_stages g)" unfolding s by (rule distinct_stages_of)
  show "dispatch_started g \<longleftrightarrow> DispatchStarted \<in> set (completed_stages g)" "mutation_confirmed g \<longleftrightarrow> MutationConfirmed \<in> set (completed_stages g)"
    "has_spool g \<longleftrightarrow> SpoolReady \<in> set (completed_stages g)" "final_forward_items g \<noteq> None \<longleftrightarrow> ForwardProgress \<in> set (completed_stages g)"
    unfolding s d m p stages_of_memb l by simp_all
  show "mutation_confirmed g \<Longrightarrow> dispatch_started g" "final_forward_items g \<noteq> None \<Longrightarrow> dispatch_started g"
    "final_forward_items g \<noteq> None \<Longrightarrow> operation = A_MsgForward"
    using f unfolding d m l [symmetric] flags_inv_def by blast+
  show "IdempotencyPending \<in> set (completed_stages g) \<Longrightarrow> keyed g" using k unfolding s stages_of_memb by blast
qed

text \<open>
  C9: whatever records a scan has consumed, the group it holds open records a legal prefix of
  the stages of its operation without repetition, its flags say which stages were reached, an
  idempotency checkpoint occurs in keyed groups only, a proof and a forward vector only after the dispatch,
  and the two forward flags describe the latest vector.
\<close>

theorem open_group_invariant:
  assumes "scanned dump state" and "open_of state = Some g"
  shows "\<exists>operation. parse_account_audit_operation (string_of (field (intent g) ''command'')) = Some operation \<and>
     legal_completed_stages operation (completed_stages g) \<and> distinct (completed_stages g) \<and>
     (dispatch_started g \<longleftrightarrow> DispatchStarted \<in> set (completed_stages g)) \<and>
     (mutation_confirmed g \<longleftrightarrow> MutationConfirmed \<in> set (completed_stages g)) \<and>
     (has_spool g \<longleftrightarrow> SpoolReady \<in> set (completed_stages g)) \<and>
     (IdempotencyPending \<in> set (completed_stages g) \<longrightarrow> keyed g) \<and>
     (mutation_confirmed g \<or> final_forward_items g \<noteq> None \<longrightarrow> dispatch_started g) \<and>
     forward_complete g = (case final_forward_items g of None \<Rightarrow> False | Some items \<Rightarrow> forward_vector_complete items) \<and>
     any_forward_sent g =
       (case final_forward_items g of None \<Rightarrow> False | Some items \<Rightarrow> list_ex (\<lambda>item. item_status item ''sent'') (items_of items))"
proof -
  from scanned_inv [OF assms] obtain operation cs h where inv: "group_inv dump operation cs h g" by blast
  have "parse_account_audit_operation (string_of (field (intent g) ''command'')) = Some operation"
    "forward_complete g = vector_complete (final_forward_items g)" "any_forward_sent g = vector_sent (final_forward_items g)"
    using inv unfolding group_inv_def by blast+
  with group_stages [OF inv] show ?thesis unfolding vector_complete_def vector_sent_def by blast
qed

text \<open>
  C16: the lines of a group, from its intent to an outcome the validator accepts, take at most the
  \<open>kMaximumGroupBytes\<close> on which the capacity check of the log relies.
\<close>

theorem group_bytes_bounded:
  assumes "scanned dump state" and "open_of state = Some g" and "validate_outcome_impl dump outcome = None"
  shows "sum_list (map (record_bytes dump) (intent g # checkpoints g @ [outcome])) \<le> kMaximumGroupBytes"
  using scanned_inv [OF assms(1,2)] group_bytes [OF _ assms(3)] by blast

lemma consume_outcome_Inr:
  assumes "consume_outcome dump d g = Inr view"
  obtains operation where
    "parse_account_audit_operation (string_of (field (intent g) ''command'')) = Some operation"
    "field d ''completed_stages'' = stage_names (completed_stages g)"
    "terminal_matches_plan operation (field d ''terminal'') (intent g)"
    "outcome_terminal_contradicts dump (field d ''terminal'') g = None" "make_completed_view g d = Inr view"
  using assms unfolding consume_outcome_def Let_def stage_names_eq
  by (auto split: if_splits option.splits)

text \<open>
  C7: an outcome that reports success closes a group only if the group holds a stored proof of the
  mutation whose terminal has the text of the outcome's, or if it marks a chat as read that had no message to
  mark, without any dispatch.
\<close>

theorem success_needs_proof:
  assumes "scanned dump state" and "consume_v2 dump generation d state = Inr (state', Some view)"
    and "field d ''success'' = JBool True"
  shows "\<exists>g operation. open_of state = Some g \<and>
     parse_account_audit_operation (string_of (field (intent g) ''command'')) = Some operation \<and>
     (operation = A_ChatMarkRead \<and> \<not> dispatch_started g \<and> field (field (intent g) ''plan'') ''last_message_id'' = JNull \<or>
      mutation_confirmed g \<and> dispatch_started g \<and>
      (\<exists>found \<in> set (checkpoints g). checkpoint_is ''mutation_confirmed'' found \<and>
         terminal_proves_mutation operation (field (field found ''data'') ''terminal'') \<and>
         dump (field d ''terminal'') \<noteq> None \<and> dump (field d ''terminal'') = dump (field (field found ''data'') ''terminal'')))"
  using assms(2)
proof (cases rule: consume_v2_cases)
  case (outcome_record g v)
  from scanned_inv [OF assms(1) outcome_record(1)] obtain operation cs h where inv: "group_inv dump operation cs h g" by blast
  note i = inv [unfolded group_inv_def]
  have parse: "parse_account_audit_operation (string_of (field (intent g) ''command'')) = Some operation" using i by blast
  obtain op completed where o: "parse_account_audit_operation (string_of (field d ''command'')) = Some op"
    "stages_loop [] (items_of (field d ''completed_stages'')) = Some completed"
    "\<not> outcome_contradicts op True (string_of (field d ''mutation_state'')) completed (field d ''terminal'')"
    using outcome_accepted [OF outcome_record(3)] assms(3) by (metis bool_of.simps(1))
  have c: "field d ''completed_stages'' = stage_names (completed_stages g)"
    "terminal_matches_plan operation (field d ''terminal'') (intent g)"
    "outcome_terminal_contradicts dump (field d ''terminal'') g = None"
    using consume_outcome_Inr [OF outcome_record(4)] parse by (metis option.inject)+
  have completed: "completed = completed_stages g"
    using o(2) stages_loop_names [of "[]" "completed_stages g"] group_stages(2) [OF inv] unfolding c(1) by simp
  have op: "op = operation"
    using matching_same [OF outcome_record(2)] parse o(1) by (cases "field (intent g) ''command''") (auto split: json.splits)
  show ?thesis
  proof (cases "mutation_confirmed g")
    case True
    from c(3) True obtain found where found: "find (checkpoint_is ''mutation_confirmed'') (rev (checkpoints g)) = Some found"
      "canonical_json_equal dump (field d ''terminal'') (field (field found ''data'') ''terminal'')"
      by (auto simp: outcome_terminal_contradicts_def split: option.splits if_splits)
    have "proof_inv dump operation g" using i True by blast
    with found have "terminal_proves_mutation operation (field (field found ''data'') ''terminal'')"
      by (simp add: proof_inv_def Let_def)
    moreover have "found \<in> set (checkpoints g)" "checkpoint_is ''mutation_confirmed'' found" using find_SomeD [OF found(1)] by simp_all
    moreover have "dump (field d ''terminal'') \<noteq> None \<and> dump (field d ''terminal'') = dump (field (field found ''data'') ''terminal'')"
      using found(2) by (auto simp: canonical_json_equal_def split: option.splits)
    ultimately show ?thesis using parse outcome_record(1) True group_stages(7) [OF inv] by blast
  next
    case False
    then have "MutationConfirmed \<notin> set completed" using group_stages(4) [OF inv] completed by simp
    with o(3) have noop: "operation = A_ChatMarkRead" "DispatchStarted \<notin> set completed"
      "json_eq (field (field d ''terminal'') ''kind'') (JString ''result'')"
      "field (field (field d ''terminal'') ''data'') ''last_read_message_id'' = JNull"
      by (auto simp: outcome_contradicts_def Let_def op)
    have "field (field (intent g) ''plan'') ''last_message_id'' = JNull"
      using c(2) noop by (auto simp: terminal_matches_plan_def result_field_def Let_def)
    with noop(1,2) group_stages(3) [OF inv] completed parse outcome_record(1) show ?thesis by blast
  qed
qed (use assms(2) in simp_all)

end
