(* ===== verification/Audit_Rotation.thy ===== *)
theory Audit_Rotation
  imports File_Status Audit_Recovery
begin

text \<open>
  Rotation of the account audit log, \<open>rotate_for_intent\<close> in \<open>src/daemon/account_audit.cpp\<close>: the log
  has an active segment \<open>audit.log\<close> and four archived ones, \<open>audit.log.1\<close> the youngest. Before an
  intent that does not fit is appended, the segments move by one position into the first free
  one, or into the position of the oldest archived segment that no idempotency entry and no
  retained group refers to.

  A directory is the list of the five segments, \<open>None\<close> where the name does not exist. \<open>fails\<close> says
  which system call fails; a call that fails and a crash at that point leave the same directory.
\<close>

subsection \<open>Segments\<close>

type_synonym segments = "stored_file option list"

datatype rotation_call = StatSegment nat | UnlinkSegment | RenameTo nat | SyncSegments

record segment_identity =
  seg_name :: string
  seg_present :: bool
  seg_device :: nat
  seg_inode :: nat
  seg_size :: nat

datatype audit_interruption = ScanDeadline | ScanCancelled

record audit_failure =
  af_reason :: durability_reason
  af_detail :: string
  af_interruption :: "audit_interruption option"

definition audit_failure_of :: "durability_reason \<Rightarrow> audit_failure" where
  "audit_failure_of reason = \<lparr>af_reason = reason, af_detail = [], af_interruption = None\<rparr>"

definition assign_scan_interruption :: "audit_interruption \<Rightarrow> audit_failure \<Rightarrow> audit_failure" where
  "assign_scan_interruption i failure =
     failure\<lparr>af_interruption := Some i,
       af_detail := (if i = ScanCancelled then ''account audit scan was cancelled''
                     else ''account audit scan reached its absolute deadline'')\<rparr>"

definition kRotationBytes :: nat where
  "kRotationBytes = 33554432"

definition kMaximumSegmentBytes :: nat where
  "kMaximumSegmentBytes = kMaximumGroupBytes"

definition segment_names :: "string list" where
  "segment_names = [''audit.log'', ''audit.log.1'', ''audit.log.2'', ''audit.log.3'', ''audit.log.4'']"

definition valid_file_metadata :: "stat \<Rightarrow> nat \<Rightarrow> durability_reason option" where
  "valid_file_metadata m uid =
     (if st_kind m \<noteq> RegularFile then Some DR_WrongType
      else if st_uid m \<noteq> uid then Some DR_WrongOwner
      else if st_perm m \<noteq> 384 then Some DR_WrongMode
      else if st_nlink m \<noteq> 1 then Some DR_WrongLinkCount
      else None)"

fun inspect_loop ::
  "(rotation_call \<Rightarrow> bool) \<Rightarrow> nat \<Rightarrow> nat \<Rightarrow> (string \<times> stored_file option) list \<Rightarrow> nat set \<Rightarrow>
   durability_reason + segment_identity list" where
  "inspect_loop fails uid index [] inodes = Inr []"
| "inspect_loop fails uid index ((name, slot) # rest) inodes =
     (if fails (StatSegment index) then Inl DR_OpenFailed
      else (case slot of
              None \<Rightarrow>
                (case inspect_loop fails uid (index + 1) rest inodes of
                   Inl e \<Rightarrow> Inl e
                 | Inr segments \<Rightarrow>
                     Inr (\<lparr>seg_name = name, seg_present = False, seg_device = 0, seg_inode = 0, seg_size = 0\<rparr> # segments))
            | Some f \<Rightarrow>
                let m = stat_of f; oversized = (st_size m < 0 \<or> nat (st_size m) > kMaximumSegmentBytes)
                in if valid_file_metadata m uid \<noteq> None \<or> oversized
                   then Inl (if oversized then DR_PathInvalid else the (valid_file_metadata m uid))
                   else if st_ino m \<in> inodes then Inl DR_PathInvalid
                   else (case inspect_loop fails uid (index + 1) rest (insert (st_ino m) inodes) of
                           Inl e \<Rightarrow> Inl e
                         | Inr segments \<Rightarrow>
                             Inr (\<lparr>seg_name = name, seg_present = True, seg_device = st_dev m, seg_inode = st_ino m,
                                   seg_size = nat (st_size m)\<rparr> # segments))))"

definition inspect_segments :: "(rotation_call \<Rightarrow> bool) \<Rightarrow> nat \<Rightarrow> segments \<Rightarrow> durability_reason + segment_identity list" where
  "inspect_segments fails uid d = inspect_loop fails uid 0 (zip segment_names d) {}"

subsection \<open>Moving segments\<close>

definition exclusive_rename :: "segments \<Rightarrow> nat \<Rightarrow> nat \<Rightarrow> segments option" where
  "exclusive_rename d source destination =
     (if d ! source = None \<or> d ! destination \<noteq> None then None
      else Some (d[destination := d ! source, source := None]))"

text \<open>\<open>for (index = hole; index > 1; --index)\<close>.\<close>

fun rename_loop :: "(rotation_call \<Rightarrow> bool) \<Rightarrow> nat \<Rightarrow> segments \<Rightarrow> bool \<times> segments" where
  "rename_loop fails index d =
     (if index \<le> 1 then (True, d)
      else if fails (RenameTo index) then (False, d)
      else (case exclusive_rename d (index - 1) index of
              None \<Rightarrow> (False, d)
            | Some d' \<Rightarrow> rename_loop fails (index - 1) d'))"

declare rename_loop.simps [simp del]

definition first_hole :: "segment_identity list \<Rightarrow> nat" where
  "first_hole segments =
     (case find (\<lambda>index. \<not> seg_present (segments ! index)) [1..<length segments] of None \<Rightarrow> 0 | Some index \<Rightarrow> index)"

definition last_unpinned :: "nat set \<Rightarrow> segment_identity list \<Rightarrow> nat" where
  "last_unpinned pinned segments =
     (case find (\<lambda>index. seg_inode (segments ! index) \<notin> pinned) (rev [1..<length segments]) of None \<Rightarrow> 0 | Some index \<Rightarrow> index)"

definition shift_segments :: "(rotation_call \<Rightarrow> bool) \<Rightarrow> nat \<Rightarrow> segments \<Rightarrow> audit_failure option \<times> segments" where
  "shift_segments fails hole d =
     (case rename_loop fails hole d of
        (False, d) \<Rightarrow> (Some (audit_failure_of DR_RenameFailed), d)
      | (True, d) \<Rightarrow>
          if fails (RenameTo 1) then (Some (audit_failure_of DR_RenameFailed), d)
          else (case exclusive_rename d 0 1 of
                  None \<Rightarrow> (Some (audit_failure_of DR_RenameFailed), d)
                | Some d \<Rightarrow>
                    if fails SyncSegments then (Some (audit_failure_of DR_DirectorySyncFailed), d) else (None, d)))"

definition segment_changed :: "segment_identity list \<Rightarrow> segment_identity \<Rightarrow> bool" where
  "segment_changed segments expected =
     (case find (\<lambda>observed. seg_name observed = seg_name expected) segments of
        None \<Rightarrow> True
      | Some found \<Rightarrow> expected \<noteq> found)"

definition rotate_for_intent ::
  "(rotation_call \<Rightarrow> bool) \<Rightarrow> nat \<Rightarrow> nat \<Rightarrow> nat \<Rightarrow> bool \<Rightarrow> nat list \<Rightarrow> nat list \<Rightarrow> segment_identity list \<Rightarrow> audit_interruption option \<Rightarrow>
   segments \<Rightarrow> audit_failure option \<times> segments" where
  "rotate_for_intent fails uid threshold incoming absent_by_policy pin_generations retained_generations expected_segments
     interruption d =
     (if interruption \<noteq> None
      then (Some (assign_scan_interruption (the interruption) (audit_failure_of DR_PathInvalid)), d)
      else (case inspect_segments fails uid d of
         Inl reason \<Rightarrow> (Some (audit_failure_of reason), d)
       | Inr segments \<Rightarrow>
           if list_ex (segment_changed segments) expected_segments
           then (Some \<lparr>af_reason = DR_Contradiction, af_detail = ''audit segment changed after append permit validation'',
                      af_interruption = None\<rparr>, d)
           else
             let pinned = set pin_generations \<union> set retained_generations; active = segments ! 0
             in if \<not> seg_present active then (None, d)
                else if seg_size active = 0 \<or> incoming \<le> threshold \<and> seg_size active \<le> threshold - incoming then (None, d)
                else if first_hole segments \<noteq> 0 then shift_segments fails (first_hole segments) d
                else if absent_by_policy \<or> last_unpinned pinned segments = 0
                then (Some (audit_failure_of DR_CapacityExhausted), d)
                else if fails UnlinkSegment then (Some (audit_failure_of DR_RenameFailed), d)
                else shift_segments fails (last_unpinned pinned segments) (d[last_unpinned pinned segments := None])))"

subsection \<open>The files in the order of the segments\<close>

definition present :: "segments \<Rightarrow> stored_file list" where
  "present d = map the (filter (\<lambda>slot. slot \<noteq> None) d)"

lemma present_simps [simp]:
  "present [] = []" "present (None # d) = present d" "present (Some f # d) = f # present d" "present (d @ d') = present d @ present d'"
  by (simp_all add: present_def)

lemma nth_split: "i < length d \<Longrightarrow> d = take i d @ d ! i # drop (i + 1) d"
  by (simp add: id_take_nth_drop)

lemma present_remove: "i < length d \<Longrightarrow> present (d[i := None]) = present (take i d) @ present (drop (i + 1) d)"
  by (simp add: upd_conv_take_nth_drop)

lemma exclusive_rename_present:
  assumes "exclusive_rename d i (i + 1) = Some d'" "i + 1 < length d"
  shows "present d' = present d" "length d' = length d" "d' ! i = None"
proof -
  from assms(1) have n: "d ! i \<noteq> None" "d ! (i + 1) = None" "d' = d[i + 1 := d ! i, i := None]"
    by (auto simp: exclusive_rename_def split: if_splits)
  obtain f where f: "d ! i = Some f" using n(1) by auto
  have "d = take i d @ Some f # None # drop (i + 2) d"
    using nth_split [of i d] nth_split [of "i + 1" d] assms(2) f n(2)
    by (metis Cons_nth_drop_Suc Suc_eq_plus1 add_2_eq_Suc' add_lessD1 append_take_drop_id)
  moreover have "length (take i d) = i" using assms(2) by simp
  ultimately obtain xs ys where d: "d = xs @ Some f # None # ys" "length xs = i" by metis
  show "present d' = present d" unfolding n(3) d(1) by (simp add: d(2) [symmetric] list_update_append nth_append)
  show "length d' = length d" "d' ! i = None" using n(3) assms(2) by simp_all
qed

lemma rename_loop_present:
  "rename_loop fails index d = (ok, d') \<Longrightarrow> index < length d \<Longrightarrow> present d' = present d \<and> length d' = length d"
proof (induction fails index d rule: rename_loop.induct)
  case (1 fails index d)
  show ?case
  proof (cases "index \<le> 1 \<or> fails (RenameTo index) \<or> exclusive_rename d (index - 1) index = None")
    case True
    with 1(2) show ?thesis by (auto simp: rename_loop.simps [of fails index d] split: if_splits)
  next
    case False
    then obtain e where e: "exclusive_rename d (index - 1) index = Some e" by auto
    with exclusive_rename_present [of d "index - 1" e] False 1(3) have "present e = present d" "length e = length d" by auto
    moreover have "rename_loop fails (index - 1) e = (ok, d')"
      using 1(2) False e by (simp add: rename_loop.simps [of fails index d])
    ultimately show ?thesis using 1(1) [of e] 1(3) False e by auto
  qed
qed

lemma shift_segments_present:
  assumes "shift_segments fails hole d = (r, d')" "hole < length d" "1 < length d"
  shows "present d' = present d" "length d' = length d" "r = None \<Longrightarrow> d' ! 0 = None"
proof -
  obtain ok e where e: "rename_loop fails hole d = (ok, e)" by fastforce
  note p = rename_loop_present [OF e assms(2)]
  have "present d' = present d \<and> length d' = length d \<and> (r = None \<longrightarrow> d' ! 0 = None)"
    using assms(1,3) e p exclusive_rename_present [of e 0]
    by (auto simp: shift_segments_def split: bool.splits if_splits option.splits)
  then show "present d' = present d" "length d' = length d" "r = None \<Longrightarrow> d' ! 0 = None" by simp_all
qed

subsection \<open>What the inspection reports\<close>

definition reports :: "stored_file option \<Rightarrow> segment_identity \<Rightarrow> bool" where
  "reports slot s =
     (case slot of
        None \<Rightarrow> \<not> seg_present s
      | Some f \<Rightarrow> seg_present s \<and> seg_inode s = file_ino f \<and> seg_size s = length (file_contents f))"

lemma inspect_loop_reports:
  "inspect_loop fails uid index slots inodes = Inr segs \<Longrightarrow> list_all2 reports (map snd slots) segs"
  by (induction fails uid index slots inodes arbitrary: segs rule: inspect_loop.induct)
    (auto simp: reports_def stat_of_def Let_def split: if_splits sum.splits option.splits)

lemma inspect_segments_reports:
  assumes "inspect_segments fails uid d = Inr segs" "length d = 5"
  shows "length segs = 5" "i < 5 \<Longrightarrow> seg_present (segs ! i) \<longleftrightarrow> d ! i \<noteq> None"
    "i < 5 \<Longrightarrow> d ! i = Some f \<Longrightarrow> seg_inode (segs ! i) = file_ino f \<and> seg_size (segs ! i) = length (file_contents f)"
proof -
  have "map snd (zip segment_names d) = d" using assms(2) by (simp add: segment_names_def)
  then have r: "list_all2 reports d segs"
    using inspect_loop_reports [OF assms(1) [unfolded inspect_segments_def]] by simp
  then show "length segs = 5" using assms(2) by (simp add: list_all2_lengthD [symmetric])
  show "i < 5 \<Longrightarrow> seg_present (segs ! i) \<longleftrightarrow> d ! i \<noteq> None"
    "i < 5 \<Longrightarrow> d ! i = Some f \<Longrightarrow> seg_inode (segs ! i) = file_ino f \<and> seg_size (segs ! i) = length (file_contents f)"
    using list_all2_nthD [OF r, of i] assms(2) by (auto simp: reports_def split: option.splits)
qed

lemma first_hole_cases:
  assumes "length segs = 5"
  shows "first_hole segs = 0 \<and> (\<forall>i. 1 \<le> i \<and> i < 5 \<longrightarrow> seg_present (segs ! i)) \<or>
    1 \<le> first_hole segs \<and> first_hole segs < 5 \<and> \<not> seg_present (segs ! first_hole segs) \<and>
      (\<forall>i. 1 \<le> i \<and> i < first_hole segs \<longrightarrow> seg_present (segs ! i))"
proof (cases "find (\<lambda>index. \<not> seg_present (segs ! index)) [1..<length segs]")
  case None
  have "first_hole segs = 0" unfolding first_hole_def None by simp
  moreover have "seg_present (segs ! i)" if "1 \<le> i" "i < 5" for i using None that assms by (auto simp: find_None_iff)
  ultimately show ?thesis by blast
next
  case (Some h)
  then obtain j where j: "j < length [1..<length segs]" "\<not> seg_present (segs ! h)" "h = [1..<length segs] ! j"
    "\<forall>k < j. seg_present (segs ! ([1..<length segs] ! k))"
    by (auto simp: find_Some_iff)
  then have h: "h = j + 1" "j < 4" using assms by auto
  have "seg_present (segs ! i)" if "1 \<le> i" "i < h" for i
    using j(4) [rule_format, of "i - 1"] that h assms by simp
  with Some j(2) h show ?thesis by (simp add: first_hole_def)
qed

lemma last_unpinned_cases:
  assumes "length segs = 5"
  shows "last_unpinned pinned segs = 0 \<and> (\<forall>i. 1 \<le> i \<and> i < 5 \<longrightarrow> seg_inode (segs ! i) \<in> pinned) \<or>
    1 \<le> last_unpinned pinned segs \<and> last_unpinned pinned segs < 5 \<and>
      seg_inode (segs ! last_unpinned pinned segs) \<notin> pinned \<and>
      (\<forall>i. last_unpinned pinned segs < i \<and> i < 5 \<longrightarrow> seg_inode (segs ! i) \<in> pinned)"
proof -
  have u: "rev [1..<length segs] = [4, 3, 2, 1]" using assms by (simp add: upt_rec)
  have range: "1 \<le> i \<and> i < 5 \<longleftrightarrow> i \<in> {1, 2, 3, 4}" for i :: nat by auto
  have above: "h < i \<and> i < 5 \<longleftrightarrow> i \<in> {x \<in> {1, 2, 3, 4}. h < x}" if "1 \<le> h" for i h :: nat using that by auto
  show ?thesis unfolding last_unpinned_def u by (auto simp: range numeral_eq_Suc less_Suc_eq split: if_splits)
qed

subsection \<open>Rotation without failures\<close>

lemma rename_loop_succeeds:
  "index < length d \<Longrightarrow> 1 \<le> index \<Longrightarrow> d ! index = None \<Longrightarrow> \<forall>i. 1 \<le> i \<and> i < index \<longrightarrow> d ! i \<noteq> None \<Longrightarrow>
   \<exists>d'. rename_loop (\<lambda>_. False) index d = (True, d') \<and> d' ! 1 = None \<and> d' ! 0 = d ! 0"
proof (induction index arbitrary: d)
  case (Suc index)
  show ?case
  proof (cases "index = 0")
    case True
    with Suc.prems show ?thesis by (simp add: rename_loop.simps)
  next
    case False
    let ?e = "d[Suc index := d ! index, index := None]"
    have e: "exclusive_rename d index (Suc index) = Some ?e"
      using Suc.prems False by (simp add: exclusive_rename_def)
    have "\<exists>d'. rename_loop (\<lambda>_. False) index ?e = (True, d') \<and> d' ! 1 = None \<and> d' ! 0 = ?e ! 0"
      by (rule Suc.IH) (use Suc.prems False in \<open>auto simp: nth_list_update\<close>)
    with e False Suc.prems show ?thesis
      by (auto simp: rename_loop.simps [of "\<lambda>_. False" "Suc index"] nth_list_update)
  qed
qed simp

lemma shift_segments_succeeds:
  assumes "hole < length d" "1 \<le> hole" "d ! hole = None" "\<forall>i. 1 \<le> i \<and> i < hole \<longrightarrow> d ! i \<noteq> None" "d ! 0 \<noteq> None"
  shows "fst (shift_segments (\<lambda>_. False) hole d) = None"
  using rename_loop_succeeds [OF assms(1-4)] assms(5) by (auto simp: shift_segments_def exclusive_rename_def)

text \<open>When the active segment takes the incoming record as it is.\<close>

definition segment_fits :: "nat \<Rightarrow> nat \<Rightarrow> stored_file option \<Rightarrow> bool" where
  "segment_fits threshold incoming slot \<longleftrightarrow>
     (case slot of
        None \<Rightarrow> True
      | Some f \<Rightarrow> file_contents f = [] \<or> length (file_contents f) + incoming \<le> threshold)"

text \<open>The rotation by cases: nothing to do, a failure before any change, or a shift into a position
  that is free or is made free.\<close>

lemma rotate_cases:
  assumes "length d = 5" and "rotate_for_intent fails uid threshold incoming policy ps gs expected interruption d = (r, d')"
  obtains (unchanged) "d' = d" "r \<noteq> None \<or> segment_fits threshold incoming (d ! 0)"
  | (free) i where "1 \<le> i" "i < 5" "shift_segments fails i d = (r, d')"
  | (evict) i f where "1 \<le> i" "i < 5" "d ! i = Some f" "file_ino f \<notin> set ps \<union> set gs" "None \<notin> set d"
      "\<forall>j g. i < j \<and> j < 5 \<and> d ! j = Some g \<longrightarrow> file_ino g \<in> set ps \<union> set gs"
      "shift_segments fails i (d[i := None]) = (r, d')"
proof (cases "inspect_segments fails uid d")
  case (Inl e)
  with assms(2) show ?thesis by (intro unchanged) (auto simp: rotate_for_intent_def split: if_splits)
next
  case (Inr segs)
  note seg = inspect_segments_reports [OF Inr assms(1)]
  let ?p = "set ps \<union> set gs"
  show ?thesis
  proof (cases "interruption = None \<and> \<not> list_ex (segment_changed segs) expected \<and> seg_present (segs ! 0) \<and>
      \<not> (seg_size (segs ! 0) = 0 \<or> incoming \<le> threshold \<and> seg_size (segs ! 0) \<le> threshold - incoming)")
    case False
    have "r \<noteq> None \<or> segment_fits threshold incoming (d ! 0)" "d' = d"
      using False assms(2) Inr seg(2) [of 0] seg(3) [of 0]
      by (auto simp: rotate_for_intent_def Let_def segment_fits_def split: if_splits option.splits)
    then show ?thesis by (intro unchanged)
  next
    case big: True
    then have eq: "(r, d') =
        (if first_hole segs \<noteq> 0 then shift_segments fails (first_hole segs) d
         else if policy \<or> last_unpinned ?p segs = 0 then (Some (audit_failure_of DR_CapacityExhausted), d)
         else if fails UnlinkSegment then (Some (audit_failure_of DR_RenameFailed), d)
         else shift_segments fails (last_unpinned ?p segs) (d[last_unpinned ?p segs := None]))"
      using assms(2) Inr by (auto simp: rotate_for_intent_def Let_def)
    show ?thesis
    proof (cases "first_hole segs = 0")
      case False
      with first_hole_cases [OF seg(1)] eq show ?thesis by (intro free [of "first_hole segs"]) auto
    next
      case True
      with first_hole_cases [OF seg(1)] have "\<forall>i. 1 \<le> i \<and> i < 5 \<longrightarrow> d ! i \<noteq> None" using seg(2) by auto
      moreover have "d ! 0 \<noteq> None" using big seg(2) [of 0] by simp
      ultimately have full: "i < 5 \<Longrightarrow> d ! i \<noteq> None" for i by (cases "i = 0") auto
      show ?thesis
      proof (cases "policy \<or> last_unpinned ?p segs = 0 \<or> fails UnlinkSegment")
        case no: True
        with eq True have "d' = d" "r \<noteq> None" by (auto split: if_splits)
        then show ?thesis by (intro unchanged) auto
      next
        case False
        let ?i = "last_unpinned ?p segs"
        from last_unpinned_cases [OF seg(1), of ?p] False have i: "1 \<le> ?i" "?i < 5" "seg_inode (segs ! ?i) \<notin> ?p"
          "\<forall>j. ?i < j \<and> j < 5 \<longrightarrow> seg_inode (segs ! j) \<in> ?p" by auto
        obtain f where f: "d ! ?i = Some f" using full [OF i(2)] by auto
        have "None \<notin> set d" using full assms(1) by (metis in_set_conv_nth)
        moreover have "\<forall>j g. ?i < j \<and> j < 5 \<and> d ! j = Some g \<longrightarrow> file_ino g \<in> ?p" using i(4) seg(3) by metis
        moreover have "file_ino f \<notin> ?p" using i(2,3) seg(3) [OF i(2) f] by simp
        moreover have "shift_segments fails ?i (d[?i := None]) = (r, d')" using eq True False by simp
        ultimately show ?thesis using evict [OF i(1,2) f] by blast
      qed
    qed
  qed
qed

subsection \<open>Properties\<close>

text \<open>
  C4: whatever call fails, and wherever the process ends, rotation keeps every segment of the
  log with its contents and keeps the segments in their order, but for at most one: when all
  five exist it may remove the oldest archived segment that neither a pin nor a retained
  generation refers to. The active segment is never removed. When rotation succeeds, the active
  name is free or its segment has room for the incoming record.
\<close>

theorem rotation_keeps_segments:
  assumes "length d = 5" and "rotate_for_intent fails uid threshold incoming policy ps gs expected interruption d = (r, d')"
  shows "length d' = 5 \<and>
    (present d' = present d \<or>
      (\<exists>i f. 1 \<le> i \<and> i < 5 \<and> d ! i = Some f \<and> file_ino f \<notin> set ps \<union> set gs \<and> None \<notin> set d \<and>
         (\<forall>j g. i < j \<and> j < 5 \<and> d ! j = Some g \<longrightarrow> file_ino g \<in> set ps \<union> set gs) \<and>
         present d' = present (take i d) @ present (drop (i + 1) d))) \<and>
    (r = None \<longrightarrow> d' ! 0 = None \<or> segment_fits threshold incoming (d' ! 0))"
  using assms
proof (cases rule: rotate_cases)
  case unchanged
  with assms(1) show ?thesis by auto
next
  case (free i)
  with shift_segments_present [OF free(3)] assms(1) show ?thesis by auto
next
  case (evict i f)
  have "i < length (d[i := None])" "1 < length (d[i := None])" using evict(2) assms(1) by simp_all
  note s = shift_segments_present [OF evict(7) this]
  have "present (d[i := None]) = present (take i d) @ present (drop (i + 1) d)"
    using present_remove [of i d] evict(2) assms(1) by simp
  with s evict assms(1) show ?thesis by auto
qed

text \<open>
  C11: when no system call fails, the five segments pass the inspection and the expected ones are
  unchanged, rotation succeeds whenever there is room to be had (the active segment takes the
  record, some segment does not exist, or eviction is permitted and some archived segment is
  unpinned), and otherwise, and only then, it answers \<open>CapacityExhausted\<close>.
\<close>

theorem rotation_progress:
  assumes "length d = 5" and "inspect_segments (\<lambda>_. False) uid d = Inr segs" and "\<not> list_ex (segment_changed segs) expected"
  shows "fst (rotate_for_intent (\<lambda>_. False) uid threshold incoming policy ps gs expected None d) =
    (if segment_fits threshold incoming (d ! 0) \<or> None \<in> set d \<or>
        \<not> policy \<and> (\<exists>i f. 1 \<le> i \<and> i < 5 \<and> d ! i = Some f \<and> file_ino f \<notin> set ps \<union> set gs)
     then None else Some (audit_failure_of DR_CapacityExhausted))"
proof -
  note seg = inspect_segments_reports [OF assms(2,1)]
  let ?p = "set ps \<union> set gs" and ?rot = "rotate_for_intent (\<lambda>_. False) uid threshold incoming policy ps gs expected None d"
  show ?thesis
  proof (cases "segment_fits threshold incoming (d ! 0)")
    case True
    then show ?thesis using assms(2,3) seg(2) [of 0] seg(3) [of 0]
      by (auto simp: rotate_for_intent_def Let_def segment_fits_def split: option.splits)
  next
    case big: False
    then obtain a where a: "d ! 0 = Some a" by (cases "d ! 0") (auto simp: segment_fits_def)
    have rot: "?rot = (if first_hole segs \<noteq> 0 then shift_segments (\<lambda>_. False) (first_hole segs) d
         else if policy \<or> last_unpinned ?p segs = 0 then (Some (audit_failure_of DR_CapacityExhausted), d)
         else shift_segments (\<lambda>_. False) (last_unpinned ?p segs) (d[last_unpinned ?p segs := None]))"
      using assms(2,3) big a seg(2) [of 0] seg(3) [of 0 a] by (auto simp: rotate_for_intent_def Let_def segment_fits_def)
    have hole: "None \<in> set d \<longleftrightarrow> first_hole segs \<noteq> 0"
    proof (cases "first_hole segs = 0")
      case True
      with first_hole_cases [OF seg(1)] seg(2) have "1 \<le> i \<Longrightarrow> i < 5 \<Longrightarrow> d ! i \<noteq> None" for i by auto
      with a have "i < 5 \<Longrightarrow> d ! i \<noteq> None" for i by (cases "i = 0") auto
      with True assms(1) show ?thesis by (metis in_set_conv_nth)
    next
      case False
      with first_hole_cases [OF seg(1)] seg(2) [of "first_hole segs"] assms(1) show ?thesis by (metis nth_mem)
    qed
    have some: "first_hole segs = 0 \<Longrightarrow>
        (\<exists>i f. 1 \<le> i \<and> i < 5 \<and> d ! i = Some f \<and> file_ino f \<notin> ?p) \<longleftrightarrow> last_unpinned ?p segs \<noteq> 0"
    proof -
      assume "first_hole segs = 0"
      with hole assms(1) have "i < 5 \<Longrightarrow> \<exists>f. d ! i = Some f" for i by (metis not_Some_eq nth_mem)
      with last_unpinned_cases [OF seg(1), of ?p] seg(3) show ?thesis by (metis not_one_le_zero)
    qed
    have free: "first_hole segs \<noteq> 0 \<Longrightarrow> fst (shift_segments (\<lambda>_. False) (first_hole segs) d) = None"
      using first_hole_cases [OF seg(1)] seg(2) assms(1) a by (intro shift_segments_succeeds) auto
    have evict: "fst (shift_segments (\<lambda>_. False) (last_unpinned ?p segs) (d[last_unpinned ?p segs := None])) = None"
      if "first_hole segs = 0" "last_unpinned ?p segs \<noteq> 0"
      using that first_hole_cases [OF seg(1)] last_unpinned_cases [OF seg(1), of ?p] seg(2) assms(1) a
      by (intro shift_segments_succeeds) (auto simp: nth_list_update)
    show ?thesis using rot hole some free evict big by auto
  qed
qed

subsection \<open>A full log\<close>

text \<open>Five segments of three bytes each with inodes 10 to 14, of which the oldest, inode 14, is pinned.\<close>

definition example_segment :: "nat \<Rightarrow> stored_file" where
  "example_segment inode =
     \<lparr>file_dev = 1, file_ino = inode, file_kind = RegularFile, file_perm = 384, file_uid = 1000, file_nlink = 1,
      file_contents = ''abc''\<rparr>"

definition example_segments :: segments where
  "example_segments = map (\<lambda>inode. Some (example_segment inode)) [10, 11, 12, 13, 14]"

definition example_expected :: "segment_identity list" where
  "example_expected = [\<lparr>seg_name = ''audit.log'', seg_present = True, seg_device = 1, seg_inode = 10, seg_size = 3\<rparr>]"

definition example_rotation :: "audit_failure option \<times> segments" where
  "example_rotation = rotate_for_intent (\<lambda>_. False) 1000 5 4 False [14] [] example_expected None example_segments"

lemma example_segments_length: "length example_segments = 5"
  by (simp add: example_segments_def)

lemma example_inspection:
  "inspect_segments (\<lambda>_. False) 1000 example_segments =
     Inr [\<lparr>seg_name = ''audit.log'', seg_present = True, seg_device = 1, seg_inode = 10, seg_size = 3\<rparr>,
          \<lparr>seg_name = ''audit.log.1'', seg_present = True, seg_device = 1, seg_inode = 11, seg_size = 3\<rparr>,
          \<lparr>seg_name = ''audit.log.2'', seg_present = True, seg_device = 1, seg_inode = 12, seg_size = 3\<rparr>,
          \<lparr>seg_name = ''audit.log.3'', seg_present = True, seg_device = 1, seg_inode = 13, seg_size = 3\<rparr>,
          \<lparr>seg_name = ''audit.log.4'', seg_present = True, seg_device = 1, seg_inode = 14, seg_size = 3\<rparr>]"
  by (simp add: inspect_segments_def segment_names_def example_segments_def example_segment_def stat_of_def
      valid_file_metadata_def kMaximumSegmentBytes_def group_limits Let_def)

lemma example_rotation_eq:
  "example_rotation = (None, None # map (\<lambda>inode. Some (example_segment inode)) [10, 11, 12, 14])"
  unfolding example_rotation_def rotate_for_intent_def example_inspection
  by (simp add: example_expected_def segment_changed_def first_hole_def last_unpinned_def upt_rec example_segments_def
      shift_segments_def rename_loop.simps exclusive_rename_def)

text \<open>Rotation removes the segment with inode 13, the oldest that is not pinned.\<close>

theorem rotation_keeps_segments_witness:
  "\<exists>i f. 1 \<le> i \<and> i < 5 \<and> example_segments ! i = Some f \<and> file_ino f \<notin> {14} \<and>
     present (snd example_rotation) = present (take i example_segments) @ present (drop (i + 1) example_segments)"
proof -
  have neq: "present (snd example_rotation) \<noteq> present example_segments"
    by (simp add: example_rotation_eq example_segments_def)
  show ?thesis
    using rotation_keeps_segments [OF example_segments_length, of "\<lambda>_. False" 1000 5 4 False "[14]" "[]" example_expected None
        "fst example_rotation" "snd example_rotation"] neq
    by (auto simp: example_rotation_def)
qed

theorem rotation_progress_witness: "fst example_rotation = None"
proof -
  have changed: "\<not> list_ex (segment_changed
      [\<lparr>seg_name = ''audit.log'', seg_present = True, seg_device = 1, seg_inode = 10, seg_size = 3\<rparr>,
       \<lparr>seg_name = ''audit.log.1'', seg_present = True, seg_device = 1, seg_inode = 11, seg_size = 3\<rparr>,
       \<lparr>seg_name = ''audit.log.2'', seg_present = True, seg_device = 1, seg_inode = 12, seg_size = 3\<rparr>,
       \<lparr>seg_name = ''audit.log.3'', seg_present = True, seg_device = 1, seg_inode = 13, seg_size = 3\<rparr>,
       \<lparr>seg_name = ''audit.log.4'', seg_present = True, seg_device = 1, seg_inode = 14, seg_size = 3\<rparr>]) example_expected"
    by (simp add: segment_changed_def example_expected_def)
  have "\<exists>i f. 1 \<le> i \<and> i < 5 \<and> example_segments ! i = Some f \<and> file_ino f \<notin> set [14] \<union> set []"
    by (rule exI [of _ 1]) (simp add: example_segments_def example_segment_def)
  with rotation_progress [OF example_segments_length example_inspection changed, of 5 4 False "[14]" "[]"]
  show ?thesis by (simp add: example_rotation_def)
qed

end
