(* ===== verification/Fips_180_4.thy ===== *)
theory Fips_180_4
  imports "HOL-Library.Word"
begin

text \<open>
  SHA-256 as the standard FIPS 180-4 defines it, on strings of bits. Nothing here comes from
  the program: the constants are computed from the fractional parts of roots of primes (sections 4.2.2 and
  5.3.3), the message is padded and parsed bit by bit (5.1.1 and 5.2.1), and the message schedule is
  the recurrence of section 6.2.2.
\<close>

unbundle bit_operations_syntax

subsection \<open>Bit strings\<close>

type_synonym bits = "bool list"

text \<open>The \<open>n\<close>-bit representation of a number or word, the most significant bit first.\<close>

definition bits_of :: "nat \<Rightarrow> 'a::semiring_bits \<Rightarrow> bits" where
  "bits_of n x = map (bit x) (rev [0..<n])"

definition word_of_bits :: "bits \<Rightarrow> 32 word" where
  "word_of_bits bs = horner_sum of_bool 2 (rev bs)"

function chunks :: "nat \<Rightarrow> 'a list \<Rightarrow> 'a list list" where
  "chunks n xs = (if n = 0 \<or> length xs < n then [] else take n xs # chunks n (drop n xs))"
  by pat_completeness auto
termination
  by (relation "measure (\<lambda>(n, xs). length xs)") auto

declare chunks.simps [simp del]

subsection \<open>Constants\<close>

text \<open>The integer part of the \<open>n\<close>-th root of \<open>x\<close>, found bit by bit; \<open>k\<close> bits are enough when \<open>x < 2 ^ (n * k)\<close>.\<close>

fun root_from :: "nat \<Rightarrow> nat \<Rightarrow> nat \<Rightarrow> nat \<Rightarrow> nat" where
  "root_from n x 0 r = r"
| "root_from n x (Suc k) r = root_from n x k (if (r + 2 ^ k) ^ n \<le> x then r + 2 ^ k else r)"

definition first_primes :: "nat list" where
  "first_primes =
     [2, 3, 5, 7, 11, 13, 17, 19, 23, 29, 31, 37, 41, 43, 47, 53, 59, 61, 67, 71, 73, 79, 83, 89, 97, 101, 103, 107, 109, 113, 127,
      131, 137, 139, 149, 151, 157, 163, 167, 173, 179, 181, 191, 193, 197, 199, 211, 223, 227, 229, 233, 239, 241, 251, 257, 263,
      269, 271, 277, 281, 283, 293, 307, 311]"

text \<open>The first 32 bits of the fractional part of the \<open>n\<close>-th root of \<open>p\<close>: the root of \<open>p * 2 ^ (32 * n)\<close>
  without its integer part, which the conversion to a word drops.\<close>

definition root_fraction :: "nat \<Rightarrow> nat \<Rightarrow> 32 word" where
  "root_fraction n p = word_of_nat (root_from n (p * 2 ^ (32 * n)) 35 0)"

definition round_constants :: "32 word list" where
  "round_constants = map (root_fraction 3) first_primes"

definition initial_hash :: "32 word list" where
  "initial_hash = map (root_fraction 2) (take 8 first_primes)"

subsection \<open>Functions\<close>


definition Ch :: "32 word \<Rightarrow> 32 word \<Rightarrow> 32 word \<Rightarrow> 32 word" where
  "Ch x y z = (x AND y) XOR (NOT x AND z)"

definition Maj :: "32 word \<Rightarrow> 32 word \<Rightarrow> 32 word \<Rightarrow> 32 word" where
  "Maj x y z = (x AND y) XOR (x AND z) XOR (y AND z)"

definition Sigma0 :: "32 word \<Rightarrow> 32 word" where
  "Sigma0 x = word_rotr 2 x XOR word_rotr 13 x XOR word_rotr 22 x"

definition Sigma1 :: "32 word \<Rightarrow> 32 word" where
  "Sigma1 x = word_rotr 6 x XOR word_rotr 11 x XOR word_rotr 25 x"

definition sigma0 :: "32 word \<Rightarrow> 32 word" where
  "sigma0 x = word_rotr 7 x XOR word_rotr 18 x XOR drop_bit 3 x"

definition sigma1 :: "32 word \<Rightarrow> 32 word" where
  "sigma1 x = word_rotr 17 x XOR word_rotr 19 x XOR drop_bit 10 x"

subsection \<open>The hash computation\<close>

fun schedule :: "32 word list \<Rightarrow> nat \<Rightarrow> 32 word" where
  "schedule M t =
     (if t < 16 then M ! t
      else sigma1 (schedule M (t - 2)) + schedule M (t - 7) + sigma0 (schedule M (t - 15)) + schedule M (t - 16))"

declare schedule.simps [simp del]

record variables =
  va :: "32 word"
  vb :: "32 word"
  vc :: "32 word"
  vd :: "32 word"
  ve :: "32 word"
  vf :: "32 word"
  vg :: "32 word"
  vh :: "32 word"

definition hash_round :: "32 word list \<Rightarrow> nat \<Rightarrow> variables \<Rightarrow> variables" where
  "hash_round M t v =
     (let T1 = vh v + Sigma1 (ve v) + Ch (ve v) (vf v) (vg v) + round_constants ! t + schedule M t;
          T2 = Sigma0 (va v) + Maj (va v) (vb v) (vc v)
      in \<lparr>va = T1 + T2, vb = va v, vc = vb v, vd = vc v, ve = vd v + T1, vf = ve v, vg = vf v, vh = vg v\<rparr>)"

definition hash_block :: "32 word list \<Rightarrow> 32 word list \<Rightarrow> 32 word list" where
  "hash_block M H =
     (let v = fold (hash_round M) [0..<64]
                \<lparr>va = H ! 0, vb = H ! 1, vc = H ! 2, vd = H ! 3, ve = H ! 4, vf = H ! 5, vg = H ! 6, vh = H ! 7\<rparr>
      in map2 (+) H [va v, vb v, vc v, vd v, ve v, vf v, vg v, vh v])"

text \<open>The number of zero bits after the first padding bit is the least \<open>k\<close> for which the length of the
  message, one and \<open>k\<close> add up to 448 modulo 512.\<close>

definition padded :: "bits \<Rightarrow> bits" where
  "padded m = m @ True # replicate (nat ((447 - int (length m)) mod 512)) False @ bits_of 64 (length m)"

definition sha_256 :: "bits \<Rightarrow> bits" where
  "sha_256 m =
     concat (map (bits_of 32)
       (fold (\<lambda>b. hash_block (map word_of_bits (chunks 32 b))) (chunks 512 (padded m)) initial_hash))"

subsection \<open>What the definitions compute\<close>

lemma root_from_bounds:
  "0 < n \<Longrightarrow> r ^ n \<le> x \<Longrightarrow> x < (r + 2 ^ k) ^ n \<Longrightarrow> root_from n x k r ^ n \<le> x \<and> x < (root_from n x k r + 1) ^ n"
proof (induction k arbitrary: r)
  case (Suc k)
  have e: "r + 2 ^ k + 2 ^ k = r + 2 ^ Suc k" by simp
  show ?case
  proof (cases "(r + 2 ^ k) ^ n \<le> x")
    case True
    with Suc.IH [OF Suc.prems(1) True] Suc.prems(3) show ?thesis unfolding e by simp
  next
    case False
    with Suc.IH [OF Suc.prems(1,2)] show ?thesis by (simp add: not_le)
  qed
qed simp

text \<open>The root is the largest number whose power does not exceed \<open>x\<close>.\<close>

lemma root_fraction_exact:
  assumes "0 < n" "p < 2 ^ (3 * n)"
  shows "\<exists>r. root_fraction n p = word_of_nat r \<and> r ^ n \<le> p * 2 ^ (32 * n) \<and> p * 2 ^ (32 * n) < (r + 1) ^ n"
proof -
  have "p * 2 ^ (32 * n) < 2 ^ (3 * n) * 2 ^ (32 * n)" using assms(2) by simp
  also have "\<dots> = 2 ^ (35 * n)" by (simp flip: power_add)
  also have "\<dots> = (0 + 2 ^ 35) ^ n" by (simp only: add_0 power_mult)
  finally have "p * 2 ^ (32 * n) < (0 + 2 ^ 35) ^ n" .
  moreover have "0 ^ n \<le> p * 2 ^ (32 * n)" using assms(1) by (simp add: zero_power)
  ultimately show ?thesis using root_from_bounds [OF assms(1)] unfolding root_fraction_def by blast
qed

lemma bit_word_of_bits: "length bs \<le> 32 \<Longrightarrow> bit (word_of_bits bs) i \<longleftrightarrow> i < length bs \<and> bs ! (length bs - 1 - i)"
  by (auto simp: word_of_bits_def bit_horner_sum_bit_word_iff rev_nth)

lemma chunks_append: "0 < n \<Longrightarrow> length a = n \<Longrightarrow> chunks n (a @ b) = a # chunks n b"
  by (subst chunks.simps) simp

lemma chunks_Nil [simp]: "chunks n [] = []"
  by (subst chunks.simps) auto

lemma length_bits_of [simp]: "length (bits_of n x) = n"
  by (simp add: bits_of_def)

text \<open>The list holds the primes below 312: the numbers without a divisor up to their square root.\<close>

lemma first_primes_exact: "first_primes = filter (\<lambda>p. list_all (\<lambda>d. p < d * d \<or> p mod d \<noteq> 0) [2..<18]) [2..<312]"
  unfolding first_primes_def by (simp add: upt_rec)

text \<open>A root is recognised by its power, so that the constants need no search.\<close>

definition is_root :: "nat \<Rightarrow> nat \<Rightarrow> nat \<Rightarrow> bool" where
  "is_root n p r \<longleftrightarrow> p < 2 ^ (3 * n) \<and> r ^ n \<le> p * 2 ^ (32 * n) \<and> p * 2 ^ (32 * n) < (r + 1) ^ n"

lemma root_fraction_is_root:
  assumes "0 < n" "is_root n p r"
  shows "root_fraction n p = word_of_nat r"
proof -
  obtain q where q: "root_fraction n p = word_of_nat q" "q ^ n \<le> p * 2 ^ (32 * n)" "p * 2 ^ (32 * n) < (q + 1) ^ n"
    using root_fraction_exact [OF assms(1)] assms(2) by (auto simp: is_root_def)
  have "q ^ n < (r + 1) ^ n" "r ^ n < (q + 1) ^ n" using q(2,3) assms(2) unfolding is_root_def by linarith+
  then have "q < r + 1" "r < q + 1" by (meson power_less_imp_less_base zero_le)+
  then have "q = r" by linarith
  with q(1) show ?thesis by simp
qed

lemma root_fractions:
  "list_all2 (is_root n) ps rs \<Longrightarrow> 0 < n \<Longrightarrow> map (root_fraction n) ps = map word_of_nat rs"
  by (induction ps rs rule: list_all2_induct) (simp_all add: root_fraction_is_root)

lemma initial_hash_roots:
  "initial_hash = map word_of_nat
     [6074000999, 7439101573, 9603838834, 11363415354, 14244795007, 15485724812, 17708603819, 18721328409]"
  unfolding initial_hash_def by (rule root_fractions) (simp_all add: first_primes_def is_root_def)

lemma round_constants_roots:
  "round_constants = map word_of_nat
     [5411319704, 6194414737, 7344290767, 8215976869, 9551921755, 10098905585, 11043570340, 11460697813, 12214315672,
      13195500289, 13492127166, 14311783875, 14809980276, 15046980094, 15499789991, 16133124468, 16720292289,
      16907126662, 17444216262, 17784676812, 17950125167, 18429019306, 18734950876, 19175934170, 19734090066,
      20001703533, 20132865992, 20390182855, 20516441075, 20764397895, 21588763473, 21813078375, 22141143685,
      22248366392, 22769593852, 22871018771, 23170020180, 23461497531, 23651862830, 23931792517, 24205322401,
      24295138891, 24734567280, 24820601251, 24990902297, 25075189284, 25569408389, 26045227120, 26200031510,
      26276752392, 26428864332, 26653801653, 26727943347, 27092625994, 27306805839, 27517677555, 27725365998,
      27793908591, 27997534228, 28131656200, 28198240250, 28526537963, 28973835255, 29099129074]"
  unfolding round_constants_def by (rule root_fractions) (simp_all add: first_primes_def is_root_def)

end
