(* ===== verification/Sha256_Fips.thy ===== *)
theory Sha256_Fips
  imports Sha256 Fips_180_4
begin

text \<open>
  The SHA-256 of \<open>common/sha256.cpp\<close> is the SHA-256 of FIPS 180-4: its tables hold the roots of the first
  primes, its compression function is the hash computation of the standard on the bits of a block, and its
  padding is that of the standard for every message whose length in bits has 64 bits.
\<close>

subsection \<open>Octets as bits\<close>

definition octet_bits :: "octets \<Rightarrow> bits" where
  "octet_bits os = concat (map (bits_of 8) os)"

lemma octet_bits_simps [simp]:
  "octet_bits [] = []" "octet_bits (b # os) = bits_of 8 b @ octet_bits os" "octet_bits (os @ os') = octet_bits os @ octet_bits os'"
  by (simp_all add: octet_bits_def)

lemma length_octet_bits [simp]: "length (octet_bits os) = 8 * length os"
  by (induction os) simp_all

lemma nth_bits_of: "i < n \<Longrightarrow> bits_of n x ! i = bit x (n - 1 - i)"
  by (simp add: bits_of_def rev_nth)

lemma octet_bits_zeros: "octet_bits (replicate n 0) = replicate (8 * n) False"
proof -
  have "replicate 8 False = [False, False, False, False, False, False, False, False]" by (simp add: numeral_eq_Suc)
  then have "bits_of 8 (0 :: 8 word) = replicate 8 False" by (simp add: bits_of_def upt_rec bot_fun_def)
  then show ?thesis by (induction n) (simp_all add: replicate_add [symmetric])
qed

lemma word_of_octets: "word_of_bits (octet_bits [a, b, c, d]) = load_word [a, b, c, d] 0"
proof (rule bit_word_eqI)
  fix i :: nat
  assume "i < LENGTH(32)"
  then consider "i < 8" | "8 \<le> i" "i < 16" | "16 \<le> i" "i < 24" | "24 \<le> i" "i < 32" by fastforce
  then show "bit (word_of_bits (octet_bits [a, b, c, d])) i = bit (load_word [a, b, c, d] 0) i"
    by cases (auto simp: bit_word_of_bits nth_append nth_bits_of load_word_def bit_simps dest: bit_imp_le_length)
qed

lemma word_octets_bits: "octet_bits (word_octets w) = bits_of 32 w"
proof (rule nth_equalityI)
  fix i
  assume "i < length (octet_bits (word_octets w))"
  then have "i < 32" by (simp add: word_octets_def)
  then consider "i < 8" | "8 \<le> i" "i < 16" | "16 \<le> i" "i < 24" | "24 \<le> i" "i < 32" by fastforce
  then show "octet_bits (word_octets w) ! i = bits_of 32 w ! i"
    by cases (auto simp: word_octets_def nth_append nth_bits_of bit_simps)
qed (simp add: word_octets_def)

lemma digest_bits: "octet_bits (concat (map word_octets ws)) = concat (map (bits_of 32) ws)"
  by (induction ws) (simp_all add: word_octets_bits)

subsection \<open>The compression function\<close>

lemma rotr_word_rotr: "0 < n \<Longrightarrow> n < 32 \<Longrightarrow> rotr n x = word_rotr n x"
proof (rule bit_word_eqI)
  fix i
  assume n: "0 < n" "n < 32" and "i < LENGTH(32)"
  then have i: "i < 32" by simp
  show "bit (rotr n x) i = bit (word_rotr n x) i"
  proof (cases "i + n < 32")
    case True
    with n i show ?thesis by (auto simp: rotr_def bit_simps add.commute)
  next
    case False
    then have "(i + n) mod 32 = i + n - 32" using n i by (simp add: mod_if)
    with False n i show ?thesis
      by (auto simp: rotr_def bit_simps add.commute dest: bit_imp_le_length)
  qed
qed

lemma initial_digest: "digest sha256_init = initial_hash"
  by (simp add: sha256_init_def initial_hash_roots)

lemma round_table: "kRoundConstants = round_constants"
  by (simp add: kRoundConstants_def round_constants_roots)

lemma length_round_constants: "length round_constants = 64"
  by (simp add: round_constants_roots)

lemma load_word_Cons4: "load_word (a # b # c # d # os) ((i + 1) * 4) = load_word os (i * 4)"
  by (simp add: load_word_def add.commute [of 4] eval_nat_numeral)

lemma message_words:
  "length b = 4 * n \<Longrightarrow> map word_of_bits (chunks 32 (octet_bits b)) = map (\<lambda>i. load_word b (i * 4)) [0..<n]"
proof (induction n arbitrary: b)
  case (Suc n)
  then obtain w x y z os where b: "b = w # x # y # z # os" "length os = 4 * n"
    by (cases b; cases "tl b"; cases "tl (tl b)"; cases "tl (tl (tl b))") auto
  have "octet_bits b = octet_bits [w, x, y, z] @ octet_bits os" by (simp add: b)
  then have "chunks 32 (octet_bits b) = octet_bits [w, x, y, z] # chunks 32 (octet_bits os)"
    using chunks_append [of 32 "octet_bits [w, x, y, z]" "octet_bits os"] by simp
  moreover have "load_word [w, x, y, z] 0 = load_word b 0" by (simp add: load_word_def b)
  moreover have "map (\<lambda>i. load_word b (i * 4)) [0..<Suc n] = load_word b 0 # map (\<lambda>i. load_word os (i * 4)) [0..<n]"
    unfolding upt_conv_Cons [OF zero_less_Suc] map_Suc_upt [symmetric] using load_word_Cons4 by (simp add: b comp_def)
  ultimately show ?case using Suc.IH [OF b(2)] word_of_octets by simp
qed simp

lemma extend_schedule_recurrence:
  "16 \<le> j \<Longrightarrow> extend_schedule k (map (schedule M) [0..<j]) = map (schedule M) [0..<j + k]"
proof (induction k arbitrary: j)
  case (Suc k)
  have "schedule M j = schedule M (j - 16) + sigma0 (schedule M (j - 15)) + schedule M (j - 7) + sigma1 (schedule M (j - 2))"
    using Suc.prems by (subst schedule.simps) (simp add: ac_simps)
  with Suc.prems Suc.IH [of "Suc j"] show ?case
    by (simp add: Let_def sigma0_def sigma1_def rotr_word_rotr)
qed simp

lemma message_schedule_recurrence:
  assumes "length b = 64"
  shows "message_schedule b = map (schedule (map word_of_bits (chunks 32 (octet_bits b)))) [0..<64]"
proof -
  let ?M = "map word_of_bits (chunks 32 (octet_bits b))"
  have M: "?M = map (\<lambda>i. load_word b (i * 4)) [0..<16]" using message_words [of b 16] assms by simp
  have "map (schedule ?M) [0..<16] = ?M"
    by (rule nth_equalityI) (simp_all add: M, subst schedule.simps, simp add: M)
  moreover have "extend_schedule 48 (map (schedule ?M) [0..<16]) = map (schedule ?M) [0..<64]"
    using extend_schedule_recurrence [of 16 48 ?M] by simp
  moreover have "message_schedule b = extend_schedule 48 ?M" unfolding message_schedule_def M by (rule refl)
  ultimately show ?thesis by metis
qed

definition working_of :: "variables \<Rightarrow> working" where
  "working_of v = (va v, vb v, vc v, vd v, ve v, vf v, vg v, vh v)"

lemma sha_round_standard: "sha_round (working_of v) (round_constants ! t, schedule M t) = working_of (hash_round M t v)"
  by (simp add: working_of_def hash_round_def Let_def Ch_def Maj_def Sigma0_def Sigma1_def rotr_word_rotr)

lemma rounds_standard:
  "foldl sha_round (working_of v) (map (\<lambda>t. (round_constants ! t, schedule M t)) ts) = working_of (fold (hash_round M) ts v)"
  by (induction ts arbitrary: v) (simp_all add: sha_round_standard)

lemma transform_standard:
  assumes "length b = 64" "length dg = 8"
  shows "transform_digest dg b = hash_block (map word_of_bits (chunks 32 (octet_bits b))) dg"
proof -
  let ?M = "map word_of_bits (chunks 32 (octet_bits b))"
  let ?v = "\<lparr>va = dg ! 0, vb = dg ! 1, vc = dg ! 2, vd = dg ! 3, ve = dg ! 4, vf = dg ! 5, vg = dg ! 6, vh = dg ! 7\<rparr>"
  have z: "zip kRoundConstants (message_schedule b) = map (\<lambda>t. (round_constants ! t, schedule ?M t)) [0..<64]"
    unfolding round_table message_schedule_recurrence [OF assms(1)]
    by (rule nth_equalityI) (simp_all only: length_zip length_map length_upt length_round_constants nth_zip nth_map, simp_all)
  obtain x0 x1 x2 x3 x4 x5 x6 x7 where dg: "dg = [x0, x1, x2, x3, x4, x5, x6, x7]"
    using assms(2) by (auto simp: eval_nat_numeral length_Suc_conv)
  have "foldl sha_round (dg ! 0, dg ! 1, dg ! 2, dg ! 3, dg ! 4, dg ! 5, dg ! 6, dg ! 7) (zip kRoundConstants (message_schedule b)) =
      working_of (fold (hash_round ?M) [0..<64] ?v)"
    unfolding z rounds_standard [symmetric] by (simp add: working_of_def)
  then show ?thesis by (simp add: transform_digest_def hash_block_def Let_def working_of_def dg)
qed

subsection \<open>Padding and blocks\<close>

lemma length_octets_bits: "octet_bits (length_octets w) = bits_of 64 w"
proof (rule nth_equalityI)
  fix i
  assume "i < length (octet_bits (length_octets w))"
  then have i: "i < 64" by simp
  have l: "length_octets w = [ucast (drop_bit 56 w), ucast (drop_bit 48 w), ucast (drop_bit 40 w), ucast (drop_bit 32 w),
      ucast (drop_bit 24 w), ucast (drop_bit 16 w), ucast (drop_bit 8 w), ucast w]"
    by (simp add: length_octets_def upt_rec)
  from i consider "i < 8" | "8 \<le> i" "i < 16" | "16 \<le> i" "i < 24" | "24 \<le> i" "i < 32" | "32 \<le> i" "i < 40" | "40 \<le> i" "i < 48"
    | "48 \<le> i" "i < 56" | "56 \<le> i" "i < 64" by linarith
  then show "octet_bits (length_octets w) ! i = bits_of 64 w ! i"
    by cases (auto simp: l nth_append nth_bits_of bit_simps)
qed simp

lemma length_bits: "8 * n < 2 ^ 64 \<Longrightarrow> bits_of 64 (word_of_nat (8 * n) :: 64 word) = bits_of 64 (8 * n)"
  by (rule nth_equalityI) (auto simp: nth_bits_of bit_simps simp del: of_nat_mult)

lemma pad_zeros: "nat ((447 - int (8 * n)) mod 512) = 7 + 8 * ((119 - n mod 64) mod 64)"
proof -
  define q r where "q = n div 64" and "r = n mod 64"
  then have n: "n = 64 * q + r" "r < 64" by simp_all
  have "447 - int (8 * n) = (447 - 8 * int r) + 512 * (- int q)" by (simp add: n)
  then have "(447 - int (8 * n)) mod 512 = (447 - 8 * int r) mod 512" by (simp only: mod_mult_self2)
  moreover have "(447 - 8 * int r) mod 512 = 447 - 8 * int r" if "r \<le> 55" using that by (intro mod_pos_pos_trivial) auto
  moreover have "(447 - 8 * int r) mod 512 = 959 - 8 * int r" if "\<not> r \<le> 55"
  proof -
    have "(447 - 8 * int r) mod 512 = (447 - 8 * int r + 512) mod 512" by (simp only: mod_add_self2)
    also have "\<dots> = 447 - 8 * int r + 512" using that n(2) by (intro mod_pos_pos_trivial) auto
    finally show ?thesis by simp
  qed
  ultimately show ?thesis unfolding r_def [symmetric] using n(2) by (cases "r \<le> 55") (auto simp: mod_if)
qed

lemma pad_bits:
  assumes "length m < 2 ^ 61"
  shows "octet_bits (octet_pad m) = padded (octet_bits m)"
proof -
  have "replicate 7 False = [False, False, False, False, False, False, False]" by (simp add: numeral_eq_Suc)
  then have "bits_of 8 (0x80 :: 8 word) = True # replicate 7 False" by (simp add: bits_of_def upt_rec)
  moreover have "replicate 7 False @ replicate (8 * k) False = replicate (7 + 8 * k) False" for k by (simp add: replicate_add)
  moreover have "bits_of 64 (word_of_nat (8 * length m) :: 64 word) = bits_of 64 (8 * length m)" using assms by (intro length_bits) simp
  ultimately show ?thesis
    unfolding octet_pad_def padded_def octet_bits_simps length_octet_bits pad_zeros octet_bits_zeros length_octets_bits by simp
qed

lemma hash_blocks_standard:
  "64 dvd length m \<Longrightarrow> length dg = 8 \<Longrightarrow>
   hash_blocks dg m = fold (\<lambda>b. hash_block (map word_of_bits (chunks 32 b))) (chunks 512 (octet_bits m)) dg"
proof (induction dg m rule: hash_blocks.induct)
  case (1 dg m)
  show ?case
  proof (cases "length m < 64")
    case True
    with "1.prems" have "m = []" by (metis dvd_imp_le length_greater_0_conv not_le)
    then show ?thesis by (simp add: hash_blocks_short)
  next
    case False
    have "octet_bits m = octet_bits (take 64 m) @ octet_bits (drop 64 m)" by (simp flip: octet_bits_simps(3))
    then have "chunks 512 (octet_bits m) = octet_bits (take 64 m) # chunks 512 (octet_bits (drop 64 m))"
      using chunks_append [of 512 "octet_bits (take 64 m)"] False by simp
    moreover have "hash_blocks dg m = hash_blocks (transform_digest dg (take 64 m)) (drop 64 m)"
      using False by (subst hash_blocks.simps) simp
    moreover have "64 dvd length (drop 64 m)" using "1.prems" by simp
    note ih = "1.IH" [OF False this length_transform_digest]
    ultimately show ?thesis using ih "1.prems" False transform_standard [of "take 64 m" dg] by simp
  qed
qed

lemma octet_pad_length: "64 dvd length (octet_pad m)"
proof -
  define q r where "q = length m div 64" and "r = length m mod 64"
  then have m: "length m = 64 * q + r" "r < 64" by simp_all
  have "length (octet_pad m) = 64 * q + (r + 9 + (119 - r) mod 64)" unfolding octet_pad_def by (simp add: m(1) m(2) r_def [symmetric])
  moreover have "r + 9 + (119 - r) mod 64 \<in> {64, 128}" using m(2) by (auto simp: mod_if)
  ultimately have "length (octet_pad m) = 64 * (q + 1) \<or> length (octet_pad m) = 64 * (q + 2)" by auto
  then show ?thesis by (metis dvd_triv_left)
qed

lemma octet_sha256_standard:
  assumes "length m < 2 ^ 61"
  shows "octet_bits (octet_sha256 m) = sha_256 (octet_bits m)"
proof -
  have "length initial_hash = 8" by (simp add: initial_hash_roots)
  from hash_blocks_standard [OF octet_pad_length this] show ?thesis
    unfolding octet_sha256_def sha_256_def digest_bits initial_digest pad_bits [OF assms, symmetric] by simp
qed

subsection \<open>Reading digests back\<close>

lemma bits_of_octet_inject: "bits_of 8 (a :: 8 word) = bits_of 8 b \<longleftrightarrow> a = b"
proof
  assume e: "bits_of 8 a = bits_of 8 b"
  show "a = b"
  proof (rule bit_word_eqI)
    fix i
    assume "i < LENGTH(8)"
    then have "bits_of 8 a ! (7 - i) = bit a i" "bits_of 8 b ! (7 - i) = bit b i" by (simp_all add: nth_bits_of)
    with e show "bit a i = bit b i" by simp
  qed
qed simp

lemma octet_bits_inject: "octet_bits a = octet_bits b \<longleftrightarrow> a = b"
proof
  show "octet_bits a = octet_bits b \<Longrightarrow> a = b"
  proof (induction a arbitrary: b)
    case Nil
    then have "length (octet_bits b) = 0" by simp
    then show ?case by simp
  next
    case (Cons x a)
    have "length (octet_bits b) = 8 * length (x # a)" unfolding Cons.prems [symmetric] by simp
    then obtain y b' where "b = y # b'" by (cases b) auto
    with Cons show ?case by (simp add: bits_of_octet_inject)
  qed
qed simp

lemma hex_digit_inject: "m < 16 \<Longrightarrow> n < 16 \<Longrightarrow> hex_digits ! m = hex_digits ! n \<Longrightarrow> m = n"
  by (rule nth_eq_iff_index_eq [THEN iffD1, of hex_digits]) (simp_all add: hex_digits_def)

lemma hex_inject: "hex a = hex b \<Longrightarrow> a = b"
proof (induction a arbitrary: b)
  case Nil
  then have "length (hex b) = 0" by (simp add: hex_def)
  then show ?case by (simp add: hex_shape)
next
  case (Cons x a)
  have "length (hex b) = 2 * length (x # a)" unfolding Cons.prems [symmetric] by (simp add: hex_shape)
  then obtain y b' where b: "b = y # b'" by (cases b) (auto simp: hex_shape)
  have byte: "unat (drop_bit 4 z) = unat z div 16" "unat (z AND 0x0F) = unat z mod 16" "unat z < 256" for z :: "8 word"
  proof -
    show "unat (drop_bit 4 z) = unat z div 16" by (simp add: drop_bit_eq_div unat_div)
    have "z AND 0x0F = take_bit 4 z" by (simp add: take_bit_eq_mask mask_numeral)
    then show "unat (z AND 0x0F) = unat z mod 16" by (simp add: take_bit_eq_mod unat_mod)
    show "unat z < 256" using unsigned_less [of z] by simp
  qed
  have "hex_digits ! (unat x div 16) = hex_digits ! (unat y div 16)" "hex_digits ! (unat x mod 16) = hex_digits ! (unat y mod 16)"
    "hex a = hex b'"
    using Cons.prems by (simp_all add: hex_def b byte)
  moreover have "unat x div 16 < 16" "unat y div 16 < 16" using byte(3) by (simp_all add: less_mult_imp_div_less)
  ultimately have "unat x div 16 = unat y div 16" "unat x mod 16 = unat y mod 16" "a = b'"
    using hex_digit_inject Cons.IH by auto
  then have "unat x = unat y" by (metis div_mult_mod_eq)
  with \<open>a = b'\<close> b show ?case by (simp add: word_unat_eq_iff)
qed

subsection \<open>Properties\<close>

lemma sha256_abc:
  "hex (octet_sha256 (octets_of ''abc'')) = ''ba7816bf8f01cfea414140de5dae2223b00361a396177a9cb410ff61f20015ad''"
  by code_simp

text \<open>
  C14: however a message is cut into pieces, feeding the pieces one after the other never throws, and
  the bits of what \<open>finish\<close> returns are the SHA-256 that FIPS 180-4 defines for the bits of the whole
  message. The standard defines it for messages of less than \<open>2 ^ 64\<close> bits, that is \<open>2 ^ 61\<close> bytes.
\<close>

theorem sha256_streaming:
  assumes "length (concat cs) < 2 ^ 61"
  shows "\<exists>s. feed sha256_update sha256_init cs = Some s \<and> octet_bits (finish s) = sha_256 (octet_bits (concat cs))"
  using sha.absorb_all_result [of cs] octet_sha256_standard [OF assms] assms by auto

theorem sha256_streaming_witness:
  "\<exists>s. feed sha256_update sha256_init [octets_of ''a'', [], octets_of ''bc''] = Some s \<and>
     finish_hex s = ''ba7816bf8f01cfea414140de5dae2223b00361a396177a9cb410ff61f20015ad''"
proof -
  have abc: "concat [octets_of ''a'', [], octets_of ''bc''] = octets_of ''abc''" by (simp add: octets_of_def)
  obtain s where "feed sha256_update sha256_init [octets_of ''a'', [], octets_of ''bc''] = Some s"
    "octet_bits (finish s) = sha_256 (octet_bits (octets_of ''abc''))"
    using sha256_streaming [of "[octets_of ''a'', [], octets_of ''bc'']"] unfolding abc by auto
  moreover have "octet_bits (octet_sha256 (octets_of ''abc'')) = sha_256 (octet_bits (octets_of ''abc''))"
    by (rule octet_sha256_standard) simp
  ultimately show ?thesis using sha256_abc by (metis finish_hex_def octet_bits_inject)
qed

text \<open>
  C19: \<open>domain_separated_sha256\<close> refuses exactly the domains that contain the separator, and
  otherwise returns the SHA-256 of domain, separator and payload. If it returns the same text for two
  different pairs of domain and payload, then two different bit strings with the same SHA-256 have been
  found: no two pairs are ever hashed as the same message.
\<close>

theorem domain_separation:
  assumes "length d + 1 + length p < 2 ^ 61" and "length e + 1 + length q < 2 ^ 61"
  shows "(domain_separated_sha256 d p = None \<longleftrightarrow> CHR 0x00 \<in> set d) \<and>
    (\<forall>h. domain_separated_sha256 d p = Some h \<longrightarrow>
       (\<exists>os. h = ''sha256:'' @ hex os \<and> octet_bits os = sha_256 (octet_bits (octets_of (d @ [CHR 0x00] @ p))))) \<and>
    (\<forall>h. domain_separated_sha256 d p = Some h \<and> domain_separated_sha256 e q = Some h \<and> (d, p) \<noteq> (e, q) \<longrightarrow>
       (let x = octet_bits (octets_of (d @ [CHR 0x00] @ p)); y = octet_bits (octets_of (e @ [CHR 0x00] @ q))
        in x \<noteq> y \<and> sha_256 x = sha_256 y))"
proof -
  have some: "domain_separated_sha256 a b = Some (''sha256:'' @ hex (octet_sha256 (octets_of (a @ [CHR 0x00] @ b))))"
    if "CHR 0x00 \<notin> set a" "length a + 1 + length b < 2 ^ 61" for a b
    using that domain_separated_octets [of a b] sha256_string_octets [of "a @ [CHR 0x00] @ b"] by simp
  have none: "CHR 0x00 \<in> set a \<Longrightarrow> domain_separated_sha256 a b = None" for a b by (simp add: domain_separated_sha256_def)
  have std: "octet_bits (octet_sha256 (octets_of (a @ [CHR 0x00] @ b))) = sha_256 (octet_bits (octets_of (a @ [CHR 0x00] @ b)))"
    if "length a + 1 + length b < 2 ^ 61" for a b
    using that by (intro octet_sha256_standard) simp
  note s = some [of d p] some [of e q] none [of d p] none [of e q] std [OF assms(1)] std [OF assms(2)]
  have frames: "CHR 0x00 \<notin> set d \<Longrightarrow> CHR 0x00 \<notin> set e \<Longrightarrow> octet_bits (octets_of (d @ [CHR 0x00] @ p)) = octet_bits (octets_of (e @ [CHR 0x00] @ q))
      \<longleftrightarrow> d = e \<and> p = q"
    unfolding octet_bits_inject octets_of_inject by (rule separator_readable)
  show ?thesis
  proof (intro conjI allI impI)
    show "domain_separated_sha256 d p = None \<longleftrightarrow> CHR 0x00 \<in> set d" using s(1,3) assms(1) by (metis option.distinct(1))
  next
    fix h
    assume "domain_separated_sha256 d p = Some h"
    then show "\<exists>os. h = ''sha256:'' @ hex os \<and> octet_bits os = sha_256 (octet_bits (octets_of (d @ [CHR 0x00] @ p)))"
      using s(1,3,5) assms(1) by (metis option.distinct(1) option.inject)
  next
    fix h
    assume h: "domain_separated_sha256 d p = Some h \<and> domain_separated_sha256 e q = Some h \<and> (d, p) \<noteq> (e, q)"
    then have n: "CHR 0x00 \<notin> set d" "CHR 0x00 \<notin> set e" using s(3,4) by auto
    then have "hex (octet_sha256 (octets_of (d @ [CHR 0x00] @ p))) = hex (octet_sha256 (octets_of (e @ [CHR 0x00] @ q)))"
      using h s(1,2) assms by (metis option.inject same_append_eq)
    then show "let x = octet_bits (octets_of (d @ [CHR 0x00] @ p)); y = octet_bits (octets_of (e @ [CHR 0x00] @ q))
        in x \<noteq> y \<and> sha_256 x = sha_256 y"
      using frames [OF n] h s(5,6) hex_inject by (metis (no_types, lifting))
  qed
qed

theorem domain_separation_witness:
  "domain_separated_sha256 ''a'' ''bc'' \<noteq> None \<and> domain_separated_sha256 [CHR ''a'', CHR 0x00] ''c'' = None"
  using domain_separation [of "''a''" "''bc''" "''ab''" "''c''"]
    domain_separation [of "[CHR ''a'', CHR 0x00]" "''c''" "''ab''" "''c''"] by simp

end
