(* ===== verification/Activity_Tracker.thy ===== *)
theory Activity_Tracker
  imports Prelude "HOL-Library.Word"
begin

text \<open>
  The activity tracker of the daemon, \<open>src/daemon/activity_tracker.cpp\<close>: it counts the tokens of
  running requests and of subscriptions, and lets the daemon exit after it has been idle for the
  configured time.

  Every member function holds the mutex of the tracker for its whole effect, so that the threads
  of the daemon interleave as a sequence of these functions; the \<open>step\<close> relation has one rule for
  each, applied to the tracker together with the token objects that the rest of the daemon owns.
  A time of \<open>std::chrono::steady_clock\<close> is an \<open>int\<close> of nanoseconds between 0 and \<open>clock_max\<close>, read by
  the step that uses it, and never decreases. The counters are naturals, since each counted token
  is an object in memory. The hooks for tests are not modelled, and the callback is represented by
  whether one is installed.

  One thread runs \<open>watch\<close>. Between two turns of its loop it waits on the condition of the tracker,
  until a deadline or without one. What \<open>cancellation::Condition\<close> and the condition variable below it
  provide is written out in \<open>watcher_turn\<close>, \<open>wakes\<close> and the rules \<open>step_notify\<close> and \<open>step_rewait\<close>: a waiter is
  woken by a notification, by its deadline or for no reason, and goes back to waiting unless the
  deadline has passed or its predicate holds. A thread calls \<open>notify_all\<close> after it has released the
  mutex, and other threads may run before it does: \<open>notifying\<close> counts these calls. The generation of
  the condition makes the check of the predicate and the enrolment as a waiter one step.
\<close>

subsection \<open>The tracker\<close>

datatype kind = Request | Subscription

record tracker =
  revision :: "64 word"
  ready :: bool
  expired :: bool
  callback_claimed :: bool
  requests :: nat
  subscriptions :: nat
  idle_exit :: "int option"
  zero_since :: "int option"
  deadline :: "int option"
  on_expired :: bool
  notifying :: nat

definition make_tracker :: "bool \<Rightarrow> tracker" where
  "make_tracker callback =
     \<lparr>revision = 0, ready = False, expired = False, callback_claimed = False, requests = 0, subscriptions = 0,
      idle_exit = None, zero_since = None, deadline = None, on_expired = callback,
      notifying = 0\<rparr>"

definition clock_max :: int where
  "clock_max = 2 ^ 63 - 1"

definition nanoseconds :: int where
  "nanoseconds = 1000000000"

definition idle_deadline :: "int option \<Rightarrow> int option \<Rightarrow> int option" where
  "idle_deadline zero policy =
     (case (zero, policy) of
        (Some z, Some p) \<Rightarrow>
          if p > clock_max div nanoseconds then Some clock_max
          else if z > clock_max - p * nanoseconds then Some clock_max
          else Some (z + p * nanoseconds)
      | _ \<Rightarrow> None)"

definition recompute_deadline_locked :: "tracker \<Rightarrow> tracker" where
  "recompute_deadline_locked s = s\<lparr>deadline := idle_deadline (zero_since s) (idle_exit s)\<rparr>"

definition bump :: "tracker \<Rightarrow> tracker" where
  "bump s = s\<lparr>revision := revision s + 1\<rparr>"

text \<open>The thread has released the mutex and is about to call \<open>notify_all\<close>.\<close>

definition notify_all :: "tracker \<Rightarrow> tracker" where
  "notify_all s = s\<lparr>notifying := notifying s + 1\<rparr>"

text \<open>The result, the callback handed to the caller (whether there is one) and the state.\<close>

definition claim_expiry_locked :: "int \<Rightarrow> tracker \<Rightarrow> bool \<times> bool \<times> tracker" where
  "claim_expiry_locked current_time s =
     (if \<not> ready s \<or> expired s \<or> requests s \<noteq> 0 \<or> subscriptions s \<noteq> 0 \<or> deadline s = None \<or>
         current_time < the (deadline s)
      then (False, False, s)
      else if \<not> callback_claimed s then (True, on_expired s, s\<lparr>expired := True, callback_claimed := True\<rparr>)
      else (True, False, s\<lparr>expired := True\<rparr>))"

definition release :: "kind \<Rightarrow> int \<Rightarrow> tracker \<Rightarrow> tracker" where
  "release k now s =
     (let s = (case k of
                 Request \<Rightarrow> if requests s \<noteq> 0 then s\<lparr>requests := requests s - 1\<rparr> else s
               | Subscription \<Rightarrow> if subscriptions s \<noteq> 0 then s\<lparr>subscriptions := subscriptions s - 1\<rparr> else s);
          s = (if ready s \<and> requests s = 0 \<and> subscriptions s = 0 \<and> \<not> expired s
               then recompute_deadline_locked (s\<lparr>zero_since := Some now\<rparr>) else s)
      in notify_all (bump s))"

text \<open>\<open>commit\<close> is \<open>None\<close> for a null function pointer, otherwise what the function returns.\<close>

definition promote_request :: "bool option \<Rightarrow> tracker \<Rightarrow> bool \<times> tracker" where
  "promote_request commit s =
     (if requests s = 0 \<or> commit = Some False then (False, s)
      else (True, notify_all (bump (s\<lparr>requests := requests s - 1, subscriptions := subscriptions s + 1\<rparr>))))"

definition daemon_ready :: "int option \<Rightarrow> int \<Rightarrow> tracker \<Rightarrow> (unit + bool) \<times> tracker" where
  "daemon_ready policy now s =
     (if policy \<noteq> None \<and> the policy \<le> 0 then (Inl (), s)
      else if ready s then (Inr False, s)
      else let s = s\<lparr>ready := True, idle_exit := policy\<rparr>;
               s = (if requests s = 0 \<and> subscriptions s = 0
                    then recompute_deadline_locked (s\<lparr>zero_since := Some now\<rparr>) else s)
           in (Inr True, notify_all (bump s)))"

definition try_admit :: "kind \<Rightarrow> tracker \<Rightarrow> kind option \<times> tracker" where
  "try_admit k s =
     (if \<not> ready s \<or> expired s then (None, s)
      else let s = (case k of
                      Request \<Rightarrow> s\<lparr>requests := requests s + 1\<rparr>
                    | Subscription \<Rightarrow> s\<lparr>subscriptions := subscriptions s + 1\<rparr>)
           in (Some k, notify_all (bump (s\<lparr>zero_since := None, deadline := None\<rparr>))))"

definition update_idle_exit :: "int option \<Rightarrow> int \<Rightarrow> tracker \<Rightarrow> (unit + bool \<times> bool) \<times> tracker" where
  "update_idle_exit policy now s =
     (if policy \<noteq> None \<and> the policy \<le> 0 then (Inl (), s)
      else let s = recompute_deadline_locked (s\<lparr>idle_exit := policy\<rparr>)
           in case claim_expiry_locked now s of (claimed, callback, s) \<Rightarrow> (Inr (claimed, callback), notify_all (bump s)))"

definition expire_if_due :: "int \<Rightarrow> tracker \<Rightarrow> bool \<times> bool \<times> tracker" where
  "expire_if_due now s =
     (case claim_expiry_locked now s of (claimed, callback, s) \<Rightarrow> (claimed, callback, if claimed then notify_all (bump s) else s))"

text \<open>The thread that runs \<open>watch\<close>: it has not entered the loop, waits with the revision it has seen until
  the deadline (without one for \<open>None\<close>), or has left the loop. \<open>watch\<close> is one turn of the loop, from the
  test of its condition to the wait.\<close>

datatype watcher = WatchStarts | WatchWaits "64 word" "int option" | WatchReturned

definition watch :: "bool \<Rightarrow> int \<Rightarrow> tracker \<Rightarrow> watcher \<times> bool \<times> tracker" where
  "watch stop now s =
     (if stop \<or> expired s then (WatchReturned, False, s)
      else case claim_expiry_locked now s of
             (True, callback, s) \<Rightarrow> (WatchReturned, callback, notify_all (bump s))
           | (False, callback, s) \<Rightarrow> (WatchWaits (revision s) (deadline s), False, s))"

definition changed :: "bool \<Rightarrow> 64 word \<Rightarrow> tracker \<Rightarrow> bool" where
  "changed stop seen s \<longleftrightarrow> stop \<or> expired s \<or> revision s \<noteq> seen"

subsection \<open>Tokens\<close>

text \<open>A token object holds the kind it counts for, or \<open>None\<close> when its \<open>state_\<close> is null.\<close>

type_synonym token = "kind option"

definition promote_to_subscription :: "bool option \<Rightarrow> token \<Rightarrow> tracker \<Rightarrow> bool \<times> token \<times> tracker" where
  "promote_to_subscription commit tok s =
     (if tok \<noteq> Some Request then (False, tok, s)
      else case promote_request commit s of
             (False, s) \<Rightarrow> (False, tok, s)
           | (True, s) \<Rightarrow> (True, Some Subscription, s))"

definition reset :: "int \<Rightarrow> token \<Rightarrow> tracker \<Rightarrow> token \<times> tracker" where
  "reset now tok s = (case tok of None \<Rightarrow> (None, s) | Some k \<Rightarrow> (None, release k now s))"

subsection \<open>The tracker among the threads of the daemon\<close>

record system =
  tracker :: tracker
  tokens :: "token list"
  clock :: int
  callbacks :: nat
  runs :: nat
  watcher :: watcher
  notified :: bool
  stopping :: bool

definition hand_out :: "bool \<Rightarrow> system \<Rightarrow> system" where
  "hand_out callback s = s\<lparr>callbacks := callbacks s + of_bool callback\<rparr>"

text \<open>\<open>tick t s\<close>: the clock shows \<open>t\<close> when the step reads it.\<close>

definition tick :: "int \<Rightarrow> system \<Rightarrow> bool" where
  "tick t s \<longleftrightarrow> clock s \<le> t \<and> t \<le> clock_max"

text \<open>\<open>passed d t\<close>: a wait until \<open>d\<close> has timed out at \<open>t\<close>. \<open>watcher_turn\<close>: the wait returns, and the loop of
  \<open>watch\<close> takes its next turn with the mutex still held; \<open>None\<close> when it does not return. \<open>wakes\<close>: the watching
  thread runs without relying on a spurious wake-up.\<close>

definition passed :: "int option \<Rightarrow> int \<Rightarrow> bool" where
  "passed d t = (case d of None \<Rightarrow> False | Some e \<Rightarrow> e \<le> t)"

definition watcher_turn :: "int \<Rightarrow> system \<Rightarrow> system option" where
  "watcher_turn t s =
     (let turn = (case watch (stopping s) t (tracker s) of
                    (w, callback, a) \<Rightarrow> hand_out callback (s\<lparr>clock := t, tracker := a, watcher := w, notified := False\<rparr>))
      in case watcher s of
           WatchStarts \<Rightarrow> Some turn
         | WatchWaits seen d \<Rightarrow> if changed (stopping s) seen (tracker s) \<or> passed d t then Some turn else None
         | WatchReturned \<Rightarrow> None)"

definition wakes :: "int \<Rightarrow> system \<Rightarrow> bool" where
  "wakes t s = (case watcher s of WatchWaits seen d \<Rightarrow> notified s \<or> passed d t | _ \<Rightarrow> True)"

inductive step :: "system \<Rightarrow> system \<Rightarrow> bool" where
  step_ready: "tick t s \<Longrightarrow> daemon_ready policy t (tracker s) = (r, a) \<Longrightarrow> step s (s\<lparr>clock := t, tracker := a\<rparr>)"
| step_admit: "tick t s \<Longrightarrow> try_admit k (tracker s) = (Some k', a) \<Longrightarrow>
    step s (s\<lparr>clock := t, tracker := a, tokens := tokens s @ [Some k']\<rparr>)"
| step_refuse: "tick t s \<Longrightarrow> try_admit k (tracker s) = (None, a) \<Longrightarrow> step s (s\<lparr>clock := t, tracker := a\<rparr>)"
| step_promote: "tick t s \<Longrightarrow> i < length (tokens s) \<Longrightarrow> promote_to_subscription commit (tokens s ! i) (tracker s) = (r, tok, a) \<Longrightarrow>
    step s (s\<lparr>clock := t, tracker := a, tokens := (tokens s)[i := tok]\<rparr>)"
| step_reset: "tick t s \<Longrightarrow> i < length (tokens s) \<Longrightarrow> reset t (tokens s ! i) (tracker s) = (tok, a) \<Longrightarrow>
    step s (s\<lparr>clock := t, tracker := a, tokens := (tokens s)[i := tok]\<rparr>)"
| step_move: "tick t s \<Longrightarrow> i < length (tokens s) \<Longrightarrow> j < length (tokens s) \<Longrightarrow> i \<noteq> j \<Longrightarrow>
    reset t (tokens s ! j) (tracker s) = (tok, a) \<Longrightarrow>
    step s (s\<lparr>clock := t, tracker := a, tokens := (tokens s)[j := tokens s ! i, i := None]\<rparr>)"
| step_update: "tick t s \<Longrightarrow> update_idle_exit policy t (tracker s) = (Inr (claimed, callback), a) \<Longrightarrow>
    step s (hand_out callback (s\<lparr>clock := t, tracker := a\<rparr>))"
| step_update_throws: "tick t s \<Longrightarrow> update_idle_exit policy t (tracker s) = (Inl e, a) \<Longrightarrow>
    step s (s\<lparr>clock := t, tracker := a\<rparr>)"
| step_expire: "tick t s \<Longrightarrow> expire_if_due t (tracker s) = (claimed, callback, a) \<Longrightarrow>
    step s (hand_out callback (s\<lparr>clock := t, tracker := a\<rparr>))"
| step_watch: "tick t s \<Longrightarrow> watcher_turn t s = Some s' \<Longrightarrow> step s s'"
| step_rewait: "watcher s = WatchWaits seen d \<Longrightarrow> notified s \<Longrightarrow> \<not> changed (stopping s) seen (tracker s) \<Longrightarrow>
    step s (s\<lparr>notified := False\<rparr>)"
| step_notify: "notifying (tracker s) \<noteq> 0 \<Longrightarrow>
    step s (s\<lparr>tracker := (tracker s)\<lparr>notifying := notifying (tracker s) - 1\<rparr>, notified := True\<rparr>)"
| step_stop: "step s (s\<lparr>stopping := True, tracker := notify_all (tracker s)\<rparr>)"
| step_callback: "callbacks s \<noteq> 0 \<Longrightarrow> step s (s\<lparr>callbacks := callbacks s - 1, runs := runs s + 1\<rparr>)"

text \<open>The states that a run passes through, the last one first.\<close>

inductive run :: "system list \<Rightarrow> bool" where
  run_init: "0 \<le> t \<Longrightarrow> t \<le> clock_max \<Longrightarrow>
    run [\<lparr>tracker = make_tracker callback, tokens = [], clock = t, callbacks = 0, runs = 0,
       watcher = WatchStarts, notified = False, stopping = False\<rparr>]"
| run_step: "run (s # past) \<Longrightarrow> step s s' \<Longrightarrow> run (s' # s # past)"

subsection \<open>The invariant\<close>

definition live :: "kind \<Rightarrow> system \<Rightarrow> nat" where
  "live k s = count_list (tokens s) (Some k)"

definition tracker_ok :: "int \<Rightarrow> tracker \<Rightarrow> bool" where
  "tracker_ok now a \<longleftrightarrow>
     deadline a = idle_deadline (zero_since a) (idle_exit a) \<and>
     (zero_since a = None \<longleftrightarrow> \<not> ready a \<or> requests a \<noteq> 0 \<or> subscriptions a \<noteq> 0) \<and>
     (\<not> ready a \<or> expired a \<longrightarrow> requests a = 0 \<and> subscriptions a = 0) \<and>
     (expired a \<longrightarrow> ready a) \<and> (callback_claimed a \<longleftrightarrow> expired a) \<and>
     (\<forall>p. idle_exit a = Some p \<longrightarrow> 0 < p) \<and>
     (\<forall>z. zero_since a = Some z \<longrightarrow> 0 \<le> z \<and> z \<le> now)"

definition system_ok :: "system \<Rightarrow> bool" where
  "system_ok s \<longleftrightarrow>
     tracker_ok (clock s) (tracker s) \<and> 0 \<le> clock s \<and> clock s \<le> clock_max \<and>
     requests (tracker s) = live Request s \<and> subscriptions (tracker s) = live Subscription s \<and>
     callbacks s + runs s = of_bool (expired (tracker s) \<and> on_expired (tracker s))"

lemma tracker_ok_later: "tracker_ok now a \<Longrightarrow> now \<le> t \<Longrightarrow> tracker_ok t a"
  by (auto simp: tracker_ok_def)

lemma tracker_ok_revision [simp]: "tracker_ok t (bump a) = tracker_ok t a" "tracker_ok t (notify_all a) = tracker_ok t a"
  "tracker_ok t (a\<lparr>notifying := n\<rparr>) = tracker_ok t a"
  by (simp_all add: tracker_ok_def bump_def notify_all_def)

lemma bump_simps [simp]:
  "requests (bump a) = requests a" "subscriptions (bump a) = subscriptions a" "expired (bump a) = expired a"
  "on_expired (bump a) = on_expired a" "ready (bump a) = ready a" "zero_since (bump a) = zero_since a"
  "idle_exit (bump a) = idle_exit a" "deadline (bump a) = deadline a"
  "callback_claimed (bump a) = callback_claimed a"
  by (simp_all add: bump_def)

lemma notify_all_simps [simp]:
  "requests (notify_all a) = requests a" "subscriptions (notify_all a) = subscriptions a" "expired (notify_all a) = expired a"
  "on_expired (notify_all a) = on_expired a" "ready (notify_all a) = ready a" "zero_since (notify_all a) = zero_since a"
  "idle_exit (notify_all a) = idle_exit a" "deadline (notify_all a) = deadline a"
  "callback_claimed (notify_all a) = callback_claimed a" "revision (notify_all a) = revision a"
  by (simp_all add: notify_all_def)

lemma recompute_simps [simp]:
  "requests (recompute_deadline_locked a) = requests a" "subscriptions (recompute_deadline_locked a) = subscriptions a"
  "expired (recompute_deadline_locked a) = expired a" "on_expired (recompute_deadline_locked a) = on_expired a"
  "ready (recompute_deadline_locked a) = ready a" "zero_since (recompute_deadline_locked a) = zero_since a"
  "idle_exit (recompute_deadline_locked a) = idle_exit a"
  by (simp_all add: recompute_deadline_locked_def)

lemma idle_deadline_none [simp]: "idle_deadline None policy = None" "idle_deadline zero None = None"
  by (simp_all add: idle_deadline_def split: option.splits)

text \<open>What a claim of the expiry does.\<close>

lemma claim_expiry_locked_cases:
  assumes "tracker_ok t a" "claim_expiry_locked t a = (claimed, callback, a')"
  obtains "\<not> claimed" "\<not> callback" "a' = a"
  | z p where "claimed" "callback = on_expired a" "a' = a\<lparr>expired := True, callback_claimed := True\<rparr>" "\<not> expired a" "ready a"
      "requests a = 0" "subscriptions a = 0" "zero_since a = Some z" "idle_exit a = Some p"
      "idle_deadline (Some z) (Some p) = deadline a" "\<exists>e. deadline a = Some e \<and> e \<le> t"
proof (cases "claimed")
  case True
  then have c: "ready a" "\<not> expired a" "requests a = 0" "subscriptions a = 0" "deadline a \<noteq> None" "\<not> t < the (deadline a)"
    "callback = on_expired a \<and> a' = a\<lparr>expired := True, callback_claimed := True\<rparr>"
    using assms by (auto simp: claim_expiry_locked_def tracker_ok_def split: if_splits)
  moreover from c(5) assms(1) obtain z p where "zero_since a = Some z" "idle_exit a = Some p"
    by (cases "zero_since a"; cases "idle_exit a") (auto simp: tracker_ok_def)
  ultimately show ?thesis using assms(1) True that(2) [of z p] by (auto simp: tracker_ok_def)
next
  case False
  with assms(2) that(1) show ?thesis by (auto simp: claim_expiry_locked_def split: if_splits)
qed

lemma tracker_ok_expired: "tracker_ok t a \<Longrightarrow> ready a \<Longrightarrow> requests a = 0 \<Longrightarrow> subscriptions a = 0 \<Longrightarrow>
  tracker_ok t (a\<lparr>expired := True, callback_claimed := True\<rparr>)"
  by (simp add: tracker_ok_def)

text \<open>What an operation leaves: the tracker stays in order, nothing becomes live, and a callback is
  handed out exactly when the operation expires a tracker that has one.\<close>

definition keeps_live :: "int \<Rightarrow> tracker \<Rightarrow> bool \<Rightarrow> tracker \<Rightarrow> bool" where
  "keeps_live t a callback a' \<longleftrightarrow>
     tracker_ok t a' \<and> requests a' = requests a \<and> subscriptions a' = subscriptions a \<and> on_expired a' = on_expired a \<and>
     (expired a \<longrightarrow> expired a') \<and> callback = (\<not> expired a \<and> expired a' \<and> on_expired a)"

lemma claim_keeps_live:
  assumes "tracker_ok t a" "claim_expiry_locked t a = (claimed, callback, a')"
  shows "keeps_live t a callback a'"
  using assms
  by (cases rule: claim_expiry_locked_cases [OF assms]) (simp_all add: keeps_live_def tracker_ok_expired)

lemma operations_keep_live:
  assumes "tracker_ok t a"
  shows "daemon_ready policy t a = (r, a') \<Longrightarrow> 0 \<le> t \<Longrightarrow> keeps_live t a False a'"
    and "update_idle_exit policy t a = (Inr (claimed, callback), a') \<Longrightarrow> keeps_live t a callback a'"
    and "update_idle_exit policy t a = (Inl e, a') \<Longrightarrow> a' = a"
    and "expire_if_due t a = (claimed, callback, a') \<Longrightarrow> keeps_live t a callback a'"
    and "watch stop t a = (turn, callback, a') \<Longrightarrow> keeps_live t a callback a'"
proof -
  show "daemon_ready policy t a = (r, a') \<Longrightarrow> 0 \<le> t \<Longrightarrow> keeps_live t a False a'"
    using assms
    by (auto simp: daemon_ready_def keeps_live_def tracker_ok_def recompute_deadline_locked_def Let_def split: if_splits)
  show "update_idle_exit policy t a = (Inl e, a') \<Longrightarrow> a' = a"
    by (auto simp: update_idle_exit_def Let_def split: if_splits prod.splits)
  show "keeps_live t a callback a'" if "update_idle_exit policy t a = (Inr (claimed, callback), a')"
  proof -
    let ?a = "recompute_deadline_locked (a\<lparr>idle_exit := policy\<rparr>)"
    from that obtain b where b: "\<not> (policy \<noteq> None \<and> the policy \<le> 0)" "claim_expiry_locked t ?a = (claimed, callback, b)" "a' = notify_all (bump b)"
      by (auto simp: update_idle_exit_def Let_def split: if_splits prod.splits)
    have "tracker_ok t ?a" using assms b(1) by (auto simp: tracker_ok_def recompute_deadline_locked_def)
    from claim_keeps_live [OF this b(2)] show ?thesis by (simp add: keeps_live_def b(3))
  qed
  show "keeps_live t a callback a'" if "expire_if_due t a = (claimed, callback, a')"
    using that assms claim_keeps_live [OF assms, of claimed callback]
    by (auto simp: expire_if_due_def keeps_live_def split: prod.splits if_splits)
  show "keeps_live t a callback a'" if "watch stop t a = (turn, callback, a')"
  proof -
    obtain c cb b where c: "claim_expiry_locked t a = (c, cb, b)" by (metis prod_cases3)
    note k = claim_keeps_live [OF assms c]
    have "\<not> c \<Longrightarrow> \<not> cb" using c by (auto simp: claim_expiry_locked_def split: if_splits)
    with that c k assms show ?thesis by (cases c) (auto simp: watch_def keeps_live_def split: if_splits)
  qed
qed

lemma count_list_update:
  "i < length xs \<Longrightarrow> count_list (xs[i := v]) x + of_bool (xs ! i = x) = count_list xs x + of_bool (v = x)"
proof (induction xs arbitrary: i)
  case (Cons y ys)
  then show ?case by (cases i) auto
qed simp

text \<open>What giving up a live token does, and what promoting one does.\<close>

definition counts :: "tracker \<Rightarrow> kind \<Rightarrow> nat" where
  "counts a k = (case k of Request \<Rightarrow> requests a | Subscription \<Rightarrow> subscriptions a)"

lemma counts_simps [simp]: "counts a Request = requests a" "counts a Subscription = subscriptions a"
  by (simp_all add: counts_def)

lemma live_not_expired: "tracker_ok t a \<Longrightarrow> counts a k \<noteq> 0 \<Longrightarrow> ready a \<and> \<not> expired a"
  by (cases k) (auto simp: tracker_ok_def)

lemma release_ok:
  assumes "tracker_ok t a" "counts a k \<noteq> 0" "0 \<le> t"
  shows "tracker_ok t (release k t a)" "counts (release k t a) k' = counts a k' - of_bool (k' = k)"
    "expired (release k t a) = expired a" "on_expired (release k t a) = on_expired a"
proof -
  note r = live_not_expired [OF assms(1,2)]
  show "counts (release k t a) k' = counts a k' - of_bool (k' = k)" "expired (release k t a) = expired a"
    "on_expired (release k t a) = on_expired a"
    by (cases k; cases k'; simp add: release_def Let_def)+
  show "tracker_ok t (release k t a)"
    using assms r by (cases k) (auto simp: release_def Let_def tracker_ok_def recompute_deadline_locked_def)
qed

lemma try_admit_ok:
  assumes "tracker_ok t a" "try_admit k a = (Some k', a')"
  shows "tracker_ok t a'" "k' = k" "counts a' k'' = counts a k'' + of_bool (k'' = k)" "\<not> expired a" "\<not> expired a'"
    "on_expired a' = on_expired a"
proof -
  from assms(2) have "k' = k \<and> ready a \<and> \<not> expired a"
    by (auto simp: try_admit_def Let_def split: if_splits)
  then show "k' = k" "\<not> expired a" by simp_all
  show "tracker_ok t a'" "counts a' k'' = counts a k'' + of_bool (k'' = k)" "\<not> expired a'" "on_expired a' = on_expired a"
    using assms by (cases k; cases k''; auto simp: try_admit_def Let_def tracker_ok_def split: if_splits)+
qed

lemma promote_ok:
  assumes "tracker_ok t a" "promote_request commit a = (True, a')"
  shows "tracker_ok t a'" "requests a = requests a' + 1" "subscriptions a' = subscriptions a + 1" "expired a' = expired a"
    "on_expired a' = on_expired a"
proof -
  from assms(2) have r: "requests a \<noteq> 0" "a' = notify_all (bump (a\<lparr>requests := requests a - 1, subscriptions := subscriptions a + 1\<rparr>))"
    by (auto simp: promote_request_def split: if_splits)
  with live_not_expired [OF assms(1), of Request] have "ready a" "\<not> expired a" by simp_all
  with r assms(1) show "tracker_ok t a'" "requests a = requests a' + 1" "subscriptions a' = subscriptions a + 1"
    "expired a' = expired a" "on_expired a' = on_expired a"
    by (simp_all add: tracker_ok_def)
qed

lemma system_ok_counts: "system_ok s \<Longrightarrow> counts (tracker s) k = live k s"
  by (cases k) (auto simp: system_ok_def)

lemma live_token: "i < length (tokens s) \<Longrightarrow> tokens s ! i = Some k \<Longrightarrow> live k s \<noteq> 0"
  by (metis count_list_0_iff live_def nth_mem)

lemma system_okI:
  assumes "tracker_ok (clock s) (tracker s)" "0 \<le> clock s" "clock s \<le> clock_max" "\<And>k. counts (tracker s) k = live k s"
    "callbacks s + runs s = of_bool (expired (tracker s) \<and> on_expired (tracker s))"
  shows "system_ok s"
  using assms(1-3,5) assms(4) [of Request] assms(4) [of Subscription] by (simp add: system_ok_def)

lemma system_ok_keeps_live:
  assumes "system_ok s" "tick t s" "keeps_live t (tracker s) callback a"
  shows "system_ok (hand_out callback (s\<lparr>clock := t, tracker := a\<rparr>))"
  using assms by (auto simp: system_ok_def hand_out_def keeps_live_def tick_def live_def)

lemma hand_out_False [simp]: "hand_out False s = s"
  by (simp add: hand_out_def)

lemma system_ok_token:
  assumes "system_ok s" "tick t s" "tracker_ok t a" "\<And>k. counts a k = count_list toks (Some k)"
    "expired a = expired (tracker s)" "on_expired a = on_expired (tracker s)"
  shows "system_ok (s\<lparr>clock := t, tracker := a, tokens := toks\<rparr>)"
  using assms by (intro system_okI) (auto simp: system_ok_def tick_def live_def)

lemma reset_ok:
  assumes "system_ok s" "tick t s" "i < length (tokens s)" "reset t (tokens s ! i) (tracker s) = (tok, a)"
  shows "tok = None" "tracker_ok t a" "expired a = expired (tracker s)" "on_expired a = on_expired (tracker s)"
    "counts a k + of_bool (tokens s ! i = Some k) = live k s"
proof -
  have ok: "tracker_ok t (tracker s)" "0 \<le> t" using assms(1,2) by (auto simp: system_ok_def tick_def tracker_ok_later)
  show "tok = None" using assms(4) by (auto simp: reset_def split: option.splits)
  show "tracker_ok t a" "expired a = expired (tracker s)" "on_expired a = on_expired (tracker s)"
    "counts a k + of_bool (tokens s ! i = Some k) = live k s"
  proof -
    have "tracker_ok t a \<and> expired a = expired (tracker s) \<and> on_expired a = on_expired (tracker s) \<and>
        counts a k + of_bool (tokens s ! i = Some k) = live k s"
    proof (cases "tokens s ! i")
      case None
      with assms(4) ok(1) system_ok_counts [OF assms(1)] show ?thesis by (auto simp: reset_def)
    next
      case (Some k')
      with live_token [OF assms(3)] system_ok_counts [OF assms(1)] have "counts (tracker s) k' \<noteq> 0" by simp
      moreover have "a = release k' t (tracker s)" using assms(4) Some by (simp add: reset_def)
      moreover have "k = k' \<Longrightarrow> live k s \<noteq> 0" using live_token [OF assms(3)] Some by simp
      ultimately show ?thesis using release_ok [OF ok(1) _ ok(2)] Some system_ok_counts [OF assms(1)] by auto
    qed
    then show "tracker_ok t a" "expired a = expired (tracker s)" "on_expired a = on_expired (tracker s)"
      "counts a k + of_bool (tokens s ! i = Some k) = live k s" by simp_all
  qed
qed

lemma watcher_turnE:
  assumes "watcher_turn t s = Some s'"
  obtains w callback a where "watch (stopping s) t (tracker s) = (w, callback, a)"
    "s' = hand_out callback (s\<lparr>clock := t, tracker := a, watcher := w, notified := False\<rparr>)" "watcher s \<noteq> WatchReturned"
  using assms by (auto simp: watcher_turn_def Let_def split: prod.splits watcher.splits if_splits)

lemma step_system_ok: "step s s' \<Longrightarrow> system_ok s \<Longrightarrow> system_ok s'"
proof (induction rule: step.induct)
  case (step_ready t s policy r a)
  then have ok: "tracker_ok t (tracker s)" "0 \<le> t" by (auto simp: system_ok_def tick_def tracker_ok_later)
  from system_ok_keeps_live [OF step_ready.prems step_ready.hyps(1) operations_keep_live(1) [OF ok(1) step_ready.hyps(2) ok(2)]]
  show ?case by simp
next
  case (step_admit t s k k' a)
  then have "tracker_ok t (tracker s)" by (auto simp: system_ok_def tick_def tracker_ok_later)
  note a = try_admit_ok [OF this step_admit.hyps(2)]
  show ?case using step_admit a system_ok_counts [OF step_admit.prems] by (intro system_ok_token) (auto simp: live_def)
next
  case (step_refuse t s k a)
  then have "a = tracker s" by (auto simp: try_admit_def Let_def split: if_splits)
  with step_refuse show ?case by (auto simp: system_ok_def tick_def live_def tracker_ok_later)
next
  case (step_promote t s i commit r tok a)
  then have ok: "tracker_ok t (tracker s)" by (auto simp: system_ok_def tick_def tracker_ok_later)
  note c = system_ok_counts [OF step_promote.prems]
  show ?case
  proof (cases r)
    case False
    with step_promote.hyps(3) have "a = tracker s" "tok = tokens s ! i"
      by (auto simp: promote_to_subscription_def promote_request_def split: if_splits prod.splits bool.splits)
    with step_promote ok c show ?thesis by (intro system_ok_token) (auto simp: live_def)
  next
    case True
    with step_promote.hyps(3) have t: "tokens s ! i = Some Request" "tok = Some Subscription" "promote_request commit (tracker s) = (True, a)"
      by (auto simp: promote_to_subscription_def split: if_splits prod.splits bool.splits)
    note p = promote_ok [OF ok t(3)]
    have "counts a k = count_list ((tokens s)[i := tok]) (Some k)" for k
      using count_list_update [OF step_promote.hyps(2), of tok "Some k"] p(2,3) c [of Request] c [of Subscription] t
      by (cases k) (auto simp: live_def)
    with step_promote p show ?thesis by (intro system_ok_token)
  qed
next
  case (step_reset t s i tok a)
  note r = reset_ok [OF step_reset.prems step_reset.hyps]
  have "counts a k = count_list ((tokens s)[i := tok]) (Some k)" for k
    using count_list_update [OF step_reset.hyps(2), of tok "Some k"] r(1) r(5) [of k] by (auto simp: live_def)
  with step_reset r show ?case by (intro system_ok_token)
next
  case (step_move t s i j tok a)
  note r = reset_ok [OF step_move.prems step_move.hyps(1,3,5)]
  have "counts a k = count_list ((tokens s)[j := tokens s ! i, i := None]) (Some k)" for k
    using count_list_update [OF step_move.hyps(3), of "tokens s ! i" "Some k"]
      count_list_update [of i "(tokens s)[j := tokens s ! i]" None "Some k"] r(5) [of k] step_move.hyps(2,4)
    by (auto simp: live_def)
  with step_move r show ?case by (intro system_ok_token)
next
  case (step_update t s policy claimed callback a)
  then have "tracker_ok t (tracker s)" by (auto simp: system_ok_def tick_def tracker_ok_later)
  from operations_keep_live(2) [OF this step_update.hyps(2)] step_update show ?case by (intro system_ok_keeps_live)
next
  case (step_update_throws t s policy e a)
  then have "tracker_ok t (tracker s)" by (auto simp: system_ok_def tick_def tracker_ok_later)
  with operations_keep_live(3) [OF this step_update_throws.hyps(2)] step_update_throws
  show ?case by (auto simp: system_ok_def tick_def live_def)
next
  case (step_expire t s claimed callback a)
  then have "tracker_ok t (tracker s)" by (auto simp: system_ok_def tick_def tracker_ok_later)
  from operations_keep_live(4) [OF this step_expire.hyps(2)] step_expire show ?case by (intro system_ok_keeps_live)
next
  case (step_watch t s s')
  then have ok: "tracker_ok t (tracker s)" by (auto simp: system_ok_def tick_def tracker_ok_later)
  from step_watch.hyps(2) obtain w callback a where w: "watch (stopping s) t (tracker s) = (w, callback, a)"
    "s' = hand_out callback (s\<lparr>clock := t, tracker := a, watcher := w, notified := False\<rparr>)"
    by (rule watcher_turnE)
  from system_ok_keeps_live [OF step_watch.prems step_watch.hyps(1) operations_keep_live(5) [OF ok w(1)]]
  show ?case by (simp add: w(2) system_ok_def hand_out_def live_def)
next
  case (step_callback s)
  then show ?case by (cases "expired (tracker s) \<and> on_expired (tracker s)") (auto simp: system_ok_def live_def)
qed (auto simp: system_ok_def live_def)

definition started :: "system \<Rightarrow> bool" where
  "started s \<longleftrightarrow> (\<exists>t callback. 0 \<le> t \<and> t \<le> clock_max \<and>
     s = \<lparr>tracker = make_tracker callback, tokens = [], clock = t, callbacks = 0, runs = 0,
       watcher = WatchStarts, notified = False, stopping = False\<rparr>)"

interpretation daemon: invariant_machine started step system_ok
proof
  show "started s \<Longrightarrow> system_ok s" for s
    by (auto simp: started_def system_ok_def make_tracker_def tracker_ok_def live_def)
qed (rule step_system_ok)

lemma run_reachable: "run (s # past) \<Longrightarrow> \<exists>s0. started s0 \<and> step\<^sup>*\<^sup>* s0 s"
proof (induction "s # past" arbitrary: s past rule: run.induct)
  case (run_init t callback)
  then show ?case by (auto simp: started_def)
qed (auto intro: rtranclp.rtrancl_into_rtrancl)

lemma run_system_ok: "run (s # past) \<Longrightarrow> system_ok s"
  using run_reachable daemon.reachable_invariant by blast

subsection \<open>Properties\<close>

lemma no_live_tokens: "live Request s = 0 \<Longrightarrow> live Subscription s = 0 \<Longrightarrow> set (tokens s) \<subseteq> {None}"
  unfolding live_def count_list_0_iff by (metis (full_types) insertI1 kind.exhaust not_None_eq subsetI)

lemma idle_no_tokens: "system_ok s \<Longrightarrow> zero_since (tracker s) \<noteq> None \<Longrightarrow> set (tokens s) \<subseteq> {None}"
  by (rule no_live_tokens) (auto simp: system_ok_def tracker_ok_def)

text \<open>
  C6: in every interleaving of the threads of the daemon the counters are the numbers of live
  request and subscription tokens. Once the tracker has expired no token is live, so no request
  runs and none is admitted. The expiry callback is handed out once, if one is installed and the
  tracker has expired, and otherwise not at all.
\<close>

theorem activity_counts_tokens:
  assumes "run (s # past)"
  shows "requests (tracker s) = count_list (tokens s) (Some Request) \<and>
    subscriptions (tracker s) = count_list (tokens s) (Some Subscription) \<and>
    (expired (tracker s) \<longrightarrow> set (tokens s) \<subseteq> {None} \<and> (\<forall>k. fst (try_admit k (tracker s)) = None)) \<and>
    callbacks s + runs s = (if expired (tracker s) \<and> on_expired (tracker s) then 1 else 0)"
proof -
  have ok: "system_ok s" by (rule run_system_ok [OF assms])
  then have "expired (tracker s) \<Longrightarrow> zero_since (tracker s) \<noteq> None" by (auto simp: system_ok_def tracker_ok_def)
  with idle_no_tokens [OF ok] ok show ?thesis by (auto simp: system_ok_def live_def try_admit_def)
qed

lemma zero_since_operations:
  "daemon_ready policy t a = (r, a') \<Longrightarrow> zero_since a' \<in> {zero_since a, Some t}"
  "try_admit k a = (tok, a') \<Longrightarrow> zero_since a' \<in> {zero_since a, None}"
  "promote_to_subscription commit tok a = (ok, tok', a') \<Longrightarrow> zero_since a' = zero_since a"
  "reset t tok a = (tok', a') \<Longrightarrow> zero_since a' \<in> {zero_since a, Some t}"
  "claim_expiry_locked t a = (claimed, callback, a') \<Longrightarrow> zero_since a' = zero_since a"
  by (auto simp: daemon_ready_def try_admit_def promote_to_subscription_def promote_request_def reset_def release_def
      claim_expiry_locked_def Let_def split: if_splits option.splits kind.splits prod.splits bool.splits)

lemma zero_since_claims:
  "update_idle_exit policy t a = (r, a') \<Longrightarrow> zero_since a' = zero_since a"
  "expire_if_due t a = (claimed, callback, a') \<Longrightarrow> zero_since a' = zero_since a"
  "watch stop t a = (turn, callback, a') \<Longrightarrow> zero_since a' = zero_since a"
  by (auto simp: update_idle_exit_def expire_if_due_def watch_def Let_def dest: zero_since_operations(5)
      split: if_splits prod.splits bool.splits)

lemma step_zero_since: "step s s' \<Longrightarrow> zero_since (tracker s') \<in> {zero_since (tracker s), None, Some (clock s')}"
  by (induction rule: step.induct)
    (auto simp: hand_out_def elim!: watcher_turnE dest: zero_since_operations zero_since_claims)

lemma idle_since:
  "run (s # past) \<Longrightarrow> zero_since (tracker s) = Some z \<Longrightarrow>
   \<exists>recent start older. s # past = recent @ start # older \<and> clock start = z \<and>
     (\<forall>x \<in> set (recent @ [start]). set (tokens x) \<subseteq> {None})"
proof (induction "s # past" arbitrary: s past rule: run.induct)
  case (run_init t callback)
  then show ?case by (simp add: make_tracker_def)
next
  case (run_step s past s')
  have none: "set (tokens s') \<subseteq> {None}"
    using run_system_ok [OF run.run_step [OF run_step(1,3)]] idle_no_tokens run_step.prems by simp
  show ?case
  proof (cases "zero_since (tracker s) = Some z")
    case True
    from run_step(2) [OF True] obtain recent start older where
      "s # past = recent @ start # older" "clock start = z" "\<forall>x \<in> set (recent @ [start]). set (tokens x) \<subseteq> {None}"
      by blast
    with none show ?thesis by (intro exI [of _ "s' # recent"] exI [of _ start] exI [of _ older]) auto
  next
    case False
    with step_zero_since [OF run_step(3)] run_step.prems have "clock s' = z" by auto
    with none show ?thesis by (intro exI [of _ "[]"] exI [of _ s'] exI [of _ "s # past"]) auto
  qed
qed

text \<open>A step that expires the tracker claims the expiry at a deadline that has passed.\<close>

definition due :: "tracker \<Rightarrow> tracker \<Rightarrow> int \<Rightarrow> bool" where
  "due a a' t \<longleftrightarrow> (\<exists>z p e. zero_since a = Some z \<and> idle_exit a' = Some p \<and> idle_deadline (Some z) (Some p) = Some e \<and> e \<le> t)"

lemma claim_due:
  assumes "tracker_ok t a" "claim_expiry_locked t a = (claimed, callback, a')" "\<not> expired a" "expired a'"
  shows "due a a' t"
  using assms(3,4) by (cases rule: claim_expiry_locked_cases [OF assms(1,2)]) (auto simp: due_def)

lemma operations_due:
  assumes "tracker_ok t a" "\<not> expired a" "expired a'"
  shows "update_idle_exit policy t a = (r, a') \<Longrightarrow> due a a' t"
    and "expire_if_due t a = (claimed, callback, a') \<Longrightarrow> due a a' t"
    and "watch stop t a = (turn, callback, a') \<Longrightarrow> due a a' t"
proof -
  show "due a a' t" if u: "update_idle_exit policy t a = (r, a')"
  proof -
    let ?a = "recompute_deadline_locked (a\<lparr>idle_exit := policy\<rparr>)"
    from u assms(2,3) obtain c cb b where b: "\<not> (policy \<noteq> None \<and> the policy \<le> 0)" "claim_expiry_locked t ?a = (c, cb, b)" "a' = notify_all (bump b)"
      by (auto simp: update_idle_exit_def Let_def split: if_splits prod.splits)
    have "tracker_ok t ?a" using assms(1) b(1) by (auto simp: tracker_ok_def recompute_deadline_locked_def)
    from claim_due [OF this b(2)] assms(2,3) b(3) show ?thesis by (simp add: due_def)
  qed
  obtain c cb b where c: "claim_expiry_locked t a = (c, cb, b)" by (metis prod_cases3)
  note d = claim_due [OF assms(1) c]
  show "due a a' t" if "expire_if_due t a = (claimed, callback, a')"
    using that c d assms(2,3) by (auto simp: expire_if_due_def due_def split: if_splits)
  show "due a a' t" if "watch stop t a = (turn, callback, a')"
    using that c d assms(2,3) by (cases c) (auto simp: watch_def due_def split: if_splits)
qed

lemma step_due:
  assumes "step s s'" "system_ok s" "\<not> expired (tracker s)" "expired (tracker s')"
  shows "due (tracker s) (tracker s') (clock s')"
proof -
  have ok: "tick t s \<Longrightarrow> tracker_ok t (tracker s)" "tick t s \<Longrightarrow> 0 \<le> t" for t
    using assms(2) by (auto simp: system_ok_def tick_def tracker_ok_later)
  from assms(1,2) show ?thesis
  proof cases
    case (step_ready t policy r a)
    with operations_keep_live(1) [OF ok(1) _ ok(2)] assms(3,4) show ?thesis
      by (auto simp: daemon_ready_def Let_def split: if_splits)
  next
    case (step_admit t k k' a)
    with try_admit_ok(5) [OF ok(1) step_admit(3)] assms(4) show ?thesis by simp
  next
    case (step_refuse t k a)
    with assms(3,4) show ?thesis by (auto simp: try_admit_def Let_def split: if_splits)
  next
    case (step_promote t i commit r tok a)
    with assms(3,4) show ?thesis
      by (auto simp: promote_to_subscription_def promote_request_def split: if_splits prod.splits bool.splits)
  next
    case (step_reset t i tok a)
    with reset_ok(3) [OF assms(2) step_reset(2-4)] assms(3,4) show ?thesis by simp
  next
    case (step_move t i j tok a)
    with reset_ok(3) [OF assms(2) step_move(2,4,6)] assms(3,4) show ?thesis by simp
  next
    case (step_update_throws t policy e a)
    with operations_keep_live(3) [OF ok(1)] assms(3,4) show ?thesis by fastforce
  qed (use assms(3,4) operations_due [OF ok(1)] in \<open>auto simp: hand_out_def elim!: watcher_turnE\<close>)
qed

lemma idle_deadline_min:
  "0 \<le> z \<Longrightarrow> z \<le> clock_max \<Longrightarrow> 0 < p \<Longrightarrow> idle_deadline (Some z) (Some p) = Some (min clock_max (z + p * nanoseconds))"
  by (auto simp: idle_deadline_def clock_max_def nanoseconds_def)

text \<open>
  C5: the tracker expires only after a full idle period. Whenever a step expires it, the run went
  through a state from which on no token was live, and that state lies at least the configured
  number of seconds before the expiry, unless the clock has reached its last value.
\<close>

theorem expiry_needs_idle_period:
  assumes "run (s' # s # past)" and "\<not> expired (tracker s)" and "expired (tracker s')"
  shows "\<exists>recent start older p. s # past = recent @ start # older \<and> idle_exit (tracker s') = Some p \<and>
    (\<forall>x \<in> set (s' # recent @ [start]). set (tokens x) \<subseteq> {None}) \<and>
    (clock start + p * nanoseconds \<le> clock s' \<or> clock s' = clock_max)"
proof -
  from assms(1) have r: "run (s # past)" "step s s'" by (auto elim: run.cases)
  note ok = run_system_ok [OF r(1)] run_system_ok [OF assms(1)]
  from step_due [OF r(2) ok(1) assms(2,3)] obtain z p e where
    d: "zero_since (tracker s) = Some z" "idle_exit (tracker s') = Some p" "idle_deadline (Some z) (Some p) = Some e" "e \<le> clock s'"
    by (auto simp: due_def)
  have "0 \<le> z" "z \<le> clock_max" "0 < p" "clock s' \<le> clock_max"
    using ok d(1,2) by (auto simp: system_ok_def tracker_ok_def)
  with idle_deadline_min [of z p] d(3,4) have t: "z + p * nanoseconds \<le> clock s' \<or> clock s' = clock_max" by auto
  have "set (tokens s') \<subseteq> {None}" using ok(2) assms(3) by (intro idle_no_tokens) (auto simp: system_ok_def tracker_ok_def)
  with idle_since [OF r(1) d(1)] d(2) t show ?thesis by fastforce
qed

text \<open>Every operation that changes anything raises the revision and notifies, so that the watching thread
  cannot sleep through a change: it waits for the current deadline, or it has been or is about to be
  notified of a revision that it has not seen.\<close>

definition announced :: "tracker \<Rightarrow> tracker \<Rightarrow> bool" where
  "announced a a' \<longleftrightarrow> a' = a \<or> revision a' = revision a + 1 \<and> notifying a' = notifying a + 1"

lemma revision_simps [simp]:
  "revision (bump a) = revision a + 1" "notifying (bump a) = notifying a" "notifying (notify_all a) = notifying a + 1"
  "revision (recompute_deadline_locked a) = revision a" "notifying (recompute_deadline_locked a) = notifying a"
  by (simp_all add: bump_def notify_all_def recompute_deadline_locked_def)

lemma claim_revision:
  "claim_expiry_locked t a = (claimed, callback, a') \<Longrightarrow> revision a' = revision a \<and> notifying a' = notifying a \<and> (\<not> claimed \<longrightarrow> a' = a)"
  by (auto simp: claim_expiry_locked_def split: if_splits)

lemma operations_announced:
  "daemon_ready policy t a = (r, a') \<Longrightarrow> announced a a'"
  "try_admit k a = (tok, a') \<Longrightarrow> announced a a'"
  "promote_to_subscription commit tok a = (ok, tok', a') \<Longrightarrow> announced a a'"
  "reset t tok a = (tok', a') \<Longrightarrow> announced a a'"
  "update_idle_exit policy t a = (u, a') \<Longrightarrow> announced a a'"
  "expire_if_due t a = (claimed, callback, a') \<Longrightarrow> announced a a'"
  "watch stop t a = (w, callback, a') \<Longrightarrow> announced a a'"
  by (auto simp: announced_def daemon_ready_def try_admit_def promote_to_subscription_def promote_request_def reset_def release_def
      update_idle_exit_def expire_if_due_def watch_def Let_def dest!: claim_revision
      split: if_splits option.splits kind.splits prod.splits bool.splits)

definition watcher_ok :: "nat \<Rightarrow> system \<Rightarrow> bool" where
  "watcher_ok n s =
     (case watcher s of
        WatchStarts \<Rightarrow> True
      | WatchReturned \<Rightarrow> expired (tracker s) \<or> stopping s
      | WatchWaits seen d \<Rightarrow>
          \<exists>k \<le> n. revision (tracker s) = seen + of_nat k \<and> (k = 0 \<longrightarrow> deadline (tracker s) = d) \<and>
            (k \<noteq> 0 \<longrightarrow> notified s \<or> notifying (tracker s) \<noteq> 0))"

lemma watcher_ok_announced:
  assumes "watcher_ok n s" "announced (tracker s) (tracker s')" "watcher s' = watcher s" "notified s' = notified s" "stopping s' = stopping s"
    "expired (tracker s) \<longrightarrow> expired (tracker s')"
  shows "watcher_ok (Suc n) s'"
proof (cases "watcher s")
  case (WatchWaits seen d)
  with assms(1) obtain k where k: "k \<le> n" "revision (tracker s) = seen + of_nat k" "k = 0 \<longrightarrow> deadline (tracker s) = d"
    "k \<noteq> 0 \<longrightarrow> notified s \<or> notifying (tracker s) \<noteq> 0"
    by (auto simp: watcher_ok_def)
  from assms(2) consider "tracker s' = tracker s"
    | "revision (tracker s') = revision (tracker s) + 1" "notifying (tracker s') = notifying (tracker s) + 1"
    by (auto simp: announced_def)
  then show ?thesis
  proof cases
    case 1
    with k WatchWaits assms(3,4) show ?thesis by (auto simp: watcher_ok_def intro!: exI [of _ k])
  next
    case 2
    with k WatchWaits assms(3) show ?thesis by (auto simp: watcher_ok_def intro!: exI [of _ "Suc k"])
  qed
qed (use assms in \<open>auto simp: watcher_ok_def\<close>)

lemma watch_watcher_ok: "watch (stopping s) t a = (w, callback, a') \<Longrightarrow>
  watcher_ok n (s\<lparr>clock := t, tracker := a', watcher := w, notified := False\<rparr>)"
  by (auto simp: watch_def watcher_ok_def claim_expiry_locked_def split: if_splits prod.splits bool.splits intro!: exI [of _ 0])

lemma watcher_ok_hand_out [simp]: "watcher_ok n (hand_out callback s) = watcher_ok n s"
  by (cases "watcher s") (simp_all add: watcher_ok_def hand_out_def)

lemma revisions_differ: "k < 2 ^ 64 \<Longrightarrow> (of_nat k :: 64 word) = 0 \<longleftrightarrow> k = 0"
  by (auto simp: word_of_nat_eq_0_iff dest: nat_dvd_not_less)

lemma operations_expired:
  "daemon_ready policy t a = (r, a') \<Longrightarrow> expired a \<Longrightarrow> expired a'"
  "try_admit k a = (tok, a') \<Longrightarrow> expired a \<Longrightarrow> expired a'"
  "promote_to_subscription commit tok a = (ok, tok', a') \<Longrightarrow> expired a \<Longrightarrow> expired a'"
  "reset t tok a = (tok', a') \<Longrightarrow> expired a \<Longrightarrow> expired a'"
  "update_idle_exit policy t a = (u, a') \<Longrightarrow> expired a \<Longrightarrow> expired a'"
  "expire_if_due t a = (claimed, callback, a') \<Longrightarrow> expired a \<Longrightarrow> expired a'"
  by (auto simp: daemon_ready_def try_admit_def promote_to_subscription_def promote_request_def reset_def release_def
      update_idle_exit_def expire_if_due_def claim_expiry_locked_def Let_def
      split: if_splits option.splits kind.splits prod.splits bool.splits)

lemma step_watcher_ok:
  assumes "step s s'" "watcher_ok n s" "n < 2 ^ 64"
  shows "watcher_ok (Suc n) s'"
proof -
  note w = watcher_ok_announced [OF assms(2)]
  have later: "watcher_ok n s' \<Longrightarrow> watcher_ok (Suc n) s'"
    by (auto simp: watcher_ok_def split: watcher.splits intro: le_SucI)
  from assms(1) show ?thesis
  proof cases
    case (step_rewait seen d)
    with assms(2) obtain k where k: "k \<le> n" "of_nat k = (0 :: 64 word)" "k = 0 \<longrightarrow> deadline (tracker s) = d"
      by (auto simp: watcher_ok_def changed_def)
    with assms(3) revisions_differ [of k] have "deadline (tracker s) = d" by simp
    with step_rewait show ?thesis by (auto simp: watcher_ok_def changed_def intro!: exI [of _ 0])
  next
    case step_notify
    with assms(2) show ?thesis by (intro later) (auto simp: watcher_ok_def split: watcher.splits)
  next
    case step_stop
    with assms(2) show ?thesis by (intro later) (auto simp: watcher_ok_def split: watcher.splits)
  next
    case (step_watch t)
    then show ?thesis by (auto elim!: watcher_turnE intro: watch_watcher_ok)
  next
    case step_callback
    then show ?thesis by (intro w) (simp_all add: announced_def)
  qed (auto simp: hand_out_def intro!: w dest: operations_announced operations_expired)
qed

lemma run_watcher_ok: "run (s # past) \<Longrightarrow> length past < 2 ^ 64 \<Longrightarrow> watcher_ok (length past) s"
proof (induction "s # past" arbitrary: s past rule: run.induct)
  case (run_init t callback)
  then show ?case by (simp add: watcher_ok_def)
qed (simp add: step_watcher_ok)

text \<open>Whatever state the watching thread is in, it sees a deadline that has passed.\<close>

lemma watcher_ok_sees:
  assumes "watcher_ok n s" "n < 2 ^ 64" "\<not> expired (tracker s)" "\<not> stopping s" "notifying (tracker s) = 0" "passed (deadline (tracker s)) t"
  shows "wakes t s \<and> watcher_turn t s = Some (case watch (stopping s) t (tracker s) of
    (w, callback, a) \<Rightarrow> hand_out callback (s\<lparr>clock := t, tracker := a, watcher := w, notified := False\<rparr>))"
proof (cases "watcher s")
  case (WatchWaits seen d)
  with assms(1,5) obtain k where k: "k \<le> n" "revision (tracker s) = seen + of_nat k" "k = 0 \<longrightarrow> deadline (tracker s) = d" "k \<noteq> 0 \<longrightarrow> notified s"
    by (auto simp: watcher_ok_def)
  have "(of_nat k :: 64 word) = 0 \<longleftrightarrow> k = 0" using k(1) assms(2) by (intro revisions_differ) simp
  with k WatchWaits assms(6) show ?thesis by (auto simp: wakes_def watcher_turn_def changed_def Let_def)
qed (use assms in \<open>auto simp: watcher_ok_def wakes_def watcher_turn_def Let_def\<close>)

text \<open>
  C12: an idle daemon does expire. Take any reachable state, of a run of less than \<open>2 ^ 64\<close> steps, in
  which the daemon is ready, has not expired and is not stopping, has no live token, an idle time is
  configured, and no thread is between its change of the tracker and its notification. The idle
  period has begun at an instant of the run. From its end on the watching thread is awake, whatever
  it was waiting for, and its turn expires the tracker, hands out the callback and ends the loop.
  Before the end a turn expires nothing and waits for exactly that end.
\<close>

theorem idle_daemon_expires:
  assumes "run (s # past)" and "length past < 2 ^ 64" and "ready (tracker s)" and "\<not> expired (tracker s)" and "\<not> stopping s"
    and "set (tokens s) \<subseteq> {None}" and "idle_exit (tracker s) = Some p" and "notifying (tracker s) = 0" and "tick t s"
  shows "\<exists>z. zero_since (tracker s) = Some z \<and> (\<exists>x \<in> set (s # past). clock x = z) \<and>
    (let d = min clock_max (z + p * nanoseconds)
     in if d \<le> t
        then wakes t s \<and> (\<exists>s'. watcher_turn t s = Some s' \<and> expired (tracker s') \<and> watcher s' = WatchReturned \<and>
               callbacks s' = callbacks s + of_bool (on_expired (tracker s)))
        else \<forall>s'. watcher_turn t s = Some s' \<longrightarrow> tracker s' = tracker s \<and> watcher s' = WatchWaits (revision (tracker s)) (Some d))"
proof -
  note ok = run_system_ok [OF assms(1)]
  have "live k s = 0" for k using assms(6) by (auto simp: live_def count_list_0_iff)
  with ok have c: "requests (tracker s) = 0" "subscriptions (tracker s) = 0" by (auto simp: system_ok_def)
  with ok assms(3) obtain z where z: "zero_since (tracker s) = Some z" by (auto simp: system_ok_def tracker_ok_def)
  define d where "d = min clock_max (z + p * nanoseconds)"
  have "0 \<le> z" "z \<le> clock_max" "0 < p" using ok z assms(7) by (auto simp: system_ok_def tracker_ok_def)
  then have d: "deadline (tracker s) = Some d"
    using ok z assms(7) idle_deadline_min [of z p] by (auto simp: system_ok_def tracker_ok_def d_def)
  have "\<not> callback_claimed (tracker s)" using ok assms(4) by (auto simp: system_ok_def tracker_ok_def)
  with c d assms(3-5) have w: "watch (stopping s) t (tracker s) =
      (if t < d then (WatchWaits (revision (tracker s)) (Some d), False, tracker s)
       else (WatchReturned, on_expired (tracker s), notify_all (bump ((tracker s)\<lparr>expired := True, callback_claimed := True\<rparr>))))"
    by (auto simp: watch_def claim_expiry_locked_def)
  have due: "wakes t s \<and> (\<exists>s'. watcher_turn t s = Some s' \<and> expired (tracker s') \<and> watcher s' = WatchReturned \<and>
      callbacks s' = callbacks s + of_bool (on_expired (tracker s)))" if "d \<le> t"
    using watcher_ok_sees [OF run_watcher_ok [OF assms(1,2)] assms(2,4,5,8), of t] that d w by (auto simp: passed_def hand_out_def)
  have waits: "tracker s' = tracker s \<and> watcher s' = WatchWaits (revision (tracker s)) (Some d)" if "\<not> d \<le> t" "watcher_turn t s = Some s'" for s'
    using that w by (auto simp: hand_out_def elim!: watcher_turnE)
  have "\<exists>x \<in> set (s # past). clock x = z" using idle_since [OF assms(1) z] by (metis in_set_conv_decomp)
  then show ?thesis
  proof (intro exI [of _ z] conjI)
    show "let d = min clock_max (z + p * nanoseconds)
     in if d \<le> t
        then wakes t s \<and> (\<exists>s'. watcher_turn t s = Some s' \<and> expired (tracker s') \<and> watcher s' = WatchReturned \<and>
               callbacks s' = callbacks s + of_bool (on_expired (tracker s)))
        else \<forall>s'. watcher_turn t s = Some s' \<longrightarrow> tracker s' = tracker s \<and> watcher s' = WatchWaits (revision (tracker s)) (Some d)"
      unfolding Let_def d_def [symmetric] using due waits by presburger
  qed (rule z)
qed

subsection \<open>A daemon that serves one request\<close>

text \<open>The daemon becomes ready with an idle time of five seconds. The watching thread starts to wait for
  the end of that time. A request runs for ten nanoseconds, and the two threads that have admitted and
  ended it notify the watching thread, which expires the tracker five seconds later.\<close>

definition example_start :: system where
  "example_start = \<lparr>tracker = make_tracker True, tokens = [], clock = 0, callbacks = 0, runs = 0,
     watcher = WatchStarts, notified = False, stopping = False\<rparr>"

definition example_ready :: system where
  "example_ready = example_start\<lparr>tracker := snd (daemon_ready (Some 5) 0 (tracker example_start))\<rparr>"

definition example_waiting :: system where
  "example_waiting = example_ready\<lparr>watcher := WatchWaits 1 (Some 5000000000)\<rparr>"

definition example_busy :: system where
  "example_busy = example_waiting\<lparr>clock := 10, tracker := snd (try_admit Request (tracker example_waiting)), tokens := [Some Request]\<rparr>"

definition example_idle :: system where
  "example_idle = example_busy\<lparr>clock := 20, tracker := snd (reset 20 (Some Request) (tracker example_busy)), tokens := [None]\<rparr>"

definition example_notified :: "nat \<Rightarrow> system" where
  "example_notified n = example_idle\<lparr>tracker := (tracker example_idle)\<lparr>notifying := n\<rparr>, notified := True\<rparr>"

definition example_expired :: system where
  "example_expired = the (watcher_turn 5000000020 (example_notified 0))"

lemmas example_states = example_start_def example_ready_def example_waiting_def example_busy_def example_idle_def example_notified_def
lemmas example_defs = example_states example_expired_def make_tracker_def
  daemon_ready_def try_admit_def reset_def release_def watch_def claim_expiry_locked_def recompute_deadline_locked_def bump_def
  notify_all_def idle_deadline_def clock_max_def nanoseconds_def watcher_turn_def changed_def passed_def hand_out_def

definition example_past :: "system list" where
  "example_past = [example_notified 1, example_notified 2, example_idle, example_busy, example_waiting, example_ready, example_start]"

lemma example_run_waiting: "run [example_waiting, example_ready, example_start]"
proof -
  have "run [example_start]" unfolding example_start_def by (rule run_init) (simp_all add: clock_max_def)
  moreover have "step example_start (example_start\<lparr>clock := 0, tracker := snd (daemon_ready (Some 5) 0 (tracker example_start))\<rparr>)"
    by (rule step_ready [where policy = "Some 5" and r = "Inr True"]) (simp_all add: tick_def example_defs Let_def)
  then have "step example_start example_ready" by (simp add: example_ready_def example_start_def)
  moreover have "step example_ready example_waiting"
    by (rule step_watch [where t = 0]) (simp_all add: tick_def example_defs Let_def)
  ultimately show ?thesis by (blast intro: run_step)
qed

lemma example_run_idle: "run [example_idle, example_busy, example_waiting, example_ready, example_start]"
proof -
  have "step example_waiting (example_waiting\<lparr>clock := 10, tracker := snd (try_admit Request (tracker example_waiting)),
      tokens := tokens example_waiting @ [Some Request]\<rparr>)"
    by (rule step_admit [where k = Request]) (simp_all add: tick_def example_defs Let_def)
  then have "step example_waiting example_busy" by (simp add: example_states)
  moreover have "step example_busy (example_busy\<lparr>clock := 20, tracker := snd (reset 20 (Some Request) (tracker example_busy)),
      tokens := (tokens example_busy)[0 := None]\<rparr>)"
    by (rule step_reset) (simp_all add: tick_def example_states clock_max_def reset_def)
  then have "step example_busy example_idle" by (simp add: example_idle_def example_busy_def)
  ultimately show ?thesis using example_run_waiting by (blast intro: run_step)
qed

lemma example_notifying: "notifying (tracker example_idle) = 3"
  by (simp add: example_defs Let_def)

lemma example_notify: "step (example_notified (Suc n)) (example_notified n)"
  using step_notify [of "example_notified (Suc n)"] by (simp add: example_notified_def)

lemma example_run_past: "run (example_notified 0 # example_past)"
proof -
  have "step example_idle (example_notified 2)"
    using step_notify [of example_idle] example_notifying by (simp add: example_notified_def)
  then show ?thesis unfolding example_past_def
    using example_run_idle example_notify [of 0] example_notify [of 1] by (simp add: run_step numeral_2_eq_2)
qed

lemma example_expiry: "\<not> expired (tracker (example_notified 0))" "expired (tracker example_expired)"
  by (simp_all add: example_defs Let_def)

lemma example_run: "run (example_expired # example_notified 0 # example_past)"
proof -
  have "step (example_notified 0) example_expired"
    by (rule step_watch [where t = 5000000020]) (simp_all add: tick_def example_defs Let_def)
  then show ?thesis using example_run_past by (blast intro: run_step)
qed

theorem activity_counts_tokens_witness:
  "expired (tracker example_expired) \<and> set (tokens example_expired) \<subseteq> {None} \<and> fst (try_admit Request (tracker example_expired)) = None"
  using activity_counts_tokens [OF example_run] example_expiry(2) by simp

theorem expiry_needs_idle_period_witness:
  "\<exists>recent start older p. example_notified 0 # example_past = recent @ start # older \<and>
    idle_exit (tracker example_expired) = Some p \<and> (\<forall>x \<in> set (example_expired # recent @ [start]). set (tokens x) \<subseteq> {None}) \<and>
    (clock start + p * nanoseconds \<le> clock example_expired \<or> clock example_expired = clock_max)"
  by (rule expiry_needs_idle_period [OF example_run example_expiry])

theorem idle_daemon_expires_witness:
  "wakes 5000000020 (example_notified 0) \<and> (\<exists>s'. watcher_turn 5000000020 (example_notified 0) = Some s' \<and> expired (tracker s'))"
proof -
  let ?s = "example_notified 0"
  have s: "ready (tracker ?s)" "\<not> stopping ?s" "set (tokens ?s) \<subseteq> {None}" "idle_exit (tracker ?s) = Some 5" "notifying (tracker ?s) = 0"
    "tick 5000000020 ?s" "zero_since (tracker ?s) = Some 20"
    by (simp_all add: example_defs Let_def tick_def)
  have "length example_past < 2 ^ 64" by (simp add: example_past_def)
  from idle_daemon_expires [OF example_run_past this s(1) example_expiry(1) s(2-6)] s(7)
  show ?thesis by (auto simp: Let_def clock_max_def nanoseconds_def)
qed

end
