(* ===== verification/Idempotency_Entry.thy ===== *)
theory Idempotency_Entry
  imports Audit_History
begin

text \<open>
  The documents of the idempotency store, \<open>src/daemon/idempotency_store.cpp\<close>: an entry per
  idempotency key, the check of a single entry, the canonical snapshot of a list of entries and
  its quota, and the decoder of a stored snapshot. The path of an attachment spool is checked by
  \<open>parse_spool_path\<close> and its helpers in \<open>src/daemon/file_spool.cpp\<close>.

  \<open>nlohmann::json::parse\<close> with a callback is a parameter: \<open>parse bytes\<close> gives the events the
  callback sees, in their order, and the document when the text is JSON.
\<close>

subsection \<open>Spool references\<close>

fun has_forbidden_basename_control :: "bytes \<Rightarrow> bool" where
  "has_forbidden_basename_control [] = False"
| "has_forbidden_basename_control (byte # rest) =
     (if byte \<le> 0x1F \<or> byte = 0x7F \<or>
         byte = 0xC2 \<and> rest \<noteq> [] \<and> hd rest \<ge> 0x80 \<and> hd rest \<le> 0x9F
      then True else has_forbidden_basename_control rest)"

definition valid_basename :: "string \<Rightarrow> bool" where
  "valid_basename name \<longleftrightarrow>
     name \<noteq> [] \<and> length name \<le> 255 \<and> name \<noteq> ''.'' \<and> name \<noteq> ''..'' \<and> CHR ''/'' \<notin> set name \<and>
     \<not> contains_nul name \<and> valid_utf8 name \<and> \<not> has_forbidden_basename_control (bytes_of name)"

text \<open>\<open>find('/', position)\<close>.\<close>

definition find_slash :: "string \<Rightarrow> nat \<Rightarrow> nat option" where
  "find_slash s position =
     (if CHR ''/'' \<in> set (drop position s)
      then Some (position + length (takeWhile (\<lambda>c. c \<noteq> CHR ''/'') (drop position s))) else None)"

definition parse_spool_path :: "spool_ref \<Rightarrow> (string \<times> string) option" where
  "parse_spool_path reference =
     (let path = relative_path reference
      in case find_slash path 0 of
           None \<Rightarrow> None
         | Some first \<Rightarrow>
             (case find_slash path (first + 1) of
                None \<Rightarrow> None
              | Some second \<Rightarrow>
                  if find_slash path (second + 1) \<noteq> None \<or> take first path \<noteq> ''spool'' then None
                  else let invocation = take (second - first - 1) (drop (first + 1) path);
                           name = drop (second + 1) path
                       in if \<not> valid_hex invocation 32 \<or> \<not> valid_basename name \<or>
                             name \<noteq> fs_name (spool_file reference)
                          then None else Some (invocation, name)))"

definition valid_spool_reference :: "spool_ref \<Rightarrow> string \<Rightarrow> bool" where
  "valid_spool_reference reference invocation_id =
     (case parse_spool_path reference of
        None \<Rightarrow> False
      | Some parsed \<Rightarrow> invocation_id = [] \<or> fst parsed = invocation_id)"

definition file_snapshot_json :: "file_snapshot \<Rightarrow> json" where
  "file_snapshot_json f =
     JObject [(''ctime_ns'', JInt (fs_ctime_ns f)), (''device'', JUInt (fs_device f)),
       (''inode'', JUInt (fs_inode f)), (''mtime_ns'', JInt (fs_mtime_ns f)), (''name'', JString (fs_name f)),
       (''path'', JString (fs_path f)), (''sha256'', JString (fs_sha256 f)), (''size'', JUInt (fs_size f))]"

definition validate_persisted_spool :: "spool_ref \<Rightarrow> string \<Rightarrow> bool" where
  "validate_persisted_spool spool invocation_id \<longleftrightarrow>
     valid_spool_reference spool invocation_id \<and> valid_file_snapshot (file_snapshot_json (spool_file spool))"

definition spool_json :: "spool_ref \<Rightarrow> json" where
  "spool_json spool =
     JObject [(''file'', file_snapshot_json (spool_file spool)), (''relative_path'', JString (relative_path spool))]"

definition parse_spool :: "json \<Rightarrow> string \<Rightarrow> spool_ref option" where
  "parse_spool v invocation_id =
     (if \<not> exact_fields v [''relative_path'', ''file''] \<or> \<not> is_string (field v ''relative_path'') \<or>
         \<not> exact_fields (field v ''file'')
            [''path'', ''name'', ''size'', ''sha256'', ''device'', ''inode'', ''mtime_ns'', ''ctime_ns'']
      then None
      else let f = field v ''file''
           in if \<not> is_string (field f ''path'') \<or> \<not> is_string (field f ''name'') \<or>
                 \<not> is_number_unsigned (field f ''size'') \<or> \<not> is_string (field f ''sha256'') \<or>
                 \<not> is_number_unsigned (field f ''device'') \<or> \<not> is_number_unsigned (field f ''inode'') \<or>
                 \<not> is_number_integer (field f ''mtime_ns'') \<or> \<not> is_number_integer (field f ''ctime_ns'')
              then None
              else let result = \<lparr>relative_path = string_of (field v ''relative_path''),
                                 spool_file = file_snapshot_from_audit f\<rparr>
                   in if validate_persisted_spool result invocation_id then Some result else None)"

subsection \<open>Entries\<close>

definition kIdempotencyStoreMaximumBytes :: nat where
  "kIdempotencyStoreMaximumBytes = 16 * 1024 * 1024"

definition kIdempotencyStoreMaximumEntries :: nat where
  "kIdempotencyStoreMaximumEntries = 10000"

definition kIdempotencyRetentionSeconds :: nat where
  "kIdempotencyRetentionSeconds = 604800"

definition kIdempotencyMaximumUnixSeconds :: nat where
  "kIdempotencyMaximumUnixSeconds = 253402300799"

datatype entry_state = EntryPending | EntryCompleted

record entry =
  entry_key_hash :: string
  entry_fingerprint :: string
  entry_operation :: audit_operation
  entry_state :: entry_state
  entry_invocation_id :: string
  entry_generation :: nat
  entry_created_at :: nat
  entry_expires_at :: nat
  entry_reserved_bytes :: nat
  entry_plan :: json
  entry_temporary_ids :: json
  entry_progress :: json
  entry_spool :: "spool_ref option"
  entry_terminal :: "json option"

definition valid_digest :: "string \<Rightarrow> bool" where
  "valid_digest value =
     (if \<not> starts_with value ''sha256:'' \<or> length value \<noteq> 71 then False
      else list_all is_lower_hex (drop 7 value))"

definition terminal_json :: "entry \<Rightarrow> json" where
  "terminal_json e = (case entry_terminal e of None \<Rightarrow> JNull | Some t \<Rightarrow> t)"

definition entry_json :: "entry \<Rightarrow> json" where
  "entry_json e =
     JObject [(''audit_generation'', JUInt (entry_generation e)), (''created_at'', JUInt (entry_created_at e)),
       (''expires_at'', JUInt (entry_expires_at e)), (''forward_progress'', entry_progress e),
       (''invocation_id'', JString (entry_invocation_id e)), (''key_hash'', JString (entry_key_hash e)),
       (''operation'', JString (account_audit_operation_name (entry_operation e))), (''plan'', entry_plan e),
       (''request_fingerprint'', JString (entry_fingerprint e)),
       (''reserved_terminal_bytes'', JUInt (entry_reserved_bytes e)),
       (''spool'', case entry_spool e of None \<Rightarrow> JNull | Some spool \<Rightarrow> spool_json spool),
       (''state'', JString (if entry_state e = EntryPending then ''pending'' else ''completed'')),
       (''temporary_message_ids'', entry_temporary_ids e), (''terminal'', terminal_json e)]"

definition mutable_json :: "json \<Rightarrow> json \<Rightarrow> json \<Rightarrow> json" where
  "mutable_json progress temporary_ids terminal =
     JObject [(''forward_progress'', progress), (''temporary_message_ids'', temporary_ids), (''terminal'', terminal)]"

definition mutable_charge :: "entry \<Rightarrow> nat option" where
  "mutable_charge e =
     (case (canonical_json (mutable_json (JArray []) (JArray []) JNull),
            canonical_json (mutable_json (entry_progress e) (entry_temporary_ids e) (terminal_json e))) of
        (Inr baseline, Inr current) \<Rightarrow>
          if length current < length baseline then None else Some (length current - length baseline)
      | _ \<Rightarrow> None)"

definition valid_entry :: "entry \<Rightarrow> string \<Rightarrow> bool" where
  "valid_entry e account =
     (if \<not> valid_digest (entry_key_hash e) \<or> \<not> valid_digest (entry_fingerprint e) \<or>
         \<not> write_operation_idempotent (Some (entry_operation e)) \<or> \<not> valid_hex (entry_invocation_id e) 32 \<or>
         entry_generation e = 0 \<or> entry_created_at e > kIdempotencyMaximumUnixSeconds \<or>
         entry_expires_at e > kIdempotencyMaximumUnixSeconds \<or>
         entry_created_at e > kIdempotencyMaximumUnixSeconds - kIdempotencyRetentionSeconds \<or>
         entry_expires_at e \<noteq> entry_created_at e + kIdempotencyRetentionSeconds \<or>
         \<not> valid_plan (entry_operation e) (entry_plan e) account \<or>
         \<not> validate_persisted_temporary_ids (entry_operation e) (entry_temporary_ids e) (entry_plan e) \<or>
         \<not> validate_persisted_forward_progress (entry_operation e) (entry_progress e) (entry_plan e) \<or>
         (case entry_spool e of None \<Rightarrow> False | Some spool \<Rightarrow> \<not> validate_persisted_spool spool (entry_invocation_id e))
      then False
      else case mutable_charge e of
             None \<Rightarrow> False
           | Some charge \<Rightarrow>
               if entry_state e = EntryPending
               then entry_terminal e = None \<and>
                    entry_reserved_bytes e = account_audit_terminal_reservation (entry_operation e) \<and>
                    charge \<le> entry_reserved_bytes e
               else entry_reserved_bytes e = 0 \<and> jempty (entry_temporary_ids e) \<and> jempty (entry_progress e) \<and>
                    (case entry_terminal e of
                       None \<Rightarrow> False
                     | Some t \<Rightarrow> validate_persisted_terminal (entry_operation e) t (entry_plan e) account) \<and>
                    charge \<le> account_audit_terminal_reservation (entry_operation e))"

subsection \<open>Snapshots\<close>

record snapshot =
  snapshot_entries :: "entry list"
  canonical_bytes :: string

record canonicalize_state =
  prior_key :: "string option"
  remaining_bytes :: nat
  seen_invocations :: "string list"
  seen_pins :: "(nat \<times> string \<times> string \<times> audit_operation) list"
  serialized_entries :: "json list"

definition entry_pin :: "entry \<Rightarrow> nat \<times> string \<times> string \<times> audit_operation" where
  "entry_pin e = (entry_generation e, entry_invocation_id e, entry_fingerprint e, entry_operation e)"

definition canonicalize_step :: "string \<Rightarrow> entry \<Rightarrow> canonicalize_state \<Rightarrow> canonicalize_state option" where
  "canonicalize_step account e s =
     (if \<not> valid_entry e account \<or>
         (case prior_key s of None \<Rightarrow> False | Some prior \<Rightarrow> prior \<ge> entry_key_hash e) \<or>
         entry_invocation_id e \<in> set (seen_invocations s) \<or> entry_pin e \<in> set (seen_pins s) then None
      else case mutable_charge e of
             None \<Rightarrow> None
           | Some charge \<Rightarrow>
               let entry_remaining = (if entry_state e = EntryPending then entry_reserved_bytes e - charge else 0)
               in if remaining_bytes s > kIdempotencyStoreMaximumBytes - entry_remaining then None
                  else Some \<lparr>prior_key = Some (entry_key_hash e), remaining_bytes = remaining_bytes s + entry_remaining,
                         seen_invocations = entry_invocation_id e # seen_invocations s,
                         seen_pins = entry_pin e # seen_pins s,
                         serialized_entries = serialized_entries s @ [entry_json e]\<rparr>)"

fun canonicalize_loop :: "string \<Rightarrow> entry list \<Rightarrow> canonicalize_state \<Rightarrow> canonicalize_state option" where
  "canonicalize_loop account [] s = Some s"
| "canonicalize_loop account (e # es) s =
     (case canonicalize_step account e s of None \<Rightarrow> None | Some s' \<Rightarrow> canonicalize_loop account es s')"

definition canonicalize_init :: canonicalize_state where
  "canonicalize_init =
     \<lparr>prior_key = None, remaining_bytes = 0, seen_invocations = [], seen_pins = [], serialized_entries = []\<rparr>"

definition snapshot_document :: "json list \<Rightarrow> json" where
  "snapshot_document entries = JObject [(''entries'', JArray entries), (''schema_version'', JInt 1)]"

definition canonicalize_snapshot :: "entry list \<Rightarrow> string \<Rightarrow> durability_reason + snapshot" where
  "canonicalize_snapshot entries account =
     (if length entries > kIdempotencyStoreMaximumEntries then Inl DR_SchemaError
      else case canonicalize_loop account entries canonicalize_init of
             None \<Rightarrow> Inl DR_SchemaError
           | Some s \<Rightarrow>
               (case canonical_json (snapshot_document (serialized_entries s)) of
                  Inl e \<Rightarrow> Inl DR_SchemaError
                | Inr bytes \<Rightarrow>
                    if length bytes > kIdempotencyStoreMaximumBytes \<or>
                       remaining_bytes s > kIdempotencyStoreMaximumBytes - length bytes
                    then Inl DR_SchemaError
                    else Inr \<lparr>snapshot_entries = entries, canonical_bytes = bytes\<rparr>))"

subsection \<open>Decoding\<close>

definition parse_entry :: "json \<Rightarrow> string \<Rightarrow> entry option" where
  "parse_entry v account =
     (if \<not> exact_fields v [''key_hash'', ''request_fingerprint'', ''operation'', ''state'', ''invocation_id'',
           ''audit_generation'', ''created_at'', ''expires_at'', ''reserved_terminal_bytes'', ''plan'',
           ''temporary_message_ids'', ''forward_progress'', ''spool'', ''terminal''] \<or>
         \<not> is_string (field v ''key_hash'') \<or> \<not> is_string (field v ''request_fingerprint'') \<or>
         \<not> is_string (field v ''operation'') \<or> \<not> is_string (field v ''state'') \<or>
         \<not> is_string (field v ''invocation_id'') \<or> \<not> is_number_unsigned (field v ''audit_generation'') \<or>
         \<not> is_number_unsigned (field v ''created_at'') \<or> \<not> is_number_unsigned (field v ''expires_at'') \<or>
         \<not> is_number_unsigned (field v ''reserved_terminal_bytes'') \<or>
         get_uint64 (field v ''reserved_terminal_bytes'') > 2 ^ 32 - 1 then None
      else (case parse_account_audit_operation (string_of (field v ''operation'')) of
             None \<Rightarrow> None
           | Some operation \<Rightarrow>
               if \<not> valid_digest (string_of (field v ''key_hash'')) \<or>
                  \<not> valid_digest (string_of (field v ''request_fingerprint'')) \<or>
                  \<not> write_operation_idempotent (Some operation) then None
               else (case (if json_eq (field v ''state'') (JString ''pending'') then Some EntryPending
                          else if json_eq (field v ''state'') (JString ''completed'') then Some EntryCompleted
                          else None) of
                      None \<Rightarrow> None
                    | Some state \<Rightarrow>
                        (case (if field v ''spool'' = JNull then Some None
                               else map_option Some (parse_spool (field v ''spool'') (string_of (field v ''invocation_id'')))) of
                           None \<Rightarrow> None
                         | Some spool \<Rightarrow>
                             let e = \<lparr>entry_key_hash = string_of (field v ''key_hash''),
                                      entry_fingerprint = string_of (field v ''request_fingerprint''),
                                      entry_operation = operation, entry_state = state,
                                      entry_invocation_id = string_of (field v ''invocation_id''),
                                      entry_generation = get_uint64 (field v ''audit_generation''),
                                      entry_created_at = get_uint64 (field v ''created_at''),
                                      entry_expires_at = get_uint64 (field v ''expires_at''),
                                      entry_reserved_bytes = get_uint64 (field v ''reserved_terminal_bytes''),
                                      entry_plan = field v ''plan'',
                                      entry_temporary_ids = field v ''temporary_message_ids'',
                                      entry_progress = field v ''forward_progress'', entry_spool = spool,
                                      entry_terminal = (if field v ''terminal'' = JNull then None
                                                        else Some (field v ''terminal''))\<rparr>
                             in if valid_entry e account then Some e else None))))"

datatype parse_event = ObjectStart nat | ObjectKey nat string | ObjectEnd nat | OtherEvent

type_synonym json_parser = "string \<Rightarrow> parse_event list \<times> json option"

text \<open>The callback keeps the keys of the open object of every depth; a map of sets.\<close>

record callback_state =
  object_keys :: "nat \<Rightarrow> string set"
  duplicate :: bool

fun parse_callback :: "parse_event \<Rightarrow> callback_state \<Rightarrow> callback_state" where
  "parse_callback (ObjectStart depth) s = s\<lparr>object_keys := (object_keys s)(depth + 1 := {})\<rparr>"
| "parse_callback (ObjectKey depth key) s =
     (if key \<in> object_keys s depth then s\<lparr>duplicate := True\<rparr>
      else s\<lparr>object_keys := (object_keys s)(depth := insert key (object_keys s depth))\<rparr>)"
| "parse_callback (ObjectEnd depth) s = s\<lparr>object_keys := (object_keys s)(depth + 1 := {})\<rparr>"
| "parse_callback OtherEvent s = s"

definition parse_document :: "json_parser \<Rightarrow> string \<Rightarrow> json option \<times> bool" where
  "parse_document parse bytes =
     (case parse bytes of
        (events, document) \<Rightarrow>
          (document, duplicate (fold parse_callback events \<lparr>object_keys = (\<lambda>_. {}), duplicate = False\<rparr>)))"

fun parse_entries :: "json list \<Rightarrow> string \<Rightarrow> entry list option" where
  "parse_entries [] account = Some []"
| "parse_entries (v # vs) account =
     (case parse_entry v account of
        None \<Rightarrow> None
      | Some e \<Rightarrow> map_option ((#) e) (parse_entries vs account))"

definition decode_snapshot :: "json_parser \<Rightarrow> string \<Rightarrow> string \<Rightarrow> durability_reason + snapshot" where
  "decode_snapshot parse bytes account =
     (if bytes = [] then Inl DR_ParseError
      else (case parse_document parse bytes of
             (None, _) \<Rightarrow> Inl DR_ParseError
           | (Some document, dup) \<Rightarrow>
               if dup then Inl DR_ParseError
               else if \<not> exact_fields document [''schema_version'', ''entries''] \<or>
                  \<not> is_number_unsigned (field document ''schema_version'') \<or>
                  \<not> json_eq (field document ''schema_version'') (JInt 1) \<or> \<not> is_array (field document ''entries'') \<or>
                  jsize (field document ''entries'') > kIdempotencyStoreMaximumEntries
               then Inl DR_SchemaError
               else (case parse_entries (items_of (field document ''entries'')) account of
                      None \<Rightarrow> Inl DR_SchemaError
                    | Some entries \<Rightarrow>
                        (case canonicalize_snapshot entries account of
                           Inl reason \<Rightarrow> Inl reason
                         | Inr s \<Rightarrow> if canonical_bytes s \<noteq> bytes then Inl DR_SchemaError else Inr s))))"

record pending_input =
  pi_key_hash :: string
  pi_fingerprint :: string
  pi_operation :: audit_operation
  pi_invocation_id :: string
  pi_generation :: nat
  pi_created_at :: nat
  pi_plan :: json

definition pending_entry :: "pending_input \<Rightarrow> entry" where
  "pending_entry i =
     \<lparr>entry_key_hash = pi_key_hash i, entry_fingerprint = pi_fingerprint i, entry_operation = pi_operation i,
      entry_state = EntryPending, entry_invocation_id = pi_invocation_id i, entry_generation = pi_generation i,
      entry_created_at = pi_created_at i, entry_expires_at = pi_created_at i + kIdempotencyRetentionSeconds,
      entry_reserved_bytes = account_audit_terminal_reservation (pi_operation i), entry_plan = pi_plan i,
      entry_temporary_ids = JArray [], entry_progress = JArray [], entry_spool = None, entry_terminal = None\<rparr>"

subsection \<open>Sizes of canonical texts\<close>

definition text_size :: "json \<Rightarrow> nat" where
  "text_size v = (case canonical_json v of Inl e \<Rightarrow> 0 | Inr t \<Rightarrow> length t)"

definition member_size :: "string \<times> json \<Rightarrow> nat" where
  "member_size m = length (quoted (fst m)) + 1 + text_size (snd m)"

lemma member_size_pair [simp]: "member_size (k, v) = length (quoted k) + 1 + text_size v"
  by (simp add: member_size_def)

lemma text_size_canon: "canon v = Inr t \<Longrightarrow> text_size v = length t"
  by (simp add: text_size_def canonical_json_canon)

lemma canon_items_size:
  "canonicalisable_items vs \<Longrightarrow>
   \<exists>t. canon_items first vs = Inr t \<and> length t = 1 + sum_list (map text_size vs) + (if first then length vs - 1 else length vs)"
proof (induction vs arbitrary: first)
  case (Cons v vs)
  then obtain t where t: "canon v = Inr t" using canon_defined(1) [of v] by auto
  from Cons.IH [of False] Cons.prems obtain u where
    "canon_items False vs = Inr u" "length u = 1 + sum_list (map text_size vs) + length vs" by auto
  with t text_size_canon [OF t] show ?case by simp
qed simp

lemma canon_members_size:
  "canonicalisable_members ms \<Longrightarrow>
   \<exists>t. canon_members first ms = Inr t \<and> length t = 1 + sum_list (map member_size ms) + (if first then length ms - 1 else length ms)"
proof (induction ms arbitrary: first)
  case (Cons m ms)
  obtain k v where m: "m = (k, v)" by (cases m)
  with Cons.prems obtain t where t: "canon v = Inr t" and k: "canon_string k = Inr (quoted k)"
    using canon_defined(1) [of v] by (auto simp: canon_string_def)
  from Cons.IH [of False] Cons.prems m obtain u where
    "canon_members False ms = Inr u" "length u = 1 + sum_list (map member_size ms) + length ms" by auto
  with t k m text_size_canon [OF t] show ?case by simp
qed simp

lemma sum_list_sort_key: "sum_list (map f (sort_key k xs)) = sum_list (map f xs)" for f :: "'a \<Rightarrow> nat"
  by (metis mset_map mset_sort sum_mset_sum_list)

lemma text_size_array:
  assumes "canonicalisable_items vs"
  shows "text_size (JArray vs) = 2 + sum_list (map text_size vs) + (length vs - 1)"
  using canon_items_size [OF assms, of True] text_size_canon [of "JArray vs"] by (auto simp: shift_out_Inr)

lemma text_size_object:
  assumes "canonicalisable_members ms"
  shows "text_size (JObject ms) = 2 + sum_list (map member_size ms) + (length ms - 1)"
  using canon_members_size [of "sort_key fst ms" True] assms text_size_canon [of "JObject ms"]
  by (auto simp: shift_out_Inr sum_list_sort_key)

lemma text_size_scalars [simp]:
  "text_size JNull = 4" "text_size (JArray []) = 2" "text_size (JUInt n) = length (to_string_nat n)"
  by (simp_all add: text_size_def canonical_json_canon)

lemma text_size_string: "valid_utf8 s \<Longrightarrow> text_size (JString s) = length (quoted s)"
  by (simp add: text_size_def canonical_json_canon canon_string_def)

lemma canonical_json_Inr: "canonical_json v = Inr t \<longleftrightarrow> canonicalisable v \<and> t = projr (canonical_json v)"
  using canon_defined(1) [of v] by (auto simp: canonical_json_canon)

lemma canonicalisable_canon: "canonicalisable v \<Longrightarrow> canonical_json v = Inr (projr (canonical_json v)) \<and> length (projr (canonical_json v)) = text_size v"
  using canon_defined(1) [of v] by (auto simp: canonical_json_canon text_size_def)

lemma not_canonicalisable: "\<not> canonicalisable v \<Longrightarrow> \<exists>e. canonical_json v = Inl e"
  using canon_defined(1) [of v] by (cases "canonical_json v") (auto simp: canonical_json_canon)

subsection \<open>Accepted snapshots\<close>

definition entry_charge :: "entry \<Rightarrow> nat" where
  "entry_charge e =
     text_size (entry_progress e) + text_size (entry_temporary_ids e) + text_size (terminal_json e) - 8"

definition entry_remaining :: "entry \<Rightarrow> nat" where
  "entry_remaining e = (if entry_state e = EntryPending then entry_reserved_bytes e - entry_charge e else 0)"

definition entry_cost :: "entry \<Rightarrow> nat" where
  "entry_cost e = text_size (entry_json e) + entry_remaining e"

definition entry_mutables :: "entry \<Rightarrow> bool" where
  "entry_mutables e \<longleftrightarrow>
     canonicalisable (entry_progress e) \<and> canonicalisable (entry_temporary_ids e) \<and> canonicalisable (terminal_json e)"

lemma ascii_names [simp]:
  "valid_utf8 ''audit_generation''" "valid_utf8 ''created_at''" "valid_utf8 ''expires_at''" "valid_utf8 ''forward_progress''"
  "valid_utf8 ''invocation_id''" "valid_utf8 ''key_hash''" "valid_utf8 ''operation''" "valid_utf8 ''plan''"
  "valid_utf8 ''request_fingerprint''" "valid_utf8 ''reserved_terminal_bytes''" "valid_utf8 ''spool''" "valid_utf8 ''state''"
  "valid_utf8 ''temporary_message_ids''" "valid_utf8 ''terminal''" "valid_utf8 ''entries''" "valid_utf8 ''schema_version''"
  "valid_utf8 ''pending''" "valid_utf8 ''completed''"
  by (simp_all add: valid_utf8_ascii byte_of_def)

lemma mutable_charge_eq:
  "mutable_charge e =
     (if entry_mutables e \<and> 8 \<le> text_size (entry_progress e) + text_size (entry_temporary_ids e) + text_size (terminal_json e)
      then Some (entry_charge e) else None)"
proof -
  let ?b = "mutable_json (JArray []) (JArray []) JNull"
  let ?c = "mutable_json (entry_progress e) (entry_temporary_ids e) (terminal_json e)"
  have cc: "canonicalisable ?c \<longleftrightarrow> entry_mutables e" and cb: "canonicalisable ?b"
    by (auto simp: mutable_json_def entry_mutables_def)
  let ?k = "2 + length (quoted ''forward_progress'') + length (quoted ''temporary_message_ids'') + length (quoted ''terminal'') + 3 + 2"
  have sb: "text_size ?b = ?k + 8"
    using cb unfolding mutable_json_def canonicalisable.simps by (subst text_size_object) simp_all
  show ?thesis
  proof (cases "entry_mutables e")
    case True
    have sc: "text_size ?c = ?k + (text_size (entry_progress e) + text_size (entry_temporary_ids e) + text_size (terminal_json e))"
      using True cc unfolding mutable_json_def canonicalisable.simps by (subst text_size_object) simp_all
    obtain tb where tb: "canonical_json ?b = Inr tb" "length tb = text_size ?b" using canonicalisable_canon [OF cb] by blast
    obtain tc where tc: "canonical_json ?c = Inr tc" "length tc = text_size ?c"
      using canonicalisable_canon [of ?c] True cc by blast
    show ?thesis unfolding mutable_charge_def entry_charge_def tb(1) tc(1) using True by (simp add: tb(2) tc(2) sb sc add.assoc)
  next
    case False
    with not_canonicalisable [of ?c] cc obtain x where "canonical_json ?c = Inl x" by auto
    with False show ?thesis by (simp add: mutable_charge_def split: sum.splits)
  qed
qed

lemma valid_entry_charge:
  assumes "valid_entry e account"
  shows "mutable_charge e = Some (entry_charge e)" "entry_mutables e"
    "entry_charge e + entry_remaining e \<le> account_audit_terminal_reservation (entry_operation e)"
proof -
  have c: "mutable_charge e \<noteq> None" using assms unfolding valid_entry_def by (auto split: if_splits option.splits)
  then show m: "mutable_charge e = Some (entry_charge e)" and "entry_mutables e"
    by (auto simp: mutable_charge_eq split: if_splits)
  show "entry_charge e + entry_remaining e \<le> account_audit_terminal_reservation (entry_operation e)"
    using assms unfolding valid_entry_def m entry_remaining_def by (auto split: if_splits)
qed

lemma terminal_reservation_bounds:
  "100 \<le> account_audit_terminal_reservation operation" "account_audit_terminal_reservation operation \<le> kIdempotencyStoreMaximumBytes"
  by (auto simp: account_audit_terminal_reservation_def terminal_byte_ceiling_def kOtherTerminalBytes_def
      kForwardTerminalBytes_def kSingleMessageTerminalBytes_def kIdempotencyStoreMaximumBytes_def split: if_splits)

definition snapshot_text :: "entry list \<Rightarrow> string" where
  "snapshot_text es = projr (canonical_json (snapshot_document (map entry_json es)))"

definition accepted_snapshot :: "entry list \<Rightarrow> string \<Rightarrow> bool" where
  "accepted_snapshot es account \<longleftrightarrow>
     length es \<le> kIdempotencyStoreMaximumEntries \<and> (\<forall>e \<in> set es. valid_entry e account) \<and>
     sorted_wrt (<) (map entry_key_hash es) \<and> distinct (map entry_invocation_id es) \<and>
     canonicalisable_items (map entry_json es) \<and>
     text_size (snapshot_document (map entry_json es)) + sum_list (map entry_remaining es) \<le> kIdempotencyStoreMaximumBytes"

lemma canonicalize_step_eq:
  assumes "set (seen_invocations s) = (\<lambda>(_, i, _). i) ` set (seen_pins s)"
  shows "canonicalize_step account e s =
     (if valid_entry e account \<and> (\<forall>p. prior_key s = Some p \<longrightarrow> p < entry_key_hash e) \<and>
         entry_invocation_id e \<notin> set (seen_invocations s) \<and>
         remaining_bytes s + entry_remaining e \<le> kIdempotencyStoreMaximumBytes
      then Some \<lparr>prior_key = Some (entry_key_hash e), remaining_bytes = remaining_bytes s + entry_remaining e,
             seen_invocations = entry_invocation_id e # seen_invocations s, seen_pins = entry_pin e # seen_pins s,
             serialized_entries = serialized_entries s @ [entry_json e]\<rparr> else None)"
proof (cases "valid_entry e account")
  case True
  note c = valid_entry_charge [OF True]
  have r: "entry_remaining e \<le> kIdempotencyStoreMaximumBytes"
    using c(3) terminal_reservation_bounds(2) [of "entry_operation e"] by linarith
  have pin: "entry_pin e \<in> set (seen_pins s) \<Longrightarrow> entry_invocation_id e \<in> set (seen_invocations s)"
    unfolding assms entry_pin_def by force
  have d: "(if entry_state e = EntryPending then entry_reserved_bytes e - entry_charge e else 0) = entry_remaining e"
    by (simp add: entry_remaining_def)
  have b: "remaining_bytes s > kIdempotencyStoreMaximumBytes - entry_remaining e \<longleftrightarrow>
      \<not> remaining_bytes s + entry_remaining e \<le> kIdempotencyStoreMaximumBytes" using r by linarith
  show ?thesis using True pin unfolding canonicalize_step_def c(1) option.case Let_def d b
    by (auto split: option.splits simp: not_le)
qed (simp add: canonicalize_step_def)

lemma canonicalize_loop_eq:
  assumes "set (seen_invocations s) = (\<lambda>(_, i, _). i) ` set (seen_pins s)"
    and "remaining_bytes s \<le> kIdempotencyStoreMaximumBytes"
  shows "(case canonicalize_loop account es s of
       None \<Rightarrow> \<not> ((\<forall>e \<in> set es. valid_entry e account) \<and> sorted_wrt (<) (map entry_key_hash es) \<and>
          (\<forall>p. prior_key s = Some p \<longrightarrow> (\<forall>e \<in> set es. p < entry_key_hash e)) \<and>
          distinct (map entry_invocation_id es) \<and> set (map entry_invocation_id es) \<inter> set (seen_invocations s) = {} \<and>
          remaining_bytes s + sum_list (map entry_remaining es) \<le> kIdempotencyStoreMaximumBytes)
     | Some s' \<Rightarrow> (\<forall>e \<in> set es. valid_entry e account) \<and> sorted_wrt (<) (map entry_key_hash es) \<and>
          (\<forall>p. prior_key s = Some p \<longrightarrow> (\<forall>e \<in> set es. p < entry_key_hash e)) \<and>
          distinct (map entry_invocation_id es) \<and> set (map entry_invocation_id es) \<inter> set (seen_invocations s) = {} \<and>
          remaining_bytes s + sum_list (map entry_remaining es) \<le> kIdempotencyStoreMaximumBytes \<and>
          remaining_bytes s' = remaining_bytes s + sum_list (map entry_remaining es) \<and>
          serialized_entries s' = serialized_entries s @ map entry_json es)"
  using assms
proof (induction es arbitrary: s)
  case (Cons e es)
  let ?ok = "valid_entry e account \<and> (\<forall>p. prior_key s = Some p \<longrightarrow> p < entry_key_hash e) \<and>
         entry_invocation_id e \<notin> set (seen_invocations s) \<and>
         remaining_bytes s + entry_remaining e \<le> kIdempotencyStoreMaximumBytes"
  let ?s = "\<lparr>prior_key = Some (entry_key_hash e), remaining_bytes = remaining_bytes s + entry_remaining e,
             seen_invocations = entry_invocation_id e # seen_invocations s, seen_pins = entry_pin e # seen_pins s,
             serialized_entries = serialized_entries s @ [entry_json e]\<rparr>"
  show ?case
  proof (cases ?ok)
    case True
    have p: "set (seen_invocations ?s) = (\<lambda>(_, i, _). i) ` set (seen_pins ?s)"
      using Cons.prems(1) by (simp add: entry_pin_def)
    have "remaining_bytes ?s \<le> kIdempotencyStoreMaximumBytes" using True by simp
    from Cons.IH [OF p this] True show ?thesis
      unfolding canonicalize_loop.simps canonicalize_step_eq [OF Cons.prems(1)] if_P [OF True] option.case
      by (auto split: option.splits dest: order_less_trans)
  next
    case False
    then show ?thesis
      unfolding canonicalize_loop.simps canonicalize_step_eq [OF Cons.prems(1)] if_not_P [OF False] option.case by auto
  qed
qed auto

lemma canonicalisable_document:
  "canonicalisable (snapshot_document vs) \<longleftrightarrow> canonicalisable_items vs"
  by (simp add: snapshot_document_def)

lemma canonicalize_snapshot_iff:
  "canonicalize_snapshot es account =
     (if accepted_snapshot es account then Inr \<lparr>snapshot_entries = es, canonical_bytes = snapshot_text es\<rparr>
      else Inl DR_SchemaError)"
proof -
  have i: "set (seen_invocations canonicalize_init) = (\<lambda>(_, i, _). i) ` set (seen_pins canonicalize_init)"
    "remaining_bytes canonicalize_init \<le> kIdempotencyStoreMaximumBytes" by (simp_all add: canonicalize_init_def)
  note l = canonicalize_loop_eq [OF i, where account = account and es = es]
  show ?thesis
  proof (cases "canonicalize_loop account es canonicalize_init")
    case None
    with l show ?thesis by (auto simp: canonicalize_snapshot_def accepted_snapshot_def canonicalize_init_def)
  next
    case (Some s)
    with l have s: "serialized_entries s = map entry_json es" "remaining_bytes s = sum_list (map entry_remaining es)"
      by (simp_all add: canonicalize_init_def)
    show ?thesis
    proof (cases "canonicalisable_items (map entry_json es)")
      case True
      then have "canonicalisable (snapshot_document (map entry_json es))" by (simp add: canonicalisable_document)
      note t = canonicalisable_canon [OF this, folded snapshot_text_def]
      from l Some s True t show ?thesis
        by (auto simp: canonicalize_snapshot_def accepted_snapshot_def canonicalize_init_def not_le)
    next
      case False
      then obtain x where "canonical_json (snapshot_document (map entry_json es)) = Inl x"
        using not_canonicalisable by (metis canonicalisable_document)
      with Some s False show ?thesis by (simp add: canonicalize_snapshot_def accepted_snapshot_def)
    qed
  qed
qed

subsection \<open>Changing one entry\<close>

definition spool_field :: "entry \<Rightarrow> json" where
  "spool_field e = (case entry_spool e of None \<Rightarrow> JNull | Some spool \<Rightarrow> spool_json spool)"

definition state_name :: "entry \<Rightarrow> string" where
  "state_name e = (if entry_state e = EntryPending then ''pending'' else ''completed'')"

text \<open>The members of an entry that no transition changes.\<close>

definition fixed_members :: "entry \<Rightarrow> (string \<times> json) list" where
  "fixed_members e =
     [(''audit_generation'', JUInt (entry_generation e)), (''created_at'', JUInt (entry_created_at e)),
      (''expires_at'', JUInt (entry_expires_at e)), (''invocation_id'', JString (entry_invocation_id e)),
      (''key_hash'', JString (entry_key_hash e)),
      (''operation'', JString (account_audit_operation_name (entry_operation e))), (''plan'', entry_plan e),
      (''request_fingerprint'', JString (entry_fingerprint e))]"

lemma canonicalisable_entry:
  "canonicalisable (entry_json e) \<longleftrightarrow>
     canonicalisable_members (fixed_members e) \<and> canonicalisable (spool_field e) \<and> entry_mutables e"
  by (auto simp: entry_json_def fixed_members_def spool_field_def entry_mutables_def)

lemma text_size_entry:
  assumes "canonicalisable (entry_json e)"
  shows "text_size (entry_json e) =
     sum_list (map member_size (fixed_members e)) +
     (15 + length (quoted ''forward_progress'') + length (quoted ''reserved_terminal_bytes'') + length (quoted ''spool'') +
      length (quoted ''state'') + length (quoted ''temporary_message_ids'') + length (quoted ''terminal'') + 6) +
     text_size (entry_progress e) + length (to_string_nat (entry_reserved_bytes e)) + text_size (spool_field e) +
     length (quoted (state_name e)) + text_size (entry_temporary_ids e) + text_size (terminal_json e)"
  using assms unfolding entry_json_def canonicalisable.simps
  by (subst text_size_object) (simp_all add: fixed_members_def spool_field_def state_name_def text_size_string)

lemma entry_cost_eq:
  assumes "canonicalisable (entry_json e)" and "valid_entry e account"
  shows "entry_cost e =
     sum_list (map member_size (fixed_members e)) +
     (29 + length (quoted ''forward_progress'') + length (quoted ''reserved_terminal_bytes'') + length (quoted ''spool'') +
      length (quoted ''state'') + length (quoted ''temporary_message_ids'') + length (quoted ''terminal'')) +
     length (to_string_nat (entry_reserved_bytes e)) + text_size (spool_field e) + length (quoted (state_name e)) +
     (if entry_state e = EntryPending then entry_reserved_bytes e else entry_charge e)"
proof -
  have m: "mutable_charge e = Some (entry_charge e)" by (rule valid_entry_charge [OF assms(2)])
  then have g: "text_size (entry_progress e) + text_size (entry_temporary_ids e) + text_size (terminal_json e) = 8 + entry_charge e"
    unfolding mutable_charge_eq entry_charge_def by (simp split: if_splits)
  have c: "entry_state e = EntryPending \<Longrightarrow> entry_charge e \<le> entry_reserved_bytes e"
    using assms(2) unfolding valid_entry_def m by (auto split: if_splits)
  show ?thesis unfolding entry_cost_def text_size_entry [OF assms(1)] entry_remaining_def using g c by auto
qed

lemma quoted_states: "length (quoted ''pending'') = 9" "length (quoted ''completed'') = 11"
  by (simp_all add: quoted_def esc_def append_character_def quote_char_def backslash_char_def byte_of_def)

lemma to_string_nat_length_1: "length (to_string_nat n) \<ge> 1"
  using to_string_nat_hd [of n] by auto

lemma to_string_nat_length_3: "n \<ge> 100 \<Longrightarrow> length (to_string_nat n) \<ge> 3"
  using to_string_nat_length_1 [of "n div 10 div 10"]
  by (subst to_string_nat.simps, simp, subst to_string_nat.simps, simp)

lemma spool_field_size: "canonicalisable (spool_field e) \<Longrightarrow> 4 \<le> text_size (spool_field e)"
  by (auto simp: spool_field_def spool_json_def text_size_object split: option.splits)

text \<open>An entry can be replaced in place when it keeps its identity and does not cost more.\<close>

lemma sum_list_update_nat: "i < length xs \<Longrightarrow> sum_list (xs[i := y]) + xs ! i = sum_list xs + (y :: nat)"
  by (induction xs arbitrary: i) (auto split: nat.splits)

lemma canonicalisable_items_all: "canonicalisable_items vs \<longleftrightarrow> list_all canonicalisable vs"
  by (induction vs) simp_all

lemma text_size_document:
  assumes "canonicalisable_items vs"
  shows "text_size (snapshot_document vs) =
     2 + length (quoted ''entries'') + length (quoted ''schema_version'') + 3 + text_size (JInt 1) + text_size (JArray vs)"
  using assms unfolding snapshot_document_def by (subst text_size_object) simp_all

lemma accepted_snapshot_update:
  assumes "accepted_snapshot es account" "i < length es" "valid_entry e account"
    and same: "entry_key_hash e = entry_key_hash (es ! i)" "entry_invocation_id e = entry_invocation_id (es ! i)"
    and texts: "canonicalisable (entry_json e)" and cost: "entry_cost e \<le> entry_cost (es ! i)"
  shows "accepted_snapshot (es[i := e]) account"
proof -
  let ?u = "es[i := e]"
  have c: "canonicalisable_items (map entry_json es)" using assms(1) by (simp add: accepted_snapshot_def)
  have cu: "canonicalisable_items (map entry_json ?u)"
    using c texts set_update_subset_insert [of es i e] by (auto simp: canonicalisable_items_all list_all_iff)
  have keys: "map entry_key_hash ?u = map entry_key_hash es" "map entry_invocation_id ?u = map entry_invocation_id es"
    using same assms(2) by (auto simp: map_update intro!: nth_equalityI simp: nth_list_update)
  let ?S = "\<lambda>xs. sum_list (map text_size (map entry_json xs)) + sum_list (map entry_remaining xs)"
  have cost_sum: "?S xs = sum_list (map entry_cost xs)" for xs by (induction xs) (simp_all add: entry_cost_def)
  have "sum_list (map entry_cost ?u) \<le> sum_list (map entry_cost es)"
    using sum_list_update_nat [of i "map entry_cost es" "entry_cost e"] assms(2) cost by (simp add: map_update)
  then have "?S ?u \<le> ?S es" unfolding cost_sum .
  then have "text_size (snapshot_document (map entry_json ?u)) + sum_list (map entry_remaining ?u) \<le>
      text_size (snapshot_document (map entry_json es)) + sum_list (map entry_remaining es)"
    by (simp add: text_size_document [OF c] text_size_document [OF cu] text_size_array [OF c] text_size_array [OF cu])
  moreover have "\<forall>x \<in> set ?u. valid_entry x account"
    using assms(1,3) set_update_subset_insert [of es i e] by (auto simp: accepted_snapshot_def)
  ultimately show ?thesis using assms(1) cu unfolding accepted_snapshot_def keys by simp
qed

end
