(* ===== verification/Idempotency_Store.thy ===== *)
theory Idempotency_Store
  imports Idempotency_Entry File_Status
begin

text \<open>
  The idempotency store, \<open>src/daemon/idempotency_store.cpp\<close>: the account state directory with the
  snapshot \<open>idempotency.db\<close> and the rewrite file \<open>.idempotency.db.tmp\<close>, the inspection of the
  directory, the atomic rewrite, and every operation of the class \<open>IdempotencyStore\<close>.

  The world outside is explicit. A \<open>world\<close> holds the directory, the lease and interruption state
  of the guard, which system calls fail now, and how many bytes a read or write moves. The program
  announces its steps with \<open>notify\<close>; \<open>hooks\<close> is what happens in the world at that moment, another
  process or a test hook. A call that fails, at any point, and the end of the process at that point
  leave the same directory behind.
\<close>

subsection \<open>The world\<close>

datatype (plugins only: code size) store_stage =
    BeforeStateOpen | AfterStateOpen | BeforeFinalInspect | AfterFinalOpen | DuringFinalRead
  | BeforeTempInspect | BeforeTempUnlink | BeforeTempCleanupDirectorySync | BeforeCapacity
  | BeforeTempCreate | AfterTempCreate | DuringTempWrite | BeforeTempFileSync | BeforeTempRevalidate
  | BeforeFinalRevalidate | BeforeRename | AfterRename | BeforeFinalNameRevalidate | BeforeDirectorySync

datatype (plugins only: code size) system_call =
    LstatState | OpenState | FstatFinalName | OpenFinal | ReadFinal | FstatFinalAgain | FstatFinalNameAgain
  | FstatTempName | OpenTemp | ChmodTemp | FstatTemp | WriteTemp | SyncTemp | FstatTempAgain
  | FstatCurrentFinal | RenameTemp | FstatFinalRenamed | SyncDirectory | FstatStaleTemp | UnlinkTemp

datatype interruption = Deadline | Cancelled

record world =
  lease_error :: "string option"
  scan_interruption :: "interruption option"
  failing :: "system_call \<Rightarrow> bool"
  transfer :: "nat \<Rightarrow> nat"
  state_root :: stat
  process_uid :: nat
  created_perm :: nat
  fresh_inode :: nat
  final_file :: "stored_file option"
  temp_file :: "stored_file option"
  clock :: nat

type_synonym hooks = "store_stage \<Rightarrow> world \<Rightarrow> world"

record store =
  store_directory :: string
  store_path :: string
  store_account :: string
  store_uid :: nat

record failure =
  failure_reason :: durability_reason
  failure_account :: string
  failure_path :: string
  failure_detail :: string
  failure_interruption :: "interruption option"

definition make_failure :: "store \<Rightarrow> durability_reason \<Rightarrow> string \<Rightarrow> failure" where
  "make_failure st reason detail =
     \<lparr>failure_reason = reason, failure_account = store_account st, failure_path = store_path st,
      failure_detail = detail, failure_interruption = None\<rparr>"

definition interrupted_failure :: "store \<Rightarrow> interruption \<Rightarrow> failure" where
  "interrupted_failure st i =
     \<lparr>failure_reason = DR_PathInvalid, failure_account = store_account st, failure_path = store_path st,
      failure_detail = (if i = Cancelled then ''account audit scan was cancelled''
                        else ''account audit scan reached its absolute deadline''),
      failure_interruption = Some i\<rparr>"

subsection \<open>Paths and entries\<close>

text \<open>\<open>std::filesystem::path::lexically_normal\<close> of an absolute path: empty and dot components go, a
  dot-dot component takes its predecessor with it, and a path that ends in such a component keeps a
  trailing separator.\<close>

fun split_path :: "string \<Rightarrow> string list" where
  "split_path [] = [[]]"
| "split_path (c # s) =
     (case split_path s of
        [] \<Rightarrow> []
      | p # ps \<Rightarrow> if c = CHR ''/'' then [] # p # ps else (c # p) # ps)"

definition lexical_push :: "string list \<Rightarrow> string \<Rightarrow> string list" where
  "lexical_push stack component =
     (if component = [] \<or> component = ''.'' then stack
      else if component = ''..'' then butlast stack else stack @ [component])"

definition lexically_normal_absolute :: "string \<Rightarrow> string" where
  "lexically_normal_absolute path =
     (let components = split_path path; stack = foldl lexical_push [] components
      in if stack = [] then ''/''
         else concat (map (\<lambda>component. ''/'' @ component) stack) @
              (if last components \<in> {[], ''.'', ''..''} then ''/'' else []))"

definition valid_frozen_state_path :: "string \<Rightarrow> string \<Rightarrow> bool" where
  "valid_frozen_state_path directory account =
     (if \<not> valid_account_name account \<or> directory = [] \<or> contains_nul directory then False
      else hd directory = CHR ''/'' \<and> lexically_normal_absolute directory = directory \<and>
           last (split_path directory) = account)"

definition valid_public_store_path :: "string \<Rightarrow> string \<Rightarrow> bool" where
  "valid_public_store_path path account \<longleftrightarrow>
     path \<noteq> [] \<and> hd path = CHR ''/'' \<and> lexically_normal_absolute path = path \<and>
     last (split_path path) = ''idempotency.db'' \<and> last (butlast (split_path path)) = account"

definition make_idempotency_pending_entry :: "pending_input \<Rightarrow> store \<Rightarrow> failure + entry" where
  "make_idempotency_pending_entry i st =
     (if \<not> valid_public_store_path (store_path st) (store_account st)
      then Inl (make_failure st DR_PathInvalid ''invalid public idempotency path'')
      else if pi_created_at i > kIdempotencyMaximumUnixSeconds - kIdempotencyRetentionSeconds
      then Inl (make_failure st DR_SchemaError ''idempotency expiry cannot be represented'')
      else if \<not> valid_entry (pending_entry i) (store_account st)
      then Inl (make_failure st DR_SchemaError ''invalid pending idempotency entry'')
      else Inr (pending_entry i))"

definition serialize_idempotency_snapshot :: "snapshot \<Rightarrow> store \<Rightarrow> failure + string" where
  "serialize_idempotency_snapshot s st =
     (case canonicalize_snapshot (snapshot_entries s) (store_account st) of
        Inl reason \<Rightarrow> Inl (make_failure st reason ''invalid idempotency snapshot'')
      | Inr canonical \<Rightarrow> Inr (canonical_bytes canonical))"

definition idempotency_unavailable_terminal :: "failure \<Rightarrow> json" where
  "idempotency_unavailable_terminal f =
     JObject [(''code'', JString ''IDEMPOTENCY_UNAVAILABLE''),
       (''details'', JObject [(''account'', JString (failure_account f)), (''path'', JString (failure_path f)),
          (''reason'', JString (account_audit_durability_reason_name (failure_reason f)))]),
       (''exit_code'', JInt 6), (''kind'', JString ''error''),
       (''message'', JString ''idempotency store is unavailable'')]"

subsection \<open>Metadata\<close>

definition same_identity :: "stat \<Rightarrow> stat \<Rightarrow> bool" where
  "same_identity l r \<longleftrightarrow>
     st_dev l = st_dev r \<and> st_ino l = st_ino r \<and> st_size l = st_size r \<and> st_kind l = st_kind r \<and>
     st_perm l = st_perm r \<and> st_uid l = st_uid r \<and> st_nlink l = st_nlink r"

definition same_file_object :: "stat \<Rightarrow> stat \<Rightarrow> bool" where
  "same_file_object l r \<longleftrightarrow>
     st_dev l = st_dev r \<and> st_ino l = st_ino r \<and> st_kind l = st_kind r \<and> st_perm l = st_perm r \<and>
     st_uid l = st_uid r \<and> st_nlink l = st_nlink r"

text \<open>\<open>0700\<close> is 448 and \<open>0600\<close> is 384.\<close>

definition classify_root :: "stat \<Rightarrow> nat \<Rightarrow> durability_reason option" where
  "classify_root m uid =
     (if st_kind m \<noteq> DirectoryFile then Some DR_WrongType
      else if st_uid m \<noteq> uid then Some DR_WrongOwner
      else if st_perm m \<noteq> 448 then Some DR_WrongMode else None)"

definition classify_file :: "stat \<Rightarrow> nat \<Rightarrow> bool \<Rightarrow> durability_reason option" where
  "classify_file m uid enforce_size =
     (if st_kind m = SymbolicLink then Some DR_PathInvalid
      else if st_kind m \<noteq> RegularFile then Some DR_WrongType
      else if st_uid m \<noteq> uid then Some DR_WrongOwner
      else if st_perm m \<noteq> 384 then Some DR_WrongMode
      else if st_nlink m \<noteq> 1 then Some DR_WrongLinkCount
      else if enforce_size \<and> (st_size m < 0 \<or> nat (st_size m) > kIdempotencyStoreMaximumBytes) then Some DR_TooLarge
      else None)"

subsection \<open>Inspection\<close>

definition open_root :: "store \<Rightarrow> hooks \<Rightarrow> bool \<Rightarrow> world \<Rightarrow> (failure + unit) \<times> world" where
  "open_root st hooks honor_interruption w =
     (case lease_error w of
        Some e \<Rightarrow> (Inl (make_failure st DR_LockFailed e), w)
      | None \<Rightarrow>
          if honor_interruption \<and> scan_interruption w \<noteq> None
          then (Inl (interrupted_failure st (the (scan_interruption w))), w)
          else
            let w = hooks BeforeStateOpen w in
            if failing w LstatState then (Inl (make_failure st DR_OpenFailed []), w)
            else if st_kind (state_root w) = SymbolicLink then (Inl (make_failure st DR_PathInvalid []), w)
            else (case classify_root (state_root w) (store_uid st) of
                    Some reason \<Rightarrow> (Inl (make_failure st reason []), w)
                  | None \<Rightarrow>
                      if failing w OpenState then (Inl (make_failure st DR_OpenFailed []), w)
                      else (Inr (), hooks AfterStateOpen w)))"

definition kIoChunk :: nat where
  "kIoChunk = 65536"

text \<open>The file behind an open descriptor: the named file while the name still leads to it.\<close>

definition descriptor_file :: "stored_file \<Rightarrow> stored_file option \<Rightarrow> stored_file" where
  "descriptor_file f named =
     (case named of
        None \<Rightarrow> f
      | Some g \<Rightarrow> if file_dev g = file_dev f \<and> file_ino g = file_ino f then g else f)"

function read_loop :: "store \<Rightarrow> hooks \<Rightarrow> bool \<Rightarrow> stored_file \<Rightarrow> nat \<Rightarrow> string \<Rightarrow> world \<Rightarrow> (failure + string) \<times> world" where
  "read_loop st hooks honor_interruption f bytes_size read_so_far w =
     (if length read_so_far \<ge> bytes_size then (Inr read_so_far, w)
      else if honor_interruption \<and> scan_interruption w \<noteq> None
      then (Inl (interrupted_failure st (the (scan_interruption w))), w)
      else
        let w = hooks DuringFinalRead w;
            chunk = take (min (transfer w (length read_so_far)) (min kIoChunk (bytes_size - length read_so_far)))
                      (drop (length read_so_far) (file_contents (descriptor_file f (final_file w))))
        in if failing w ReadFinal \<or> chunk = [] then (Inl (make_failure st DR_ReadFailed []), w)
           else read_loop st hooks honor_interruption f bytes_size (read_so_far @ chunk) w)"
  by pat_completeness auto
termination
  by (relation "measure (\<lambda>(st, hooks, honor, f, bytes_size, read_so_far, w). bytes_size - length read_so_far)")
    (auto simp: Let_def)

declare read_loop.simps [simp del]

definition read_stable_file ::
  "store \<Rightarrow> hooks \<Rightarrow> bool \<Rightarrow> stat \<Rightarrow> world \<Rightarrow> (failure + string \<times> stat) \<times> world" where
  "read_stable_file st hooks honor_interruption named w =
     (case final_file w of
        None \<Rightarrow> (Inl (make_failure st DR_OpenFailed []), w)
      | Some f \<Rightarrow>
          if failing w OpenFinal then (Inl (make_failure st DR_OpenFailed []), w)
          else if \<not> same_identity named (stat_of f) then (Inl (make_failure st DR_PathInvalid []), w)
          else (case classify_file (stat_of f) (store_uid st) True of
                  Some reason \<Rightarrow> (Inl (make_failure st reason []), w)
                | None \<Rightarrow>
                    (case read_loop st hooks honor_interruption f (length (file_contents f)) [] (hooks AfterFinalOpen w) of
                       (Inl e, w) \<Rightarrow> (Inl e, w)
                     | (Inr bytes, w) \<Rightarrow>
                         let g = descriptor_file f (final_file w)
                         in if failing w ReadFinal \<or> length (file_contents g) > length bytes
                            then (Inl (make_failure st DR_ReadFailed []), w)
                            else if failing w FstatFinalAgain then (Inl (make_failure st DR_ReadFailed []), w)
                            else if failing w FstatFinalNameAgain then (Inl (make_failure st DR_ReadFailed []), w)
                            else (case final_file w of
                                    None \<Rightarrow> (Inl (make_failure st DR_PathInvalid []), w)
                                  | Some h \<Rightarrow>
                                      if \<not> same_identity (stat_of f) (stat_of g)
                                      then (Inl (make_failure st DR_ReadFailed []), w)
                                      else if \<not> same_identity (stat_of g) (stat_of h)
                                      then (Inl (make_failure st DR_PathInvalid []), w)
                                      else (Inr (bytes, stat_of f), w)))))"

record store_image =
  image_snapshot :: snapshot
  image_final :: "stat option"
  image_temp :: "stat option"

definition inspect_final ::
  "json_parser \<Rightarrow> store \<Rightarrow> hooks \<Rightarrow> bool \<Rightarrow> world \<Rightarrow> (failure + snapshot \<times> stat option) \<times> world" where
  "inspect_final parse st hooks honor_interruption w =
     (if failing w FstatFinalName then (Inl (make_failure st DR_OpenFailed []), w)
      else (case final_file w of
              None \<Rightarrow>
                (case canonicalize_snapshot [] (store_account st) of
                   Inl reason \<Rightarrow> (Inl (make_failure st reason []), w)
                 | Inr s \<Rightarrow> (Inr (s, None), w))
            | Some f \<Rightarrow>
                (case classify_file (stat_of f) (store_uid st) True of
                   Some reason \<Rightarrow> (Inl (make_failure st reason []), w)
                 | None \<Rightarrow>
                     (case read_stable_file st hooks honor_interruption (stat_of f) w of
                        (Inl e, w) \<Rightarrow> (Inl e, w)
                      | (Inr (bytes, metadata), w) \<Rightarrow>
                          (case decode_snapshot parse bytes (store_account st) of
                             Inl reason \<Rightarrow> (Inl (make_failure st reason []), w)
                           | Inr s \<Rightarrow> (Inr (s, Some metadata), w))))))"

definition inspect_image :: "json_parser \<Rightarrow> store \<Rightarrow> hooks \<Rightarrow> bool \<Rightarrow> world \<Rightarrow> (failure + store_image) \<times> world" where
  "inspect_image parse st hooks honor_interruption w =
     (case open_root st hooks honor_interruption w of
        (Inl e, w) \<Rightarrow> (Inl e, w)
      | (Inr _, w) \<Rightarrow>
          (case inspect_final parse st hooks honor_interruption (hooks BeforeFinalInspect w) of
             (Inl e, w) \<Rightarrow> (Inl e, w)
           | (Inr (s, final), w) \<Rightarrow>
               let w = hooks BeforeTempInspect w in
               if failing w FstatTempName then (Inl (make_failure st DR_OpenFailed []), w)
               else (case temp_file w of
                       None \<Rightarrow> (Inr \<lparr>image_snapshot = s, image_final = final, image_temp = None\<rparr>, w)
                     | Some t \<Rightarrow>
                         (case classify_file (stat_of t) (store_uid st) False of
                            Some reason \<Rightarrow> (Inl (make_failure st reason []), w)
                          | None \<Rightarrow>
                              (Inr \<lparr>image_snapshot = s, image_final = final, image_temp = Some (stat_of t)\<rparr>, w)))))"

subsection \<open>The atomic rewrite\<close>

text \<open>\<open>write_all\<close> appends to the rewrite file through its descriptor; a file that took over its name is
  not written to.\<close>

definition append_to :: "stat \<Rightarrow> string \<Rightarrow> stored_file \<Rightarrow> stored_file" where
  "append_to descriptor chunk t =
     (if file_dev t = st_dev descriptor \<and> file_ino t = st_ino descriptor
      then t\<lparr>file_contents := file_contents t @ chunk\<rparr> else t)"

function write_all :: "hooks \<Rightarrow> stat \<Rightarrow> string \<Rightarrow> nat \<Rightarrow> world \<Rightarrow> bool \<times> world" where
  "write_all hooks descriptor bytes offset w =
     (if offset \<ge> length bytes then (True, w)
      else
        let w = hooks DuringTempWrite w;
            chunk = take (min (transfer w offset) (min kIoChunk (length bytes - offset))) (drop offset bytes)
        in if failing w WriteTemp \<or> chunk = [] then (False, w)
           else write_all hooks descriptor bytes (offset + length chunk)
                  (w\<lparr>temp_file := map_option (append_to descriptor chunk) (temp_file w)\<rparr>))"
  by pat_completeness auto
termination
  by (relation "measure (\<lambda>(hooks, descriptor, bytes, offset, w). length bytes - offset)") (auto simp: Let_def)

declare write_all.simps [simp del]

definition create_temp :: "world \<Rightarrow> stored_file" where
  "create_temp w =
     \<lparr>file_dev = st_dev (state_root w), file_ino = fresh_inode w, file_kind = RegularFile, file_perm = created_perm w,
      file_uid = process_uid w, file_nlink = 1, file_contents = []\<rparr>"

definition install_temp ::
  "store \<Rightarrow> hooks \<Rightarrow> stat option \<Rightarrow> stat \<Rightarrow> string \<Rightarrow> world \<Rightarrow> (failure + unit) \<times> world" where
  "install_temp st hooks final temp_metadata bytes w =
     (let w = hooks BeforeTempFileSync w in
      if failing w SyncTemp then (Inl (make_failure st DR_SyncFailed []), w)
      else
        let w = hooks BeforeTempRevalidate w in
        if failing w FstatTempAgain then (Inl (make_failure st DR_PathInvalid []), w)
        else (case temp_file w of
          None \<Rightarrow> (Inl (make_failure st DR_PathInvalid []), w)
        | Some t \<Rightarrow>
            if \<not> same_file_object temp_metadata (stat_of t) \<or> st_size (stat_of t) \<noteq> int (length bytes)
            then (Inl (make_failure st DR_PathInvalid []), w)
            else
              let synced = stat_of t; w = hooks BeforeFinalRevalidate w in
              if failing w FstatCurrentFinal \<or>
                 (case final_file w of
                    None \<Rightarrow> final \<noteq> None
                  | Some f \<Rightarrow> (case final of None \<Rightarrow> True | Some m \<Rightarrow> \<not> same_identity m (stat_of f)))
              then (Inl (make_failure st DR_PathInvalid []), w)
              else
                let w = hooks BeforeRename w in
                if failing w RenameTemp \<or> temp_file w = None then (Inl (make_failure st DR_RenameFailed []), w)
                else
                  let w = hooks BeforeFinalNameRevalidate
                            (hooks AfterRename (w\<lparr>final_file := temp_file w, temp_file := None\<rparr>))
                  in if failing w FstatFinalRenamed then (Inl (make_failure st DR_PathInvalid []), w)
                     else (case final_file w of
                             None \<Rightarrow> (Inl (make_failure st DR_PathInvalid []), w)
                           | Some f \<Rightarrow>
                               if \<not> same_identity synced (stat_of f) then (Inl (make_failure st DR_PathInvalid []), w)
                               else
                                 let w = hooks BeforeDirectorySync w in
                                 if failing w SyncDirectory then (Inl (make_failure st DR_DirectorySyncFailed []), w)
                                 else (Inr (), w))))"

definition replace_final ::
  "store \<Rightarrow> hooks \<Rightarrow> stat option \<Rightarrow> snapshot \<Rightarrow> world \<Rightarrow> (failure + snapshot) \<times> world" where
  "replace_final st hooks final desired w =
     (let w = hooks BeforeTempCreate w in
      if failing w OpenTemp \<or> temp_file w \<noteq> None then (Inl (make_failure st DR_OpenFailed []), w)
      else
        let w = w\<lparr>temp_file := Some (create_temp w)\<rparr> in
        if failing w ChmodTemp then (Inl (make_failure st DR_WriteFailed []), w)
        else
          let temp = (create_temp w)\<lparr>file_perm := 384\<rparr>; w = hooks AfterTempCreate (w\<lparr>temp_file := Some temp\<rparr>) in
          if failing w FstatTemp then (Inl (make_failure st DR_OpenFailed []), w)
          else
            let temp_metadata = stat_of (descriptor_file temp (temp_file w))
            in (case classify_file temp_metadata (store_uid st) False of
                  Some reason \<Rightarrow> (Inl (make_failure st reason []), w)
                | None \<Rightarrow>
                    (case write_all hooks temp_metadata (canonical_bytes desired) 0 w of
                       (False, w) \<Rightarrow> (Inl (make_failure st DR_WriteFailed []), w)
                     | (True, w) \<Rightarrow>
                         (case install_temp st hooks final temp_metadata (canonical_bytes desired) w of
                            (Inl e, w) \<Rightarrow> (Inl e, w)
                          | (Inr _, w) \<Rightarrow> (Inr desired, w)))))"

definition rewrite_snapshot ::
  "json_parser \<Rightarrow> store \<Rightarrow> hooks \<Rightarrow> snapshot \<Rightarrow> entry list \<Rightarrow> world \<Rightarrow> (failure + snapshot) \<times> world" where
  "rewrite_snapshot parse st hooks expected desired_entries w =
     (case canonicalize_snapshot desired_entries (store_account st) of
        Inl reason \<Rightarrow> (Inl (make_failure st reason ''invalid prospective snapshot''), w)
      | Inr desired \<Rightarrow>
          (case inspect_image parse st hooks True w of
             (Inl e, w) \<Rightarrow> (Inl e, w)
           | (Inr img, w) \<Rightarrow>
               if canonical_bytes (image_snapshot img) \<noteq> canonical_bytes expected \<or> image_temp img \<noteq> None
               then (Inl (make_failure st DR_Contradiction ''store changed or retained a temp before rewrite''), w)
               else (case open_root st hooks False w of
                       (Inl e, w) \<Rightarrow> (Inl e, w)
                     | (Inr _, w) \<Rightarrow> replace_final st hooks (image_final img) desired w)))"

subsection \<open>Operations of the store\<close>

definition inspect :: "json_parser \<Rightarrow> store \<Rightarrow> hooks \<Rightarrow> world \<Rightarrow> (failure + snapshot \<times> bool) \<times> world" where
  "inspect parse st hooks w =
     (case inspect_image parse st hooks True w of
        (Inl e, w) \<Rightarrow> (Inl e, w)
      | (Inr img, w) \<Rightarrow> (Inr (image_snapshot img, image_temp img \<noteq> None), w))"

datatype write_status = WriteApplied | WriteUnchanged | IncumbentPreserved | WriteFailed

record write_result =
  write_status :: write_status
  write_snapshot :: "snapshot option"
  write_failure :: "failure option"

definition write_failed :: "failure \<Rightarrow> snapshot option \<Rightarrow> write_result" where
  "write_failed e s = \<lparr>write_status = WriteFailed, write_snapshot = s, write_failure = Some e\<rparr>"

definition write_done :: "write_status \<Rightarrow> snapshot \<Rightarrow> write_result" where
  "write_done status s = \<lparr>write_status = status, write_snapshot = Some s, write_failure = None\<rparr>"

definition cleanup_stale_temp :: "json_parser \<Rightarrow> store \<Rightarrow> hooks \<Rightarrow> world \<Rightarrow> write_result \<times> world" where
  "cleanup_stale_temp parse st hooks w =
     (case inspect_image parse st hooks True w of
        (Inl e, w) \<Rightarrow> (write_failed e None, w)
      | (Inr img, w) \<Rightarrow>
          (case image_temp img of
             None \<Rightarrow> (write_done WriteUnchanged (image_snapshot img), w)
           | Some metadata \<Rightarrow>
               (case open_root st hooks True w of
                  (Inl e, w) \<Rightarrow> (write_failed e None, w)
                | (Inr _, w) \<Rightarrow>
                    if failing w FstatStaleTemp \<or>
                       (case temp_file w of None \<Rightarrow> True | Some t \<Rightarrow> \<not> same_identity metadata (stat_of t))
                    then (write_failed (make_failure st DR_PathInvalid []) None, w)
                    else
                      let w = hooks BeforeTempUnlink w in
                      if failing w UnlinkTemp \<or> temp_file w = None
                      then (write_failed (make_failure st DR_RenameFailed []) None, w)
                      else
                        let w = hooks BeforeTempCleanupDirectorySync (w\<lparr>temp_file := None\<rparr>) in
                        if failing w SyncDirectory
                        then (write_failed (make_failure st DR_DirectorySyncFailed []) None, w)
                        else (write_done WriteApplied (image_snapshot img), w))))"

definition pins :: "snapshot \<Rightarrow> (nat \<times> string \<times> string \<times> audit_operation) list" where
  "pins s = map entry_pin (snapshot_entries s)"

text \<open>\<open>std::ranges::lower_bound\<close> on entries in the order of their key hashes.\<close>

definition lower_bound :: "entry list \<Rightarrow> string \<Rightarrow> nat" where
  "lower_bound es key = length (takeWhile (\<lambda>e. entry_key_hash e < key) es)"

definition find_entry :: "entry list \<Rightarrow> string \<Rightarrow> nat option" where
  "find_entry es key =
     (let found = lower_bound es key
      in if found = length es \<or> entry_key_hash (es ! found) \<noteq> key then None else Some found)"

datatype lookup_status = LookupMiss | LookupPending | LookupCompleted | LookupConflict

definition lookup :: "snapshot \<Rightarrow> string \<Rightarrow> string \<Rightarrow> lookup_status \<times> entry option" where
  "lookup s key_hash fingerprint =
     (case find_entry (snapshot_entries s) key_hash of
        None \<Rightarrow> (LookupMiss, None)
      | Some found \<Rightarrow>
          let e = snapshot_entries s ! found
          in if entry_fingerprint e \<noteq> fingerprint then (LookupConflict, Some e)
             else (if entry_state e = EntryPending then LookupPending else LookupCompleted, Some e))"

datatype insert_status = InsertInserted | UnexpectedIncumbent | InsertFailed

record insert_result =
  insert_status :: insert_status
  insert_incumbent :: "entry option"
  insert_snapshot :: "snapshot option"
  insert_failure :: "failure option"

definition insert_failed :: "failure \<Rightarrow> snapshot option \<Rightarrow> insert_result" where
  "insert_failed e s =
     \<lparr>insert_status = InsertFailed, insert_incumbent = None, insert_snapshot = s, insert_failure = Some e\<rparr>"

definition insert_at :: "'a list \<Rightarrow> nat \<Rightarrow> 'a \<Rightarrow> 'a list" where
  "insert_at xs n x = take n xs @ x # drop n xs"

definition insert_if_absent :: "json_parser \<Rightarrow> store \<Rightarrow> hooks \<Rightarrow> entry \<Rightarrow> world \<Rightarrow> insert_result \<times> world" where
  "insert_if_absent parse st hooks e w =
     (if entry_state e \<noteq> EntryPending \<or> \<not> valid_entry e (store_account st)
      then (insert_failed (make_failure st DR_SchemaError ''invalid pending idempotency entry'') None, w)
      else (case inspect parse st hooks w of
              (Inl f, w) \<Rightarrow> (insert_failed f None, w)
            | (Inr (s, stale_temp), w) \<Rightarrow>
                if stale_temp
                then (insert_failed (make_failure st DR_Contradiction ''stale temp was not reconciled before insertion'') None, w)
                else (case find_entry (snapshot_entries s) (entry_key_hash e) of
                   Some found \<Rightarrow>
                     (\<lparr>insert_status = UnexpectedIncumbent, insert_incumbent = Some (snapshot_entries s ! found),
                       insert_snapshot = Some s, insert_failure = None\<rparr>, w)
                 | None \<Rightarrow>
                     let w = hooks BeforeCapacity w in
                     if length (snapshot_entries s) \<ge> kIdempotencyStoreMaximumEntries
                     then (insert_failed (make_failure st DR_CapacityExhausted []) (Some s), w)
                     else
                       let desired = insert_at (snapshot_entries s) (lower_bound (snapshot_entries s) (entry_key_hash e)) e
                       in (case canonicalize_snapshot desired (store_account st) of
                             Inl reason \<Rightarrow> (insert_failed (make_failure st DR_CapacityExhausted []) (Some s), w)
                           | Inr prospective \<Rightarrow>
                               (case rewrite_snapshot parse st hooks s (snapshot_entries prospective) w of
                                  (Inl f, w) \<Rightarrow> (insert_failed f None, w)
                                | (Inr written, w) \<Rightarrow>
                                    (\<lparr>insert_status = InsertInserted, insert_incumbent = None,
                                      insert_snapshot = Some written, insert_failure = None\<rparr>, w))))))"

text \<open>The defaulted \<open>operator==\<close> of entries, which compares documents with \<open>json_eq\<close>.\<close>

definition entry_eq :: "entry \<Rightarrow> entry \<Rightarrow> bool" where
  "entry_eq l r \<longleftrightarrow>
     entry_key_hash l = entry_key_hash r \<and> entry_fingerprint l = entry_fingerprint r \<and>
     entry_operation l = entry_operation r \<and> entry_state l = entry_state r \<and>
     entry_invocation_id l = entry_invocation_id r \<and> entry_generation l = entry_generation r \<and>
     entry_created_at l = entry_created_at r \<and> entry_expires_at l = entry_expires_at r \<and>
     entry_reserved_bytes l = entry_reserved_bytes r \<and> json_eq (entry_plan l) (entry_plan r) \<and>
     json_eq (entry_temporary_ids l) (entry_temporary_ids r) \<and> json_eq (entry_progress l) (entry_progress r) \<and>
     entry_spool l = entry_spool r \<and>
     (case (entry_terminal l, entry_terminal r) of
        (None, None) \<Rightarrow> True | (Some t, Some u) \<Rightarrow> json_eq t u | _ \<Rightarrow> False)"

text \<open>A mutation of an entry fails with the detail of a \<open>schema_error\<close>.\<close>

type_synonym entry_mutation = "entry \<Rightarrow> string + entry"

definition mutate_owned_entry ::
  "json_parser \<Rightarrow> store \<Rightarrow> hooks \<Rightarrow> string \<Rightarrow> string \<Rightarrow> entry_mutation \<Rightarrow> bool \<Rightarrow> world \<Rightarrow> write_result \<times> world" where
  "mutate_owned_entry parse st hooks key_hash invocation_id mutation preserve_other_incumbent w =
     (case inspect_image parse st hooks True w of
        (Inl e, w) \<Rightarrow> (write_failed e None, w)
      | (Inr img, w) \<Rightarrow>
          if image_temp img \<noteq> None
          then (write_failed (make_failure st DR_Contradiction ''stale temp was not reconciled before store transition'') None, w)
          else
            let s = image_snapshot img; es = snapshot_entries s
            in (case find_entry es key_hash of
                  None \<Rightarrow> (write_failed (make_failure st DR_Contradiction ''owned idempotency entry is missing'') (Some s), w)
                | Some found \<Rightarrow>
                    if entry_invocation_id (es ! found) \<noteq> invocation_id
                    then if preserve_other_incumbent then (write_done IncumbentPreserved s, w)
                         else (write_failed (make_failure st DR_Contradiction
                                 ''idempotency entry belongs to another invocation'') (Some s), w)
                    else (case mutation (es ! found) of
                            Inl detail \<Rightarrow> (write_failed (make_failure st DR_SchemaError detail) (Some s), w)
                          | Inr e \<Rightarrow>
                              if entry_eq e (es ! found) then (write_done WriteUnchanged s, w)
                              else (case rewrite_snapshot parse st hooks s (es[found := e]) w of
                                      (Inl f, w) \<Rightarrow> (write_failed f None, w)
                                    | (Inr written, w) \<Rightarrow> (write_done WriteApplied written, w)))))"

definition apply_spool_transition :: "spool_ref \<Rightarrow> string \<Rightarrow> entry_mutation" where
  "apply_spool_transition spool account e =
     (if entry_state e \<noteq> EntryPending \<or> entry_operation e \<noteq> A_SavedAttach \<or>
         \<not> validate_persisted_spool spool (entry_invocation_id e) \<or> \<not> is_object (entry_plan e) \<or>
         \<not> contains (entry_plan e) ''file'' \<or>
         \<not> json_eq (field (entry_plan e) ''file'') (file_snapshot_json (spool_file spool)) \<or>
         (case entry_spool e of None \<Rightarrow> False | Some current \<Rightarrow> current \<noteq> spool)
      then Inl ''invalid spool transition''
      else let e = e\<lparr>entry_spool := Some spool\<rparr>
           in if valid_entry e account then Inr e else Inl ''invalid spool transition'')"

definition preflight_spool_update ::
  "json_parser \<Rightarrow> store \<Rightarrow> hooks \<Rightarrow> string \<Rightarrow> string \<Rightarrow> spool_ref \<Rightarrow> world \<Rightarrow> (failure \<times> snapshot option + snapshot) \<times> world" where
  "preflight_spool_update parse st hooks key_hash invocation_id spool w =
     (case inspect_image parse st hooks True w of
        (Inl e, w) \<Rightarrow> (Inl (e, None), w)
      | (Inr img, w) \<Rightarrow>
          let s = image_snapshot img; es = snapshot_entries s
          in if image_temp img \<noteq> None
             then (Inl (make_failure st DR_Contradiction ''stale temp was not reconciled before spool preflight'', Some s), w)
             else (case find_entry es key_hash of
                None \<Rightarrow> (Inl (make_failure st DR_Contradiction ''spool preflight has no matching owned entry'', Some s), w)
              | Some found \<Rightarrow>
                  if entry_invocation_id (es ! found) \<noteq> invocation_id
                  then (Inl (make_failure st DR_Contradiction ''spool preflight has no matching owned entry'', Some s), w)
                  else (case apply_spool_transition spool (store_account st) (es ! found) of
                          Inl detail \<Rightarrow> (Inl (make_failure st DR_SchemaError detail, Some s), w)
                        | Inr e \<Rightarrow>
                            (case canonicalize_snapshot (es[found := e]) (store_account st) of
                               Inl reason \<Rightarrow> (Inl (make_failure st DR_CapacityExhausted [], Some s), w)
                             | Inr prospective \<Rightarrow> (Inr prospective, w)))))"

definition update_spool ::
  "json_parser \<Rightarrow> store \<Rightarrow> hooks \<Rightarrow> string \<Rightarrow> string \<Rightarrow> spool_ref \<Rightarrow> world \<Rightarrow> write_result \<times> world" where
  "update_spool parse st hooks key_hash invocation_id spool w =
     (case preflight_spool_update parse st hooks key_hash invocation_id spool w of
        (Inl (e, s), w) \<Rightarrow> (write_failed e s, w)
      | (Inr _, w) \<Rightarrow>
          mutate_owned_entry parse st hooks key_hash invocation_id (apply_spool_transition spool (store_account st)) False w)"

definition temporary_ids_transition :: "json \<Rightarrow> entry_mutation" where
  "temporary_ids_transition temporary_ids e =
     (if entry_state e \<noteq> EntryPending \<or>
         \<not> validate_persisted_temporary_ids (entry_operation e) temporary_ids (entry_plan e) \<or>
         \<not> jempty (entry_temporary_ids e) \<and> \<not> json_eq (entry_temporary_ids e) temporary_ids
      then Inl ''invalid temporary-id transition''
      else Inr (e\<lparr>entry_temporary_ids := temporary_ids\<rparr>))"

definition update_temporary_message_ids ::
  "json_parser \<Rightarrow> store \<Rightarrow> hooks \<Rightarrow> string \<Rightarrow> string \<Rightarrow> json \<Rightarrow> world \<Rightarrow> write_result \<times> world" where
  "update_temporary_message_ids parse st hooks key_hash invocation_id temporary_ids =
     mutate_owned_entry parse st hooks key_hash invocation_id (temporary_ids_transition temporary_ids) False"

definition progress_advances :: "json \<Rightarrow> json \<Rightarrow> bool" where
  "progress_advances before after =
     (if jempty before \<or> json_eq before after then True
      else if \<not> is_array before \<or> \<not> is_array after \<or> jsize before \<noteq> jsize after then False
      else list_all2 (\<lambda>b a.
             \<not> (\<not> json_eq (field b ''source_id'') (field a ''source_id'') \<or>
                \<not> item_status b ''pending'' \<and> \<not> json_eq b a \<or>
                item_status b ''pending'' \<and> item_status a ''pending'' \<and> \<not> json_eq b a))
           (items_of before) (items_of after))"

definition progress_transition :: "json \<Rightarrow> entry_mutation" where
  "progress_transition items e =
     (if entry_state e \<noteq> EntryPending \<or>
         \<not> validate_persisted_forward_progress (entry_operation e) items (entry_plan e) \<or>
         \<not> progress_advances (entry_progress e) items
      then Inl ''invalid forward-progress transition''
      else Inr (e\<lparr>entry_progress := items\<rparr>))"

definition update_forward_progress ::
  "json_parser \<Rightarrow> store \<Rightarrow> hooks \<Rightarrow> string \<Rightarrow> string \<Rightarrow> json \<Rightarrow> world \<Rightarrow> write_result \<times> world" where
  "update_forward_progress parse st hooks key_hash invocation_id items =
     mutate_owned_entry parse st hooks key_hash invocation_id (progress_transition items) False"

definition completed_entry :: "json \<Rightarrow> entry \<Rightarrow> entry" where
  "completed_entry t e =
     e\<lparr>entry_state := EntryCompleted, entry_reserved_bytes := 0, entry_temporary_ids := JArray [],
       entry_progress := JArray [], entry_terminal := Some t\<rparr>"

definition complete_transition :: "json \<Rightarrow> string \<Rightarrow> entry_mutation" where
  "complete_transition t account e =
     (if \<not> validate_persisted_terminal (entry_operation e) t (entry_plan e) account then Inl ''invalid completed terminal''
      else if entry_state e = EntryCompleted
      then (case entry_terminal e of
              None \<Rightarrow> Inl ''completed terminal changed''
            | Some current \<Rightarrow> if \<not> json_eq current t then Inl ''completed terminal changed'' else Inr e)
      else (case mutable_charge (completed_entry t e) of
              None \<Rightarrow> Inl ''completed terminal exceeds reservation''
            | Some charge \<Rightarrow>
                if charge > account_audit_terminal_reservation (entry_operation e)
                then Inl ''completed terminal exceeds reservation'' else Inr (completed_entry t e)))"

definition complete ::
  "json_parser \<Rightarrow> store \<Rightarrow> hooks \<Rightarrow> string \<Rightarrow> string \<Rightarrow> json \<Rightarrow> world \<Rightarrow> write_result \<times> world" where
  "complete parse st hooks key_hash invocation_id t =
     mutate_owned_entry parse st hooks key_hash invocation_id (complete_transition t (store_account st)) False"

definition remove_at :: "'a list \<Rightarrow> nat \<Rightarrow> 'a list" where
  "remove_at xs n = take n xs @ drop (n + 1) xs"

definition remove_owned ::
  "json_parser \<Rightarrow> store \<Rightarrow> hooks \<Rightarrow> string \<Rightarrow> string \<Rightarrow> world \<Rightarrow> write_result \<times> world" where
  "remove_owned parse st hooks key_hash invocation_id w =
     (case inspect_image parse st hooks True w of
        (Inl e, w) \<Rightarrow> (write_failed e None, w)
      | (Inr img, w) \<Rightarrow>
          if image_temp img \<noteq> None
          then (write_failed (make_failure st DR_Contradiction ''stale temp was not reconciled before removal'') None, w)
          else
            let s = image_snapshot img; es = snapshot_entries s
            in (case find_entry es key_hash of
                  None \<Rightarrow> (write_done WriteUnchanged s, w)
                | Some found \<Rightarrow>
                    if entry_invocation_id (es ! found) \<noteq> invocation_id then (write_done IncumbentPreserved s, w)
                    else (case rewrite_snapshot parse st hooks s (remove_at es found) w of
                            (Inl f, w) \<Rightarrow> (write_failed f None, w)
                          | (Inr written, w) \<Rightarrow> (write_done WriteApplied written, w))))"

definition clear_spool_transition :: entry_mutation where
  "clear_spool_transition e =
     (if entry_state e \<noteq> EntryCompleted then Inl ''pending spool reference cannot be cleared''
      else Inr (e\<lparr>entry_spool := None\<rparr>))"

definition clear_spool :: "json_parser \<Rightarrow> store \<Rightarrow> hooks \<Rightarrow> string \<Rightarrow> string \<Rightarrow> world \<Rightarrow> write_result \<times> world" where
  "clear_spool parse st hooks key_hash invocation_id =
     mutate_owned_entry parse st hooks key_hash invocation_id clear_spool_transition False"

definition sweep_expired :: "json_parser \<Rightarrow> store \<Rightarrow> hooks \<Rightarrow> nat \<Rightarrow> world \<Rightarrow> (write_result \<times> entry list) \<times> world" where
  "sweep_expired parse st hooks sampled_now w =
     (if sampled_now > kIdempotencyMaximumUnixSeconds
      then ((write_failed (make_failure st DR_SchemaError ''wall-clock sample is unrepresentable'') None, []), w)
      else (case inspect parse st hooks w of
              (Inl e, w) \<Rightarrow> ((write_failed e None, []), w)
            | (Inr (s, stale_temp), w) \<Rightarrow>
                if stale_temp
                then ((write_failed (make_failure st DR_Contradiction ''stale temp was not reconciled before expiry'') None, []), w)
                else
                  let removed = filter (\<lambda>e. sampled_now \<ge> entry_expires_at e) (snapshot_entries s);
                      desired = filter (\<lambda>e. \<not> sampled_now \<ge> entry_expires_at e) (snapshot_entries s)
                  in if removed = [] then ((write_done WriteUnchanged s, []), w)
                     else (case rewrite_snapshot parse st hooks s desired w of
                             (Inl f, w) \<Rightarrow> ((write_failed f None, removed), w)
                           | (Inr written, w) \<Rightarrow> ((write_done WriteApplied written, removed), w))))"

definition apply_reconciled_snapshot ::
  "json_parser \<Rightarrow> store \<Rightarrow> hooks \<Rightarrow> snapshot \<Rightarrow> entry list \<Rightarrow> world \<Rightarrow> write_result \<times> world" where
  "apply_reconciled_snapshot parse st hooks expected desired_entries w =
     (case canonicalize_snapshot desired_entries (store_account st) of
        Inl reason \<Rightarrow> (write_failed (make_failure st reason ''invalid reconciled idempotency snapshot'') None, w)
      | Inr desired \<Rightarrow>
          if canonical_bytes desired = canonical_bytes expected then (write_done WriteUnchanged expected, w)
          else (case rewrite_snapshot parse st hooks expected (snapshot_entries desired) w of
                  (Inl f, w) \<Rightarrow> (write_failed f None, w)
                | (Inr written, w) \<Rightarrow> (write_done WriteApplied written, w)))"

end
