(* ===== verification/Idempotency_Atomic.thy ===== *)
theory Idempotency_Atomic
  imports Idempotency_Store
begin

text \<open>
  What the operations of the idempotency store leave in the account state directory when any system
  call may fail at any point: the snapshot file is either untouched or holds the complete canonical
  text of an accepted snapshot. The hooks may change everything but the two files of the store,
  which the lease of the account keeps to one process.
\<close>

subsection \<open>Hooks that leave the files alone\<close>

definition leaves_files :: "hooks \<Rightarrow> bool" where
  "leaves_files hooks \<longleftrightarrow>
     (\<forall>stage w. final_file (hooks stage w) = final_file w \<and> temp_file (hooks stage w) = temp_file w)"

definition same_files :: "world \<Rightarrow> world \<Rightarrow> bool" where
  "same_files w w' \<longleftrightarrow> final_file w' = final_file w \<and> temp_file w' = temp_file w"

lemma leaves_files_simps:
  assumes "leaves_files hooks"
  shows "final_file (hooks stage w) = final_file w" "temp_file (hooks stage w) = temp_file w"
  using assms by (simp_all add: leaves_files_def)

lemma open_root_files:
  "leaves_files hooks \<Longrightarrow> same_files w (snd (open_root st hooks honor w))"
  by (auto simp: open_root_def Let_def same_files_def leaves_files_simps split: option.splits)

lemma read_loop_files:
  assumes "leaves_files hooks"
  shows "same_files w (snd (read_loop st hooks honor f n acc w))"
  using assms
proof (induction st hooks honor f n acc w rule: read_loop.induct)
  case (1 st hooks honor f n acc w)
  note h = leaves_files_simps [OF 1(2)]
  show ?case
    using 1(1) [OF _ _ refl refl _ 1(2)] h(1) [of DuringFinalRead w] h(2) [of DuringFinalRead w]
    by (subst read_loop.simps) (auto simp: Let_def same_files_def)
qed

lemma read_stable_file_files:
  assumes "leaves_files hooks"
  shows "same_files w (snd (read_stable_file st hooks honor named w))"
proof -
  have r: "same_files w w'" if "read_loop st hooks honor f n [] (hooks AfterFinalOpen w) = (r, w')" for f n r w'
    using read_loop_files [OF assms, of "hooks AfterFinalOpen w" st honor f n "[]"] that leaves_files_simps [OF assms]
    by (simp add: same_files_def)
  show ?thesis unfolding read_stable_file_def
    by (auto simp: Let_def same_files_def dest!: r split: option.splits prod.splits sum.splits)
qed

lemma inspect_image_files:
  assumes "leaves_files hooks"
  shows "same_files w (snd (inspect_image parse st hooks honor w))"
proof -
  note h = leaves_files_simps [OF assms]
  have f: "same_files w w'" if "inspect_final parse st hooks honor w = (r, w')" for w r w'
    using that read_stable_file_files [OF assms] unfolding inspect_final_def
    by (auto simp: same_files_def split: if_splits option.splits prod.splits sum.splits) (metis snd_conv)+
  have o: "same_files w w'" if "open_root st hooks honor w = (r, w')" for r w'
    using open_root_files [OF assms, of w st honor] that by simp
  show ?thesis unfolding inspect_image_def
    by (auto simp: Let_def h same_files_def dest!: o f split: option.splits prod.splits sum.splits)
qed

subsection \<open>The rewrite\<close>

lemma write_all_files:
  assumes "leaves_files hooks" "temp_file w = Some t" "file_dev t = st_dev d" "file_ino t = st_ino d"
    and "file_contents t = take offset bytes" "write_all hooks d bytes offset w = (ok, w')"
  shows "final_file w' = final_file w \<and>
    (\<exists>c. temp_file w' = Some (t\<lparr>file_contents := c\<rparr>) \<and> (ok \<longrightarrow> c = bytes))"
  using assms
proof (induction hooks d bytes offset w arbitrary: t rule: write_all.induct)
  case (1 hooks d bytes offset w)
  note h = leaves_files_simps [OF 1(2)]
  let ?w = "hooks DuringTempWrite w"
  let ?chunk = "take (min (transfer ?w offset) (min kIoChunk (length bytes - offset))) (drop offset bytes)"
  show ?case
  proof (cases "offset \<ge> length bytes")
    case True
    with 1(7) have "ok = True" "w' = w" by (simp_all add: write_all.simps)
    with True 1 show ?thesis by (intro conjI exI [of _ bytes]) simp_all
  next
    case False
    show ?thesis
    proof (cases "failing ?w WriteTemp \<or> ?chunk = []")
      case True
      with False 1(7) have "ok = False" "w' = ?w" by (simp_all add: write_all.simps [of hooks d bytes offset w] Let_def)
      with 1 h show ?thesis by (intro conjI exI [of _ "file_contents t"]) simp_all
    next
      case chunk: False
      let ?t = "t\<lparr>file_contents := file_contents t @ ?chunk\<rparr>"
      let ?v = "?w\<lparr>temp_file := map_option (append_to d ?chunk) (temp_file ?w)\<rparr>"
      have v: "temp_file ?v = Some ?t" using 1(3,4,5) h by (simp add: append_to_def)
      have c: "file_contents ?t = take (offset + length ?chunk) bytes"
        using 1(6) by (simp add: take_add)
      have w: "write_all hooks d bytes (offset + length ?chunk) ?v = (ok, w')"
        by (rule 1(7) [unfolded write_all.simps [of hooks d bytes offset w] Let_def if_not_P [OF False] if_not_P [OF chunk]])
      from 1(1) [OF False refl refl chunk 1(2) v _ _ c w] 1(4,5) h show ?thesis by simp
    qed
  qed
qed

lemma install_temp_files:
  assumes "leaves_files hooks" "temp_file w = Some t" "install_temp st hooks final metadata bytes w = (r, w')"
  shows "case r of
      Inr _ \<Rightarrow> final_file w' = Some t \<and> temp_file w' = None
    | Inl e \<Rightarrow> final_file w' = final_file w \<or>
        final_file w' = Some t \<and> temp_file w' = None \<and> failure_reason e \<in> {DR_PathInvalid, DR_DirectorySyncFailed}"
  using assms(2,3) leaves_files_simps [OF assms(1)] unfolding install_temp_def
  by (auto simp: Let_def make_failure_def split: if_splits option.splits)

definition holds_snapshot :: "store \<Rightarrow> world \<Rightarrow> entry list \<Rightarrow> bool" where
  "holds_snapshot st w es \<longleftrightarrow>
     accepted_snapshot es (store_account st) \<and> temp_file w = None \<and>
     (\<exists>f. final_file w = Some f \<and> file_contents f = snapshot_text es \<and>
        classify_file (stat_of f) (store_uid st) True = None)"

lemma classify_temp:
  assumes "classify_file (stat_of t) uid False = None" "length c \<le> kIdempotencyStoreMaximumBytes"
  shows "classify_file (stat_of (t\<lparr>file_contents := c\<rparr>)) uid True = None"
  using assms by (auto simp: classify_file_def stat_of_def split: if_splits)

lemma accepted_text_size:
  assumes "accepted_snapshot es account"
  shows "length (snapshot_text es) \<le> kIdempotencyStoreMaximumBytes"
  using assms canonicalisable_canon [of "snapshot_document (map entry_json es)"]
  by (simp add: accepted_snapshot_def snapshot_text_def canonicalisable_document)

lemma install_rewrite:
  assumes "leaves_files hooks" "temp_file w = Some t" "accepted_snapshot es (store_account st)"
    and "file_dev t = st_dev d" "file_ino t = st_ino d" "file_contents t = []" "classify_file (stat_of t) (store_uid st) False = None"
    and "write_all hooks d (snapshot_text es) 0 w = (True, v)"
    and "install_temp st hooks final d (snapshot_text es) v = (r, w')"
  shows "case r of
      Inr _ \<Rightarrow> holds_snapshot st w' es
    | Inl e \<Rightarrow> final_file w' = final_file w \<or>
        holds_snapshot st w' es \<and> failure_reason e \<in> {DR_PathInvalid, DR_DirectorySyncFailed}"
proof -
  from write_all_files [OF assms(1,2,4,5) _ assms(8)] assms(6)
  have v: "final_file v = final_file w" "temp_file v = Some (t\<lparr>file_contents := snapshot_text es\<rparr>)" by auto
  have c: "classify_file (stat_of (t\<lparr>file_contents := snapshot_text es\<rparr>)) (store_uid st) True = None"
    by (rule classify_temp [OF assms(7) accepted_text_size [OF assms(3)]])
  have "holds_snapshot st w' es" if "final_file w' = Some (t\<lparr>file_contents := snapshot_text es\<rparr>)" "temp_file w' = None"
    using that assms(3) c by (simp add: holds_snapshot_def)
  with install_temp_files [OF assms(1) v(2) assms(9)] v(1) show ?thesis by (auto split: sum.splits)
qed

lemma replace_final_files:
  assumes "leaves_files hooks" "replace_final st hooks final \<lparr>snapshot_entries = es, canonical_bytes = snapshot_text es\<rparr> w = (r, w')"
    and "accepted_snapshot es (store_account st)"
  shows "case r of
      Inr s \<Rightarrow> s = \<lparr>snapshot_entries = es, canonical_bytes = snapshot_text es\<rparr> \<and> holds_snapshot st w' es
    | Inl e \<Rightarrow> final_file w' = final_file w \<or>
        holds_snapshot st w' es \<and> failure_reason e \<in> {DR_PathInvalid, DR_DirectorySyncFailed}"
proof -
  note h = leaves_files_simps [OF assms(1)]
  let ?w1 = "hooks BeforeTempCreate w"
  let ?w2 = "?w1\<lparr>temp_file := Some (create_temp ?w1)\<rparr>"
  let ?t = "(create_temp ?w2)\<lparr>file_perm := 384\<rparr>"
  let ?w3 = "hooks AfterTempCreate (?w2\<lparr>temp_file := Some ?t\<rparr>)"
  have w3: "temp_file ?w3 = Some ?t" "final_file ?w3 = final_file w" by (simp_all add: h)
  have d: "descriptor_file ?t (temp_file ?w3) = ?t" unfolding w3(1) by (simp add: descriptor_file_def)
  have t: "file_dev ?t = st_dev (stat_of ?t)" "file_ino ?t = st_ino (stat_of ?t)" "file_contents ?t = []"
    by (simp_all add: stat_of_def create_temp_def)
  note eq = assms(2) [unfolded replace_final_def Let_def d]
  show ?thesis
  proof (cases "(failing ?w1 OpenTemp \<or> temp_file ?w1 \<noteq> None) \<or> failing ?w2 ChmodTemp \<or> failing ?w3 FstatTemp \<or>
      classify_file (stat_of ?t) (store_uid st) False \<noteq> None")
    case True
    with eq w3(2) show ?thesis by (auto simp: h split: if_splits option.splits)
  next
    case False
    then have cl: "classify_file (stat_of ?t) (store_uid st) False = None" by blast
    obtain ok v where a: "write_all hooks (stat_of ?t) (snapshot_text es) 0 ?w3 = (ok, v)" by fastforce
    show ?thesis
    proof (cases ok)
      case True
      obtain x u where i: "install_temp st hooks final (stat_of ?t) (snapshot_text es) v = (x, u)" by fastforce
      from False eq a i True have r: "(r, w') = (case x of Inl e \<Rightarrow> (Inl e, u) | Inr y \<Rightarrow>
          (Inr \<lparr>snapshot_entries = es, canonical_bytes = snapshot_text es\<rparr>, u))"
        by (auto split: sum.splits)
      from install_rewrite [OF assms(1) w3(1) assms(3) t cl _ i] a True w3(2) r show ?thesis by (auto split: sum.splits)
    next
      case no: False
      from write_all_files [OF assms(1) w3(1) t(1,2) _ a] t(3) w3(2) have "final_file v = final_file w" by simp
      with False eq a no show ?thesis by auto
    qed
  qed
qed

lemma rewrite_snapshot_files:
  assumes "leaves_files hooks" "rewrite_snapshot parse st hooks expected es w = (r, w')"
  shows "case r of
      Inr s \<Rightarrow> s = \<lparr>snapshot_entries = es, canonical_bytes = snapshot_text es\<rparr> \<and> holds_snapshot st w' es
    | Inl e \<Rightarrow> final_file w' = final_file w \<or>
        holds_snapshot st w' es \<and> failure_reason e \<in> {DR_PathInvalid, DR_DirectorySyncFailed}"
proof (cases "accepted_snapshot es (store_account st)")
  case True
  obtain x u where i: "inspect_image parse st hooks True w = (x, u)" by fastforce
  obtain y v where o: "open_root st hooks False u = (y, v)" by fastforce
  have f: "final_file u = final_file w" "final_file v = final_file w"
    using inspect_image_files [OF assms(1), of w parse st True] open_root_files [OF assms(1), of u st False] i o
    by (simp_all add: same_files_def)
  note eq = assms(2) [unfolded rewrite_snapshot_def canonicalize_snapshot_iff if_P [OF True] sum.case i prod.case]
  show ?thesis
  proof (cases "\<exists>img. x = Inr img \<and> \<not> (canonical_bytes (image_snapshot img) \<noteq> canonical_bytes expected \<or> image_temp img \<noteq> None) \<and> y = Inr ()")
    case replaced: True
    then obtain img :: store_image where img: "replace_final st hooks (image_final img)
        \<lparr>snapshot_entries = es, canonical_bytes = snapshot_text es\<rparr> v = (r, w')"
      using eq o by auto
    from replace_final_files [OF assms(1) img True] f(2) show ?thesis by (auto split: sum.splits)
  next
    case False
    with eq o f show ?thesis by (auto split: sum.splits if_splits)
  qed
next
  case False
  with assms(2) show ?thesis by (auto simp: rewrite_snapshot_def canonicalize_snapshot_iff)
qed

subsection \<open>Every operation\<close>

text \<open>The operations of \<open>IdempotencyStore\<close> as one step on the world.\<close>

datatype store_op =
    InsertIfAbsent entry
  | UpdateSpool string string spool_ref
  | UpdateTemporaryIds string string json
  | UpdateForwardProgress string string json
  | Complete string string json
  | RemoveOwned string string
  | ClearSpool string string
  | SweepExpired nat
  | ApplyReconciled snapshot "entry list"
  | CleanupStaleTemp

datatype op_status = OpApplied | OpUnchanged | OpIncumbent | OpFailed

fun status_of_write :: "write_status \<Rightarrow> op_status" where
  "status_of_write WriteApplied = OpApplied"
| "status_of_write WriteUnchanged = OpUnchanged"
| "status_of_write IncumbentPreserved = OpIncumbent"
| "status_of_write WriteFailed = OpFailed"

fun status_of_insert :: "insert_status \<Rightarrow> op_status" where
  "status_of_insert InsertInserted = OpApplied"
| "status_of_insert UnexpectedIncumbent = OpIncumbent"
| "status_of_insert InsertFailed = OpFailed"

definition written :: "write_result \<times> world \<Rightarrow> op_status \<times> world" where
  "written x = (status_of_write (write_status (fst x)), snd x)"

fun run_op :: "json_parser \<Rightarrow> store \<Rightarrow> hooks \<Rightarrow> store_op \<Rightarrow> world \<Rightarrow> op_status \<times> world" where
  "run_op parse st hooks (InsertIfAbsent e) w =
     (case insert_if_absent parse st hooks e w of (r, w') \<Rightarrow> (status_of_insert (insert_status r), w'))"
| "run_op parse st hooks (UpdateSpool key i spool) w = written (update_spool parse st hooks key i spool w)"
| "run_op parse st hooks (UpdateTemporaryIds key i ids) w = written (update_temporary_message_ids parse st hooks key i ids w)"
| "run_op parse st hooks (UpdateForwardProgress key i items) w = written (update_forward_progress parse st hooks key i items w)"
| "run_op parse st hooks (Complete key i t) w = written (complete parse st hooks key i t w)"
| "run_op parse st hooks (RemoveOwned key i) w = written (remove_owned parse st hooks key i w)"
| "run_op parse st hooks (ClearSpool key i) w = written (clear_spool parse st hooks key i w)"
| "run_op parse st hooks (SweepExpired now) w =
     (case sweep_expired parse st hooks now w of ((r, removed), w') \<Rightarrow> (status_of_write (write_status r), w'))"
| "run_op parse st hooks (ApplyReconciled expected desired) w =
     written (apply_reconciled_snapshot parse st hooks expected desired w)"
| "run_op parse st hooks CleanupStaleTemp w = written (cleanup_stale_temp parse st hooks w)"

definition untorn :: "store \<Rightarrow> world \<Rightarrow> world \<Rightarrow> bool" where
  "untorn st w w' \<longleftrightarrow> final_file w' = final_file w \<or> (\<exists>es. holds_snapshot st w' es)"

lemma untorn_trans: "final_file u = final_file w \<Longrightarrow> untorn st u w' \<Longrightarrow> untorn st w w'"
  by (simp add: untorn_def)

lemma rewrite_untorn:
  assumes "leaves_files hooks" "rewrite_snapshot parse st hooks expected es w = (r, w')"
  shows "untorn st w w'"
  using rewrite_snapshot_files [OF assms] by (auto simp: untorn_def split: sum.splits)

lemma inspect_image_untorn:
  "leaves_files hooks \<Longrightarrow> inspect_image parse st hooks honor w = (r, w') \<Longrightarrow> final_file w' = final_file w"
  using inspect_image_files [of hooks w parse st honor] by (simp add: same_files_def)

lemma inspect_untorn:
  "leaves_files hooks \<Longrightarrow> inspect parse st hooks w = (r, w') \<Longrightarrow> final_file w' = final_file w"
  by (auto simp: inspect_def dest: inspect_image_untorn split: prod.splits sum.splits)

lemma mutate_untorn:
  assumes "leaves_files hooks" "mutate_owned_entry parse st hooks key i f keep w = (r, w')"
  shows "untorn st w w'"
  using assms(2) inspect_image_untorn [OF assms(1)] rewrite_untorn [OF assms(1)] unfolding mutate_owned_entry_def
  by (auto simp: untorn_def Let_def split: prod.splits sum.splits option.splits if_splits) metis+

lemma insert_untorn:
  assumes "leaves_files hooks" "insert_if_absent parse st hooks e w = (r, w')"
  shows "untorn st w w'"
  using assms(2) inspect_untorn [OF assms(1)] rewrite_untorn [OF assms(1)] leaves_files_simps [OF assms(1)]
  unfolding insert_if_absent_def
  by (auto simp: untorn_def Let_def split: prod.splits sum.splits option.splits if_splits) metis+

lemma remove_untorn:
  assumes "leaves_files hooks" "remove_owned parse st hooks key i w = (r, w')"
  shows "untorn st w w'"
  using assms(2) inspect_image_untorn [OF assms(1)] rewrite_untorn [OF assms(1)] unfolding remove_owned_def
  by (auto simp: untorn_def Let_def split: prod.splits sum.splits option.splits if_splits) metis+

lemma sweep_untorn:
  assumes "leaves_files hooks" "sweep_expired parse st hooks now w = (r, w')"
  shows "untorn st w w'"
  using assms(2) inspect_untorn [OF assms(1)] rewrite_untorn [OF assms(1)] unfolding sweep_expired_def
  by (auto simp: untorn_def Let_def split: prod.splits sum.splits option.splits if_splits) metis+

lemma reconcile_untorn:
  assumes "leaves_files hooks" "apply_reconciled_snapshot parse st hooks expected desired w = (r, w')"
  shows "untorn st w w'"
  using assms(2) rewrite_untorn [OF assms(1)] unfolding apply_reconciled_snapshot_def
  by (auto simp: untorn_def split: prod.splits sum.splits if_splits)

lemma preflight_untorn:
  assumes "leaves_files hooks" "preflight_spool_update parse st hooks key i spool w = (r, w')"
  shows "final_file w' = final_file w"
  using assms(2) inspect_image_untorn [OF assms(1)] unfolding preflight_spool_update_def
  by (auto simp: Let_def split: prod.splits sum.splits option.splits if_splits)

lemma update_spool_untorn:
  assumes "leaves_files hooks" "update_spool parse st hooks key i spool w = (r, w')"
  shows "untorn st w w'"
proof -
  obtain x u where p: "preflight_spool_update parse st hooks key i spool w = (x, u)" by fastforce
  note f = preflight_untorn [OF assms(1) p]
  show ?thesis
  proof (cases x)
    case (Inl y)
    with assms(2) p f show ?thesis by (auto simp: update_spool_def untorn_def split: prod.splits)
  next
    case (Inr y)
    with assms(2) p have "mutate_owned_entry parse st hooks key i (apply_spool_transition spool (store_account st)) False u = (r, w')"
      by (simp add: update_spool_def)
    from untorn_trans [OF f mutate_untorn [OF assms(1) this]] show ?thesis .
  qed
qed

lemma cleanup_untorn:
  assumes "leaves_files hooks" "cleanup_stale_temp parse st hooks w = (r, w')"
  shows "final_file w' = final_file w"
proof -
  have o: "final_file w' = final_file w" if "open_root st hooks honor w = (r, w')" for honor w r w'
    using open_root_files [OF assms(1), of w st honor] that by (simp add: same_files_def)
  show ?thesis
    using assms(2) inspect_image_untorn [OF assms(1)] leaves_files_simps [OF assms(1)] unfolding cleanup_stale_temp_def
    by (auto simp: Let_def split: prod.splits sum.splits option.splits if_splits dest!: o)
qed

lemmas untorn_results = mutate_untorn [OF _ surjective_pairing] remove_untorn [OF _ surjective_pairing]
  reconcile_untorn [OF _ surjective_pairing] update_spool_untorn [OF _ surjective_pairing]

subsection \<open>Properties\<close>

text \<open>
  C3: whatever fails in whichever step of an operation, and wherever the process ends, the
  snapshot file of the store afterwards is the file it was before, or a private regular file that
  holds the complete canonical text of an accepted snapshot. An operation never leaves a torn or an
  over-full snapshot behind.
\<close>

theorem store_never_torn:
  assumes "leaves_files hooks" and "run_op parse st hooks operation w = (status, w')"
  shows "final_file w' = final_file w \<or> (\<exists>es. holds_snapshot st w' es)"
proof -
  have "untorn st w w'"
  proof (cases operation)
    case (InsertIfAbsent e)
    with assms show ?thesis by (auto intro: insert_untorn split: prod.splits)
  next
    case (SweepExpired now)
    with assms show ?thesis by (auto intro: sweep_untorn split: prod.splits)
  next
    case CleanupStaleTemp
    with assms cleanup_untorn [OF assms(1) surjective_pairing, of parse st w] show ?thesis by (auto simp: written_def untorn_def)
  qed (use assms in \<open>auto simp: written_def update_temporary_message_ids_def update_forward_progress_def complete_def
      clear_spool_def intro: untorn_results\<close>)
  then show ?thesis by (simp add: untorn_def)
qed

end
