(* ===== verification/Idempotency_Refinement.thy ===== *)
theory Idempotency_Refinement
  imports Idempotency_Atomic
begin

text \<open>
  The idempotency store as a map from key hashes to entries. \<open>spec_op\<close> says what an operation of
  the store promises on such a map, without files, order or positions; the operations of
  \<^theory_text>\<open>Idempotency_Store\<close> implement it when nothing fails around them. The quota theorem says that an
  update after the dispatch of a write never meets the limits of the store.
\<close>

subsection \<open>The store as a map\<close>

definition abs_store :: "entry list \<Rightarrow> string \<rightharpoonup> entry" where
  "abs_store es = map_of (map (\<lambda>e. (entry_key_hash e, e)) es)"

definition listing :: "(string \<rightharpoonup> entry) \<Rightarrow> entry list" where
  "listing m = map (\<lambda>k. the (m k)) (sorted_list_of_set (dom m))"

definition fits :: "string \<Rightarrow> (string \<rightharpoonup> entry) \<Rightarrow> bool" where
  "fits account m \<longleftrightarrow> accepted_snapshot (listing m) account"

definition spec_write :: "string \<Rightarrow> (string \<rightharpoonup> entry) \<Rightarrow> (string \<rightharpoonup> entry) \<Rightarrow> op_status \<times> (string \<rightharpoonup> entry)" where
  "spec_write account m m' = (if fits account m' then (OpApplied, m') else (OpFailed, m))"

definition spec_mutate ::
  "string \<Rightarrow> string \<Rightarrow> string \<Rightarrow> entry_mutation \<Rightarrow> (string \<rightharpoonup> entry) \<Rightarrow> op_status \<times> (string \<rightharpoonup> entry)" where
  "spec_mutate account key i f m =
     (case m key of
        None \<Rightarrow> (OpFailed, m)
      | Some e \<Rightarrow>
          if entry_invocation_id e \<noteq> i then (OpFailed, m)
          else (case f e of
                  Inl _ \<Rightarrow> (OpFailed, m)
                | Inr e' \<Rightarrow> if entry_eq e' e then (OpUnchanged, m) else spec_write account m (m(key \<mapsto> e'))))"

definition unexpired :: "nat \<Rightarrow> (string \<rightharpoonup> entry) \<Rightarrow> string \<rightharpoonup> entry" where
  "unexpired now m k = (case m k of None \<Rightarrow> None | Some e \<Rightarrow> if now \<ge> entry_expires_at e then None else Some e)"

fun spec_op :: "string \<Rightarrow> store_op \<Rightarrow> (string \<rightharpoonup> entry) \<Rightarrow> op_status \<times> (string \<rightharpoonup> entry)" where
  "spec_op account (InsertIfAbsent e) m =
     (if entry_state e \<noteq> EntryPending \<or> \<not> valid_entry e account then (OpFailed, m)
      else if m (entry_key_hash e) \<noteq> None then (OpIncumbent, m)
      else spec_write account m (m(entry_key_hash e \<mapsto> e)))"
| "spec_op account (UpdateSpool key i spool) m = spec_mutate account key i (apply_spool_transition spool account) m"
| "spec_op account (UpdateTemporaryIds key i ids) m = spec_mutate account key i (temporary_ids_transition ids) m"
| "spec_op account (UpdateForwardProgress key i items) m = spec_mutate account key i (progress_transition items) m"
| "spec_op account (Complete key i t) m = spec_mutate account key i (complete_transition t account) m"
| "spec_op account (RemoveOwned key i) m =
     (case m key of
        None \<Rightarrow> (OpUnchanged, m)
      | Some e \<Rightarrow> if entry_invocation_id e \<noteq> i then (OpIncumbent, m) else spec_write account m (m(key := None)))"
| "spec_op account (ClearSpool key i) m = spec_mutate account key i clear_spool_transition m"
| "spec_op account (SweepExpired now) m =
     (if now > kIdempotencyMaximumUnixSeconds then (OpFailed, m)
      else if unexpired now m = m then (OpUnchanged, m)
      else spec_write account m (unexpired now m))"
| "spec_op account (ApplyReconciled expected desired) m =
     (if \<not> accepted_snapshot desired account then (OpFailed, m)
      else if snapshot_text desired = canonical_bytes expected then (OpUnchanged, m)
      else if snapshot_text (listing m) \<noteq> canonical_bytes expected then (OpFailed, m)
      else (OpApplied, abs_store desired))"
| "spec_op account CleanupStaleTemp m = (OpUnchanged, m)"

subsection \<open>Lists in key order\<close>

abbreviation key_sorted :: "entry list \<Rightarrow> bool" where
  "key_sorted es \<equiv> sorted_wrt (<) (map entry_key_hash es)"

lemma key_sorted_distinct: "key_sorted es \<Longrightarrow> distinct (map entry_key_hash es)"
  by (simp add: strict_sorted_iff)

lemma abs_store_iff:
  assumes "key_sorted es"
  shows "abs_store es k = Some e \<longleftrightarrow> e \<in> set es \<and> entry_key_hash e = k"
  using key_sorted_distinct [OF assms] unfolding abs_store_def
  by (subst map_of_eq_Some_iff) (auto simp: comp_def)

lemma dom_abs_store: "dom (abs_store es) = entry_key_hash ` set es"
  unfolding abs_store_def dom_map_of_conv_image_fst by force

lemma abs_store_eqI:
  assumes "key_sorted es" "\<And>e. e \<in> set es \<longleftrightarrow> m (entry_key_hash e) = Some e" "\<And>k e. m k = Some e \<Longrightarrow> entry_key_hash e = k"
  shows "abs_store es = m"
proof (rule ext)
  fix k
  show "abs_store es k = m k"
  proof (cases "m k")
    case None
    have "abs_store es k \<noteq> Some e" for e using abs_store_iff [OF assms(1), of k e] assms(2) None by auto
    with None show ?thesis by (cases "abs_store es k") auto
  next
    case (Some e)
    with abs_store_iff [OF assms(1), of k e] assms(2,3) show ?thesis by auto
  qed
qed

lemma listing_abs: "key_sorted es \<Longrightarrow> listing (abs_store es) = es"
proof -
  assume s: "key_sorted es"
  have "sorted_list_of_set (dom (abs_store es)) = map entry_key_hash es"
    using s by (simp add: dom_abs_store strict_sorted_iff flip: set_map) (metis sorted_list_of_set.idem_if_sorted_distinct)
  moreover have "the (abs_store es (entry_key_hash e)) = e" if "e \<in> set es" for e
    using abs_store_iff [OF s, of "entry_key_hash e" e] that by simp
  ultimately show ?thesis by (simp add: listing_def map_idI)
qed

lemma key_sorted_nth: "key_sorted es \<Longrightarrow> i < j \<Longrightarrow> j < length es \<Longrightarrow> entry_key_hash (es ! i) < entry_key_hash (es ! j)"
  using sorted_wrt_nth_less [of "(<)" "map entry_key_hash es" i j] by simp

lemma find_entry_Some:
  assumes "find_entry es k = Some i"
  shows "i < length es" "entry_key_hash (es ! i) = k"
proof -
  have "i = lower_bound es k" "lower_bound es k \<noteq> length es" "entry_key_hash (es ! i) = k"
    using assms by (auto simp: find_entry_def Let_def split: if_splits)
  then show "i < length es" "entry_key_hash (es ! i) = k"
    using length_takeWhile_le [of "\<lambda>e. entry_key_hash e < k" es] by (auto simp: lower_bound_def)
qed

lemma find_entry_abs:
  assumes "key_sorted es"
  shows "abs_store es k = map_option ((!) es) (find_entry es k)"
proof (cases "find_entry es k")
  case (Some i)
  with find_entry_Some [OF Some] abs_store_iff [OF assms, of k "es ! i"] show ?thesis by simp
next
  case None
  have "entry_key_hash e \<noteq> k" if "e \<in> set es" for e
  proof
    assume k: "entry_key_hash e = k"
    obtain j where j: "j < length es" "es ! j = e" using \<open>e \<in> set es\<close> unfolding in_set_conv_nth by blast
    let ?i = "lower_bound es k"
    have i: "?i \<le> j"
    proof (rule ccontr)
      assume "\<not> ?i \<le> j"
      then have "es ! j \<in> set (takeWhile (\<lambda>e. entry_key_hash e < k) es)"
        by (metis lower_bound_def nth_mem not_le takeWhile_nth)
      then show False using set_takeWhileD [of "es ! j" "\<lambda>e. entry_key_hash e < k"] j k by auto
    qed
    have n: "\<not> entry_key_hash (es ! ?i) < k"
      using nth_length_takeWhile [of "\<lambda>e. entry_key_hash e < k" es] i j by (auto simp: lower_bound_def)
    with key_sorted_nth [OF assms, of ?i j] i j k have "?i = j" by (cases "?i = j") auto
    with None j k show False by (auto simp: find_entry_def Let_def)
  qed
  then have "k \<notin> dom (abs_store es)" by (auto simp: dom_abs_store)
  with None show ?thesis by (auto simp: domIff)
qed

lemma key_sorted_insert:
  assumes "key_sorted es" "find_entry es (entry_key_hash e) = None"
  shows "key_sorted (insert_at es (lower_bound es (entry_key_hash e)) e)"
    and "abs_store (insert_at es (lower_bound es (entry_key_hash e)) e) = (abs_store es)(entry_key_hash e \<mapsto> e)"
proof -
  let ?k = "entry_key_hash e" and ?P = "\<lambda>x. entry_key_hash x < entry_key_hash e"
  have split: "take (lower_bound es ?k) es = takeWhile ?P es" "drop (lower_bound es ?k) es = dropWhile ?P es"
    unfolding lower_bound_def by (rule takeWhile_eq_take [symmetric], rule dropWhile_eq_drop [symmetric])
  have absent: "entry_key_hash x \<noteq> ?k" if "x \<in> set es" for x
    using find_entry_abs [OF assms(1), of ?k] assms(2) abs_store_iff [OF assms(1), of ?k x] that by simp
  have "key_sorted (takeWhile ?P es @ dropWhile ?P es)" using assms(1) by simp
  then have s: "key_sorted (takeWhile ?P es)" "key_sorted (dropWhile ?P es)"
    "\<forall>x \<in> set (takeWhile ?P es). \<forall>y \<in> set (dropWhile ?P es). entry_key_hash x < entry_key_hash y"
    unfolding map_append sorted_wrt_append by auto
  have high: "?k < entry_key_hash y" if y: "y \<in> set (dropWhile ?P es)" for y
  proof (cases "dropWhile ?P es")
    case (Cons z zs)
    have "\<not> entry_key_hash z < ?k" using Cons by (metis hd_dropWhile list.distinct(1) list.sel(1))
    moreover have "z \<in> set es" using Cons set_dropWhileD [of z ?P es] by simp
    ultimately have z: "?k < entry_key_hash z" using absent [of z] by auto
    have "y = z \<or> entry_key_hash z < entry_key_hash y" using y s(2) unfolding Cons by auto
    with z show ?thesis by auto
  next
    case Nil
    from y [unfolded Nil] show ?thesis by simp
  qed
  show sorted: "key_sorted (insert_at es (lower_bound es ?k) e)"
    unfolding insert_at_def split using s high
    by (auto simp: sorted_wrt_append sorted_wrt_map dest: set_takeWhileD intro: order_less_trans)
  have set: "set (insert_at es (lower_bound es ?k) e) = insert e (set es)"
    by (simp add: insert_at_def) (metis append_take_drop_id set_append)
  show "abs_store (insert_at es (lower_bound es ?k) e) = (abs_store es)(?k \<mapsto> e)"
    by (rule abs_store_eqI [OF sorted]) (auto simp: set abs_store_iff [OF assms(1)] absent split: if_splits)
qed

lemma key_sorted_update:
  assumes "key_sorted es" "i < length es" "entry_key_hash e = entry_key_hash (es ! i)"
  shows "key_sorted (es[i := e])" "abs_store (es[i := e]) = (abs_store es)(entry_key_hash (es ! i) \<mapsto> e)"
proof -
  have k: "map entry_key_hash (es[i := e]) = map entry_key_hash es"
    using assms(2,3) by (auto simp: map_update intro!: nth_equalityI simp: nth_list_update)
  then show s: "key_sorted (es[i := e])" using assms(1) by simp
  have d: "distinct (map entry_key_hash es)" by (rule key_sorted_distinct [OF assms(1)])
  have inj: "j = i" if "j < length es" "entry_key_hash (es ! j) = entry_key_hash (es ! i)" for j
    using d that assms(2) by (simp add: distinct_conv_nth) (metis)
  show "abs_store (es[i := e]) = (abs_store es)(entry_key_hash (es ! i) \<mapsto> e)"
  proof (rule abs_store_eqI [OF s])
    fix x
    show "x \<in> set (es[i := e]) \<longleftrightarrow> ((abs_store es)(entry_key_hash (es ! i) \<mapsto> e)) (entry_key_hash x) = Some x"
      using inj assms(2,3) abs_store_iff [OF assms(1), of "entry_key_hash x" x]
      by (auto simp: in_set_conv_nth nth_list_update split: if_splits) metis+
  qed (use assms(3) abs_store_iff [OF assms(1)] in \<open>auto split: if_splits\<close>)
qed

lemma key_sorted_remove:
  assumes "key_sorted es" "i < length es"
  shows "key_sorted (remove_at es i)" "abs_store (remove_at es i) = (abs_store es)(entry_key_hash (es ! i) := None)"
proof -
  have es: "es = take i es @ es ! i # drop (i + 1) es" using assms(2) by (simp add: id_take_nth_drop)
  have s: "sorted_wrt (<) (map entry_key_hash (take i es) @ entry_key_hash (es ! i) # map entry_key_hash (drop (i + 1) es))"
    using assms(1) by (subst (asm) es) simp
  then show sorted: "key_sorted (remove_at es i)" by (auto simp: remove_at_def sorted_wrt_append)
  have set: "x \<in> set (remove_at es i) \<longleftrightarrow> x \<in> set es \<and> entry_key_hash x \<noteq> entry_key_hash (es ! i)" for x
  proof -
    have "x \<in> set es \<longleftrightarrow> x \<in> set (remove_at es i) \<or> x = es ! i" by (subst es) (auto simp: remove_at_def)
    moreover have "entry_key_hash x \<noteq> entry_key_hash (es ! i)" if "x \<in> set (remove_at es i)"
      using s that by (auto simp: remove_at_def sorted_wrt_append)
    ultimately show ?thesis by auto
  qed
  show "abs_store (remove_at es i) = (abs_store es)(entry_key_hash (es ! i) := None)"
    by (rule abs_store_eqI [OF sorted]) (auto simp: set abs_store_iff [OF assms(1)] split: if_splits)
qed

lemma key_sorted_filter:
  assumes "key_sorted es"
  shows "key_sorted (filter P es)"
  using assms by (induction es) auto

lemma unexpired_Some: "unexpired now m k = Some e \<longleftrightarrow> m k = Some e \<and> \<not> now \<ge> entry_expires_at e"
  by (auto simp: unexpired_def split: option.splits)

lemma abs_store_unexpired:
  assumes "key_sorted es"
  shows "abs_store (filter (\<lambda>e. \<not> now \<ge> entry_expires_at e) es) = unexpired now (abs_store es)"
  by (rule abs_store_eqI [OF key_sorted_filter [OF assms]])
    (auto simp: unexpired_Some abs_store_iff [OF assms])

subsection \<open>A world in which nothing fails\<close>

definition no_hooks :: hooks where
  "no_hooks stage w = w"

definition quiet :: "store \<Rightarrow> world \<Rightarrow> bool" where
  "quiet st w \<longleftrightarrow>
     lease_error w = None \<and> scan_interruption w = None \<and> (\<forall>c. \<not> failing w c) \<and> (\<forall>n. transfer w n > 0) \<and>
     classify_root (state_root w) (store_uid st) = None \<and> process_uid w = store_uid st"

text \<open>The world in which the store reads as \<open>es\<close>.\<close>

definition reads :: "json_parser \<Rightarrow> store \<Rightarrow> world \<Rightarrow> entry list \<Rightarrow> bool" where
  "reads parse st w es \<longleftrightarrow>
     quiet st w \<and> temp_file w = None \<and>
     (case final_file w of
        None \<Rightarrow> es = []
      | Some f \<Rightarrow> classify_file (stat_of f) (store_uid st) True = None \<and>
          decode_snapshot parse (file_contents f) (store_account st) =
            Inr \<lparr>snapshot_entries = es, canonical_bytes = file_contents f\<rparr>)"

lemma accepted_empty: "accepted_snapshot [] account"
proof -
  have q: "length (quoted ''entries'') = 9" "length (quoted ''schema_version'') = 16"
    by (simp_all add: quoted_def esc_def append_character_def quote_char_def backslash_char_def byte_of_def)
  have "text_size (JInt 1) = 1"
    by (simp add: text_size_def canonical_json_canon to_string_int_def to_string_nat.simps)
  then show ?thesis
    by (simp add: accepted_snapshot_def text_size_document q kIdempotencyStoreMaximumBytes_def)
qed

lemma decode_accepted:
  assumes "decode_snapshot parse bytes account = Inr s"
  shows "accepted_snapshot (snapshot_entries s) account" "canonical_bytes s = bytes" "bytes = snapshot_text (snapshot_entries s)"
  using assms by (auto simp: decode_snapshot_def canonicalize_snapshot_iff split: if_splits option.splits prod.splits)

lemma reads_accepted: "reads parse st w es \<Longrightarrow> accepted_snapshot es (store_account st)"
  using decode_accepted(1) [of parse _ "store_account st"] accepted_empty
  by (fastforce simp: reads_def split: option.splits)

lemma quietD:
  assumes "quiet st w"
  shows "lease_error w = None" "scan_interruption w = None" "\<not> failing w c" "transfer w n > 0"
    "classify_root (state_root w) (store_uid st) = None" "process_uid w = store_uid st"
    "st_kind (state_root w) \<noteq> SymbolicLink"
  using assms by (auto simp: quiet_def classify_root_def split: if_splits)

lemma open_root_quiet: "quiet st w \<Longrightarrow> open_root st no_hooks honor w = (Inr (), w)"
  by (simp add: open_root_def no_hooks_def quietD Let_def)

lemma read_loop_quiet:
  assumes "quiet st w" "final_file w = Some f" "acc = take (length acc) (file_contents f)"
  shows "read_loop st no_hooks honor f (length (file_contents f)) acc w = (Inr (file_contents f), w)"
  using assms
proof (induction "length (file_contents f) - length acc" arbitrary: acc rule: less_induct)
  case less
  note q = quietD [OF less(2)]
  show ?case
  proof (cases "length acc \<ge> length (file_contents f)")
    case True
    with less(4) have "acc = file_contents f" by simp
    then show ?thesis by (simp add: read_loop.simps)
  next
    case False
    let ?n = "min (transfer w (length acc)) (min kIoChunk (length (file_contents f) - length acc))"
    let ?c = "take ?n (drop (length acc) (file_contents f))"
    have n: "?n > 0" using q(4) [of "length acc"] False by (simp add: kIoChunk_def)
    have c: "?c \<noteq> []" using n False by simp
    have a: "acc @ ?c = take (length (acc @ ?c)) (file_contents f)"
      using less(4) False by (simp add: take_add min_def)
    have l: "length (acc @ ?c) = length acc + ?n" by simp
    have "length (file_contents f) - length (acc @ ?c) < length (file_contents f) - length acc"
      unfolding l using n False by linarith
    from less(1) [OF this less(2,3) a] have r:
      "read_loop st no_hooks honor f (length (file_contents f)) (acc @ ?c) w = (Inr (file_contents f), w)" .
    have d: "descriptor_file f (final_file w) = f" using less(3) by (simp add: descriptor_file_def)
    show ?thesis using False c r q(2,3)
      by (subst read_loop.simps) (simp add: no_hooks_def Let_def d del: take_eq_Nil)
  qed
qed

lemma inspect_image_quiet:
  assumes "reads parse st w es"
  shows "inspect_image parse st no_hooks True w =
    (Inr \<lparr>image_snapshot = \<lparr>snapshot_entries = es, canonical_bytes = snapshot_text es\<rparr>,
       image_final = map_option stat_of (final_file w), image_temp = None\<rparr>, w)"
proof -
  have q: "quiet st w" and t: "temp_file w = None" using assms by (simp_all add: reads_def)
  note d = quietD [OF q]
  have f: "inspect_final parse st no_hooks True w =
      (Inr (\<lparr>snapshot_entries = es, canonical_bytes = snapshot_text es\<rparr>, map_option stat_of (final_file w)), w)"
  proof (cases "final_file w")
    case None
    then show ?thesis using assms d(3)
      by (simp add: reads_def inspect_final_def canonicalize_snapshot_iff accepted_empty)
  next
    case (Some f)
    then have cl: "classify_file (stat_of f) (store_uid st) True = None"
      and de: "decode_snapshot parse (file_contents f) (store_account st) =
            Inr \<lparr>snapshot_entries = es, canonical_bytes = file_contents f\<rparr>"
      using assms by (simp_all add: reads_def)
    have c: "file_contents f = snapshot_text es" using decode_accepted(3) [OF de] by simp
    have r: "read_stable_file st no_hooks True (stat_of f) w = (Inr (file_contents f, stat_of f), w)"
      using read_loop_quiet [OF q Some, of "[]" True] d(3) Some cl
      by (simp add: read_stable_file_def same_identity_def descriptor_file_def no_hooks_def Let_def)
    show ?thesis using Some cl d(3) r de c by (simp add: inspect_final_def)
  qed
  show ?thesis using f t d(3) by (simp add: inspect_image_def open_root_quiet [OF q] no_hooks_def Let_def)
qed

lemma write_all_quiet:
  assumes "quiet st w" "temp_file w = Some t" "file_dev t = st_dev d" "file_ino t = st_ino d"
  shows "write_all no_hooks d bytes offset w =
    (True, w\<lparr>temp_file := Some (t\<lparr>file_contents := file_contents t @ drop offset bytes\<rparr>)\<rparr>)"
  using assms
proof (induction "length bytes - offset" arbitrary: w t offset rule: less_induct)
  case less
  note q = quietD [OF less(2)]
  show ?case
  proof (cases "offset \<ge> length bytes")
    case True
    with less(3) show ?thesis by (simp add: write_all.simps)
  next
    case False
    let ?n = "min (transfer w offset) (min kIoChunk (length bytes - offset))"
    let ?c = "take ?n (drop offset bytes)"
    let ?t = "t\<lparr>file_contents := file_contents t @ ?c\<rparr>"
    have n: "?n > 0" using q(4) [of offset] False by (simp add: kIoChunk_def)
    have c: "?c \<noteq> []" using n False by simp
    have l: "length ?c = ?n" by simp
    have lt: "length bytes - (offset + ?n) < length bytes - offset" using n False by linarith
    have qv: "quiet st (w\<lparr>temp_file := Some ?t\<rparr>)" using less(2) by (simp add: quiet_def)
    have r: "write_all no_hooks d bytes (offset + ?n) (w\<lparr>temp_file := Some ?t\<rparr>) =
        (True, (w\<lparr>temp_file := Some ?t\<rparr>)\<lparr>temp_file := Some (?t\<lparr>file_contents := file_contents ?t @ drop (offset + ?n) bytes\<rparr>)\<rparr>)"
      by (rule less(1) [OF lt qv]) (use less(4,5) in simp_all)
    have a: "?c @ drop (offset + ?n) bytes = drop offset bytes"
      by (metis add.commute append_take_drop_id drop_drop)
    have "write_all no_hooks d bytes offset w = write_all no_hooks d bytes (offset + ?n) (w\<lparr>temp_file := Some ?t\<rparr>)"
      using False c q(3) less(3,4,5) unfolding write_all.simps [of no_hooks d bytes offset w]
      by (simp add: no_hooks_def Let_def append_to_def l del: take_eq_Nil length_take)
    also note r
    also have "(w\<lparr>temp_file := Some ?t\<rparr>)\<lparr>temp_file := Some (?t\<lparr>file_contents := file_contents ?t @ drop (offset + ?n) bytes\<rparr>)\<rparr> =
        w\<lparr>temp_file := Some (t\<lparr>file_contents := file_contents t @ drop offset bytes\<rparr>)\<rparr>"
      using a by simp
    finally show ?thesis .
  qed
qed

lemma install_temp_quiet:
  assumes "quiet st w" "temp_file w = Some t" "same_file_object metadata (stat_of t)" "length (file_contents t) = length bytes"
  shows "install_temp st no_hooks (map_option stat_of (final_file w)) metadata bytes w =
    (Inr (), w\<lparr>final_file := Some t, temp_file := None\<rparr>)"
  using assms quietD(3) [OF assms(1)]
  by (cases "final_file w") (simp_all add: install_temp_def no_hooks_def Let_def stat_of_def same_identity_def)

lemma no_hooks_leaves_files: "leaves_files no_hooks"
  by (simp add: leaves_files_def no_hooks_def)

lemma rewrite_quiet:
  assumes "reads parse st w es" "accepted_snapshot es' (store_account st)"
  shows "\<exists>w'. rewrite_snapshot parse st no_hooks \<lparr>snapshot_entries = es, canonical_bytes = snapshot_text es\<rparr> es' w =
    (Inr \<lparr>snapshot_entries = es', canonical_bytes = snapshot_text es'\<rparr>, w') \<and> holds_snapshot st w' es'"
proof -
  have q: "quiet st w" and t: "temp_file w = None" using assms(1) by (simp_all add: reads_def)
  note d = quietD [OF q]
  let ?w1 = "w\<lparr>temp_file := Some (create_temp w)\<rparr>"
  let ?t = "(create_temp ?w1)\<lparr>file_perm := 384\<rparr>"
  let ?w2 = "w\<lparr>temp_file := Some ?t\<rparr>"
  have q2: "quiet st ?w2" using q by (simp add: quiet_def)
  have cl: "classify_file (stat_of ?t) (store_uid st) False = None"
    by (simp add: classify_file_def stat_of_def create_temp_def d(6))
  have t2: "file_dev ?t = st_dev (stat_of ?t)" "file_ino ?t = st_ino (stat_of ?t)" "file_contents ?t = []"
    by (simp_all add: stat_of_def create_temp_def)
  have wr: "write_all no_hooks (stat_of ?t) (snapshot_text es') 0 ?w2 =
      (True, w\<lparr>temp_file := Some (?t\<lparr>file_contents := snapshot_text es'\<rparr>)\<rparr>)"
    using write_all_quiet [OF q2 _ t2(1,2), of "snapshot_text es'" 0] t2(3) by simp
  let ?w3 = "w\<lparr>temp_file := Some (?t\<lparr>file_contents := snapshot_text es'\<rparr>)\<rparr>"
  have q3: "quiet st ?w3" using q by (simp add: quiet_def)
  have ins: "\<exists>w'. install_temp st no_hooks (map_option stat_of (final_file w)) (stat_of ?t) (snapshot_text es') ?w3 = (Inr (), w')"
    using install_temp_quiet [OF q3, of "?t\<lparr>file_contents := snapshot_text es'\<rparr>" "stat_of ?t" "snapshot_text es'"]
    by (simp add: same_file_object_def stat_of_def)
  have "\<exists>w'. rewrite_snapshot parse st no_hooks \<lparr>snapshot_entries = es, canonical_bytes = snapshot_text es\<rparr> es' w =
    (Inr \<lparr>snapshot_entries = es', canonical_bytes = snapshot_text es'\<rparr>, w')"
    using ins d(3) t assms(2)
    by (auto simp: rewrite_snapshot_def canonicalize_snapshot_iff inspect_image_quiet [OF assms(1)] open_root_quiet [OF q]
        replace_final_def no_hooks_def Let_def descriptor_file_def cl wr)
  then obtain w' where "rewrite_snapshot parse st no_hooks \<lparr>snapshot_entries = es, canonical_bytes = snapshot_text es\<rparr> es' w =
    (Inr \<lparr>snapshot_entries = es', canonical_bytes = snapshot_text es'\<rparr>, w')" by blast
  with rewrite_snapshot_files [OF no_hooks_leaves_files this] show ?thesis by auto
qed

lemma rewrite_rejected:
  "\<not> accepted_snapshot es' (store_account st) \<Longrightarrow> \<exists>e. rewrite_snapshot parse st hooks expected es' w = (Inl e, w)"
  by (simp add: rewrite_snapshot_def canonicalize_snapshot_iff)

subsection \<open>Every operation refines its specification\<close>

text \<open>What the directory holds after an operation.\<close>

definition keeps_snapshot :: "store \<Rightarrow> world \<Rightarrow> entry list \<Rightarrow> bool" where
  "keeps_snapshot st w es \<longleftrightarrow>
     temp_file w = None \<and> (if final_file w = None then es = [] else holds_snapshot st w es)"

lemma reads_keeps: "reads parse st w es \<Longrightarrow> keeps_snapshot st w es"
  using decode_accepted [of parse _ "store_account st"]
  by (fastforce simp: reads_def keeps_snapshot_def holds_snapshot_def split: option.splits)

lemma holds_keeps: "holds_snapshot st w es \<Longrightarrow> keeps_snapshot st w es"
  by (auto simp: holds_snapshot_def keeps_snapshot_def)

lemma accepted_sorted: "accepted_snapshot es account \<Longrightarrow> key_sorted es"
  by (simp add: accepted_snapshot_def)

definition refines :: "store \<Rightarrow> entry list \<Rightarrow> op_status \<times> world \<Rightarrow> op_status \<times> (string \<rightharpoonup> entry) \<Rightarrow> bool" where
  "refines st es step spec \<longleftrightarrow>
     (\<exists>es'. keeps_snapshot st (snd step) es' \<and> (fst step, abs_store es') = spec)"

lemma refines_same: "reads parse st w es \<Longrightarrow> refines st es (status, w) (status, abs_store es)"
  using reads_keeps [of parse st w es] by (auto simp: refines_def)

lemma refines_write:
  assumes "reads parse st w es" "key_sorted es'"
    and "rewrite_snapshot parse st no_hooks \<lparr>snapshot_entries = es, canonical_bytes = snapshot_text es\<rparr> es' w = (r, w')"
  shows "refines st es (if isl r then OpFailed else OpApplied, w') (spec_write (store_account st) (abs_store es) (abs_store es'))"
proof (cases "accepted_snapshot es' (store_account st)")
  case True
  with rewrite_quiet [OF assms(1)] assms(3) holds_keeps show ?thesis
    by (fastforce simp: refines_def spec_write_def fits_def listing_abs [OF assms(2)])
next
  case False
  from rewrite_rejected [OF False, of parse no_hooks "\<lparr>snapshot_entries = es, canonical_bytes = snapshot_text es\<rparr>" w] assms(3)
  have "w' = w \<and> isl r" by fastforce
  with False refines_same [OF assms(1), of OpFailed] show ?thesis
    by (simp add: spec_write_def fits_def listing_abs [OF assms(2)])
qed

lemma mutate_refines:
  assumes "reads parse st w es" and key: "\<And>e e'. f e = Inr e' \<Longrightarrow> entry_key_hash e' = entry_key_hash e"
  shows "refines st es (written (mutate_owned_entry parse st no_hooks k i f False w))
    (spec_mutate (store_account st) k i f (abs_store es))"
proof -
  have s: "key_sorted es" using accepted_sorted [OF reads_accepted [OF assms(1)]] .
  note same = refines_same [OF assms(1)]
  note img = inspect_image_quiet [OF assms(1)]
  show ?thesis
  proof (cases "find_entry es k")
    case None
    then show ?thesis using same [of OpFailed]
      by (simp add: spec_mutate_def find_entry_abs [OF s] mutate_owned_entry_def img written_def write_failed_def)
  next
    case (Some n)
    note n = find_entry_Some [OF Some]
    have a: "abs_store es k = Some (es ! n)" using find_entry_abs [OF s, of k] Some by simp
    show ?thesis
    proof (cases "entry_invocation_id (es ! n) \<noteq> i \<or> isl (f (es ! n)) \<or> entry_eq (projr (f (es ! n))) (es ! n)")
      case True
      then show ?thesis using same [of OpFailed] same [of OpUnchanged] Some a
        by (auto simp: spec_mutate_def mutate_owned_entry_def img written_def write_failed_def write_done_def split: sum.splits)
    next
      case False
      then obtain e where e: "f (es ! n) = Inr e" "\<not> entry_eq e (es ! n)" "entry_invocation_id (es ! n) = i"
        by (cases "f (es ! n)") auto
      obtain r w' where r: "rewrite_snapshot parse st no_hooks \<lparr>snapshot_entries = es, canonical_bytes = snapshot_text es\<rparr>
          (es[n := e]) w = (r, w')" by fastforce
      note u = key_sorted_update [OF s n(1) key [OF e(1)]]
      from refines_write [OF assms(1) u(1) r] have
        "refines st es (if isl r then OpFailed else OpApplied, w') (spec_write (store_account st) (abs_store es) ((abs_store es)(k \<mapsto> e)))"
        unfolding u(2) n(2) .
      then show ?thesis using Some a e r
        by (cases r) (simp_all add: spec_mutate_def mutate_owned_entry_def img written_def write_failed_def write_done_def)
    qed
  qed
qed

lemma transitions_keep_key:
  "apply_spool_transition spool account e = Inr e' \<Longrightarrow> entry_key_hash e' = entry_key_hash e"
  "temporary_ids_transition ids e = Inr e' \<Longrightarrow> entry_key_hash e' = entry_key_hash e"
  "progress_transition items e = Inr e' \<Longrightarrow> entry_key_hash e' = entry_key_hash e"
  "complete_transition t account e = Inr e' \<Longrightarrow> entry_key_hash e' = entry_key_hash e"
  "clear_spool_transition e = Inr e' \<Longrightarrow> entry_key_hash e' = entry_key_hash e"
  by (auto simp: apply_spool_transition_def temporary_ids_transition_def progress_transition_def complete_transition_def
      clear_spool_transition_def completed_entry_def Let_def split: if_splits option.splits)

lemma spool_update_refines:
  assumes "reads parse st w es"
  shows "refines st es (written (update_spool parse st no_hooks k i spool w))
    (spec_mutate (store_account st) k i (apply_spool_transition spool (store_account st)) (abs_store es))"
proof -
  let ?f = "apply_spool_transition spool (store_account st)"
  have acc: "accepted_snapshot es (store_account st)" by (rule reads_accepted [OF assms])
  have s: "key_sorted es" using accepted_sorted [OF acc] .
  note img = inspect_image_quiet [OF assms]
  obtain x u where p: "preflight_spool_update parse st no_hooks k i spool w = (x, u)" by fastforce
  show ?thesis
  proof (cases x)
    case (Inr y)
    with p have "u = w" by (auto simp: preflight_spool_update_def img Let_def split: option.splits if_splits sum.splits)
    with p Inr mutate_refines [OF assms transitions_keep_key(1)] show ?thesis by (simp add: update_spool_def)
  next
    case (Inl y)
    with p have u: "u = w" by (auto simp: preflight_spool_update_def img Let_def split: option.splits if_splits sum.splits)
    have "spec_mutate (store_account st) k i ?f (abs_store es) = (OpFailed, abs_store es)"
    proof (cases "find_entry es k")
      case None
      then show ?thesis by (simp add: spec_mutate_def find_entry_abs [OF s])
    next
      case (Some n)
      note n = find_entry_Some [OF Some]
      have a: "abs_store es k = Some (es ! n)" using find_entry_abs [OF s, of k] Some by simp
      show ?thesis
      proof (cases "entry_invocation_id (es ! n) = i \<and> \<not> isl (?f (es ! n))")
        case True
        then obtain e where e: "?f (es ! n) = Inr e" by (cases "?f (es ! n)") auto
        with True p Inl Some have rej: "\<not> accepted_snapshot (es[n := e]) (store_account st)"
          by (auto simp: preflight_spool_update_def img canonicalize_snapshot_iff)
        from e have f: "e = (es ! n)\<lparr>entry_spool := Some spool\<rparr>"
          by (auto simp: apply_spool_transition_def Let_def split: if_splits)
        have "\<not> entry_eq e (es ! n)"
        proof
          assume "entry_eq e (es ! n)"
          with f have "e = es ! n" by (cases "es ! n") (simp add: entry_eq_def)
          with rej acc show False by simp
        qed
        moreover note u = key_sorted_update [OF s n(1) transitions_keep_key(1) [OF e]]
        moreover have "\<not> fits (store_account st) ((abs_store es)(k \<mapsto> e))"
          using rej u(2) n(2) listing_abs [OF u(1)] by (simp add: fits_def)
        ultimately show ?thesis using a e by (simp add: spec_mutate_def spec_write_def)
      qed (use a in \<open>auto simp: spec_mutate_def split: sum.splits\<close>)
    qed
    with u p Inl refines_same [OF assms, of OpFailed] show ?thesis
      by (cases y) (simp add: update_spool_def written_def write_failed_def)
  qed
qed

lemma insert_refines:
  assumes "reads parse st w es"
  shows "refines st es (run_op parse st no_hooks (InsertIfAbsent e) w) (spec_op (store_account st) (InsertIfAbsent e) (abs_store es))"
proof -
  have acc: "accepted_snapshot es (store_account st)" by (rule reads_accepted [OF assms])
  have s: "key_sorted es" using accepted_sorted [OF acc] .
  have ins: "inspect parse st no_hooks w = (Inr (\<lparr>snapshot_entries = es, canonical_bytes = snapshot_text es\<rparr>, False), w)"
    by (simp add: inspect_def inspect_image_quiet [OF assms])
  note same = refines_same [OF assms]
  show ?thesis
  proof (cases "entry_state e \<noteq> EntryPending \<or> \<not> valid_entry e (store_account st)")
    case True
    then show ?thesis using same [of OpFailed] by (auto simp: insert_if_absent_def insert_failed_def)
  next
    case ok: False
    show ?thesis
    proof (cases "find_entry es (entry_key_hash e)")
      case (Some n)
      then show ?thesis using ok same [of OpIncumbent] by (simp add: insert_if_absent_def ins find_entry_abs [OF s])
    next
      case None
      let ?es = "insert_at es (lower_bound es (entry_key_hash e)) e"
      note u = key_sorted_insert [OF s None]
      have fit: "fits (store_account st) ((abs_store es)(entry_key_hash e \<mapsto> e)) \<longleftrightarrow> accepted_snapshot ?es (store_account st)"
        using listing_abs [OF u(1)] u(2) by (simp add: fits_def)
      have len: "length ?es = length es + 1" by (simp add: insert_at_def)
      obtain r w' where r: "rewrite_snapshot parse st no_hooks \<lparr>snapshot_entries = es, canonical_bytes = snapshot_text es\<rparr> ?es w = (r, w')"
        by fastforce
      show ?thesis
      proof (cases "accepted_snapshot ?es (store_account st)")
        case True
        then have "length es < kIdempotencyStoreMaximumEntries" using len by (simp add: accepted_snapshot_def)
        moreover have "\<not> isl r" using rewrite_quiet [OF assms True] r by auto
        moreover note refines_write [OF assms u(1) r, unfolded u(2)]
        ultimately show ?thesis using ok None True r
          by (cases r) (simp_all add: insert_if_absent_def ins find_entry_abs [OF s] no_hooks_def canonicalize_snapshot_iff)
      next
        case False
        then show ?thesis using ok None same [of OpFailed] fit
          by (auto simp: insert_if_absent_def ins find_entry_abs [OF s] no_hooks_def canonicalize_snapshot_iff insert_failed_def spec_write_def Let_def)
      qed
    qed
  qed
qed

lemma remove_refines:
  assumes "reads parse st w es"
  shows "refines st es (run_op parse st no_hooks (RemoveOwned k i) w) (spec_op (store_account st) (RemoveOwned k i) (abs_store es))"
proof -
  have s: "key_sorted es" using accepted_sorted [OF reads_accepted [OF assms]] .
  note img = inspect_image_quiet [OF assms] and same = refines_same [OF assms]
  show ?thesis
  proof (cases "find_entry es k")
    case None
    then show ?thesis using same [of OpUnchanged] by (simp add: remove_owned_def img written_def write_done_def find_entry_abs [OF s])
  next
    case (Some n)
    note n = find_entry_Some [OF Some] and u = key_sorted_remove [OF s find_entry_Some(1) [OF Some]]
    obtain r w' where r: "rewrite_snapshot parse st no_hooks \<lparr>snapshot_entries = es, canonical_bytes = snapshot_text es\<rparr>
        (remove_at es n) w = (r, w')" by fastforce
    from refines_write [OF assms u(1) r, unfolded u(2) n(2)] Some r same [of OpIncumbent] show ?thesis
      by (cases r) (auto simp: remove_owned_def img written_def write_done_def write_failed_def find_entry_abs [OF s])
  qed
qed

lemma sweep_refines:
  assumes "reads parse st w es"
  shows "refines st es (run_op parse st no_hooks (SweepExpired now) w) (spec_op (store_account st) (SweepExpired now) (abs_store es))"
proof -
  have s: "key_sorted es" using accepted_sorted [OF reads_accepted [OF assms]] .
  have ins: "inspect parse st no_hooks w = (Inr (\<lparr>snapshot_entries = es, canonical_bytes = snapshot_text es\<rparr>, False), w)"
    by (simp add: inspect_def inspect_image_quiet [OF assms])
  note same = refines_same [OF assms]
  let ?keep = "filter (\<lambda>e. \<not> now \<ge> entry_expires_at e) es"
  have none: "filter (\<lambda>e. now \<ge> entry_expires_at e) es = [] \<longleftrightarrow> unexpired now (abs_store es) = abs_store es"
  proof
    assume "unexpired now (abs_store es) = abs_store es"
    then have "listing (abs_store ?keep) = listing (abs_store es)" unfolding abs_store_unexpired [OF s] by simp
    then have "?keep = es" by (simp add: listing_abs [OF s] listing_abs [OF key_sorted_filter [OF s]])
    then have "e \<in> set ?keep" if "e \<in> set es" for e using that by simp
    then show "filter (\<lambda>e. now \<ge> entry_expires_at e) es = []" by (auto simp: filter_empty_conv)
  next
    assume "filter (\<lambda>e. now \<ge> entry_expires_at e) es = []"
    then have "?keep = es" by (simp add: filter_empty_conv filter_id_conv)
    then show "unexpired now (abs_store es) = abs_store es" using abs_store_unexpired [OF s, of now] by simp
  qed
  obtain r w' where r: "rewrite_snapshot parse st no_hooks \<lparr>snapshot_entries = es, canonical_bytes = snapshot_text es\<rparr> ?keep w = (r, w')"
    by fastforce
  from refines_write [OF assms key_sorted_filter [OF s] r, unfolded abs_store_unexpired [OF s]] r
    same [of OpUnchanged] same [of OpFailed] none show ?thesis
    by (cases r) (auto simp: sweep_expired_def ins Let_def write_done_def write_failed_def)
qed

lemma reconcile_refines:
  assumes "reads parse st w es"
  shows "refines st es (run_op parse st no_hooks (ApplyReconciled expected desired) w)
    (spec_op (store_account st) (ApplyReconciled expected desired) (abs_store es))"
proof -
  have s: "key_sorted es" using accepted_sorted [OF reads_accepted [OF assms]] .
  note img = inspect_image_quiet [OF assms] and same = refines_same [OF assms]
  show ?thesis
  proof (cases "accepted_snapshot desired (store_account st) \<and> snapshot_text desired \<noteq> canonical_bytes expected")
    case True
    show ?thesis
    proof (cases "snapshot_text es = canonical_bytes expected")
      case expected: True
      have "rewrite_snapshot parse st no_hooks expected desired w =
          rewrite_snapshot parse st no_hooks \<lparr>snapshot_entries = es, canonical_bytes = snapshot_text es\<rparr> desired w"
        unfolding rewrite_snapshot_def snapshot.select_convs expected ..
      then obtain w' where "rewrite_snapshot parse st no_hooks expected desired w =
          (Inr \<lparr>snapshot_entries = desired, canonical_bytes = snapshot_text desired\<rparr>, w')" "holds_snapshot st w' desired"
        using rewrite_quiet [OF assms, of desired] True by auto
      with True expected holds_keeps show ?thesis
        by (auto simp: refines_def apply_reconciled_snapshot_def canonicalize_snapshot_iff listing_abs [OF s] written_def write_done_def)
    next
      case False
      with True same [of OpFailed] show ?thesis
        by (auto simp: apply_reconciled_snapshot_def canonicalize_snapshot_iff listing_abs [OF s] written_def write_failed_def
            rewrite_snapshot_def img)
    qed
  next
    case False
    with same [of OpFailed] same [of OpUnchanged] show ?thesis
      by (auto simp: apply_reconciled_snapshot_def canonicalize_snapshot_iff written_def write_failed_def write_done_def)
  qed
qed

lemma run_op_refines:
  assumes "reads parse st w es"
  shows "refines st es (run_op parse st no_hooks operation w) (spec_op (store_account st) operation (abs_store es))"
proof (cases operation)
  case CleanupStaleTemp
  then show ?thesis using refines_same [OF assms, of OpUnchanged]
    by (simp add: cleanup_stale_temp_def inspect_image_quiet [OF assms] written_def write_done_def)
qed (use insert_refines [OF assms] remove_refines [OF assms] sweep_refines [OF assms] reconcile_refines [OF assms]
    spool_update_refines [OF assms] mutate_refines [OF assms transitions_keep_key(2)] mutate_refines [OF assms transitions_keep_key(3)]
    mutate_refines [OF assms transitions_keep_key(4)] mutate_refines [OF assms transitions_keep_key(5)] in
    \<open>simp_all add: update_temporary_message_ids_def update_forward_progress_def complete_def clear_spool_def del: run_op.simps(1,6,8,9) spec_op.simps(1,6,8,9)\<close>)

subsection \<open>The reservation of an entry\<close>

text \<open>The transitions of an entry after its write was dispatched, with the key and the invocation they are
  called for.\<close>

fun settling :: "string \<Rightarrow> store_op \<Rightarrow> (string \<times> string \<times> entry_mutation) option" where
  "settling account (UpdateTemporaryIds k i ids) = Some (k, i, temporary_ids_transition ids)"
| "settling account (UpdateForwardProgress k i items) = Some (k, i, progress_transition items)"
| "settling account (Complete k i t) = Some (k, i, complete_transition t account)"
| "settling account (ClearSpool k i) = Some (k, i, clear_spool_transition)"
| "settling account _ = None"

lemma settling_spec:
  "settling account operation = Some (k, i, f) \<Longrightarrow> spec_op account operation m = spec_mutate account k i f m"
  by (cases operation) auto

text \<open>What the settling transitions change in an entry.\<close>

lemma settling_entry:
  assumes "settling account operation = Some (k, i, f)" "f e = Inr e'"
  shows "e' = e \<or>
    entry_state e = EntryPending \<and> (\<exists>ids. e' = e\<lparr>entry_temporary_ids := ids\<rparr> \<and>
      validate_persisted_temporary_ids (entry_operation e) ids (entry_plan e)) \<or>
    entry_state e = EntryPending \<and> (\<exists>items. e' = e\<lparr>entry_progress := items\<rparr> \<and>
      validate_persisted_forward_progress (entry_operation e) items (entry_plan e)) \<or>
    entry_state e = EntryPending \<and> (\<exists>t. e' = completed_entry t e \<and>
      validate_persisted_terminal (entry_operation e) t (entry_plan e) account) \<or>
    entry_state e = EntryCompleted \<and> e' = e\<lparr>entry_spool := None\<rparr>"
  using assms
  by (cases operation) (auto simp: temporary_ids_transition_def progress_transition_def complete_transition_def
      clear_spool_transition_def split: if_splits option.splits intro: entry_state.exhaust [of "entry_state e"])

lemma valid_entry_iff:
  "valid_entry e account \<longleftrightarrow>
     (valid_digest (entry_key_hash e) \<and> valid_digest (entry_fingerprint e) \<and>
      write_operation_idempotent (Some (entry_operation e)) \<and> valid_hex (entry_invocation_id e) 32 \<and>
      entry_generation e \<noteq> 0 \<and> entry_created_at e \<le> kIdempotencyMaximumUnixSeconds \<and>
      entry_expires_at e \<le> kIdempotencyMaximumUnixSeconds \<and>
      entry_created_at e \<le> kIdempotencyMaximumUnixSeconds - kIdempotencyRetentionSeconds \<and>
      entry_expires_at e = entry_created_at e + kIdempotencyRetentionSeconds \<and>
      valid_plan (entry_operation e) (entry_plan e) account) \<and>
     validate_persisted_temporary_ids (entry_operation e) (entry_temporary_ids e) (entry_plan e) \<and>
     validate_persisted_forward_progress (entry_operation e) (entry_progress e) (entry_plan e) \<and>
     (\<forall>spool. entry_spool e = Some spool \<longrightarrow> validate_persisted_spool spool (entry_invocation_id e)) \<and>
     (\<exists>charge. mutable_charge e = Some charge \<and> charge \<le> account_audit_terminal_reservation (entry_operation e)) \<and>
     (if entry_state e = EntryPending
      then entry_terminal e = None \<and> entry_reserved_bytes e = account_audit_terminal_reservation (entry_operation e)
      else entry_reserved_bytes e = 0 \<and> jempty (entry_temporary_ids e) \<and> jempty (entry_progress e) \<and>
           (\<exists>t. entry_terminal e = Some t \<and> validate_persisted_terminal (entry_operation e) t (entry_plan e) account))"
  unfolding valid_entry_def not_less [symmetric] by (auto split: option.splits)

lemma settling_valid:
  assumes "settling account operation = Some (k, i, f)" "f e = Inr e'" "valid_entry e account"
    and "mutable_charge e' = Some charge" "charge \<le> account_audit_terminal_reservation (entry_operation e)"
  shows "valid_entry e' account"
  using settling_entry [OF assms(1,2)]
proof (elim disjE conjE exE)
  fix t
  assume "entry_state e = EntryPending" "e' = completed_entry t e"
    "validate_persisted_terminal (entry_operation e) t (entry_plan e) account"
  then show ?thesis using assms(3-5)
    by (simp add: valid_entry_iff completed_entry_def validate_persisted_temporary_ids_def validate_persisted_forward_progress_def jempty_def)
qed (use assms(3-5) in \<open>auto simp: valid_entry_iff\<close>)

lemma settling_cost:
  assumes "settling account operation = Some (k, i, f)" "f e = Inr e'" "valid_entry e account" "valid_entry e' account"
    and "canonicalisable (entry_json e)"
  shows "canonicalisable (entry_json e') \<and> entry_cost e' \<le> entry_cost e \<and> entry_key_hash e' = entry_key_hash e \<and>
    entry_invocation_id e' = entry_invocation_id e"
proof -
  have m: "entry_mutables e'" by (rule valid_entry_charge(2) [OF assms(4)])
  have ce: "canonicalisable_members (fixed_members e)" "canonicalisable (spool_field e)"
    using assms(5) by (simp_all add: canonicalisable_entry)
  have r: "entry_state e = EntryPending \<Longrightarrow> entry_reserved_bytes e = account_audit_terminal_reservation (entry_operation e)"
    using assms(3) by (simp add: valid_entry_iff)
  have q: "entry_charge e' \<le> account_audit_terminal_reservation (entry_operation e')"
    using valid_entry_charge(3) [OF assms(4)] by simp
  note digits = to_string_nat_length_3 [OF terminal_reservation_bounds(1) [of "entry_operation e"]]
  have zero: "length (to_string_nat 0) = 1" by (simp add: to_string_nat.simps)
  from settling_entry [OF assms(1,2)] have shape: "fixed_members e' = fixed_members e" "entry_key_hash e' = entry_key_hash e"
      "entry_invocation_id e' = entry_invocation_id e" "canonicalisable (spool_field e')"
      "text_size (spool_field e') \<le> text_size (spool_field e)"
    using ce(2) spool_field_size [OF ce(2)]
    by (auto simp: fixed_members_def completed_entry_def spool_field_def split: option.splits)
  have c: "canonicalisable (entry_json e')" using ce m shape by (simp add: canonicalisable_entry)
  have "entry_cost e' \<le> entry_cost e"
    using settling_entry [OF assms(1,2)]
  proof (elim disjE conjE exE)
    fix t
    assume p: "entry_state e = EntryPending" and t: "e' = completed_entry t e"
    have "entry_operation e' = entry_operation e" using t by (simp add: completed_entry_def)
    with q p t r digits zero shape(1,5) show ?thesis
      unfolding entry_cost_eq [OF assms(5,3)] entry_cost_eq [OF c assms(4)]
      by (simp add: completed_entry_def state_name_def quoted_states)
  next
    assume "entry_state e = EntryCompleted" "e' = e\<lparr>entry_spool := None\<rparr>"
    with shape(1,5) show ?thesis
      unfolding entry_cost_eq [OF assms(5,3)] entry_cost_eq [OF c assms(4)]
      by (simp add: state_name_def entry_charge_def terminal_json_def)
  next
    fix ids
    assume "entry_state e = EntryPending" "e' = e\<lparr>entry_temporary_ids := ids\<rparr>"
    with shape(1,5) show ?thesis
      unfolding entry_cost_eq [OF assms(5,3)] entry_cost_eq [OF c assms(4)] by (simp add: state_name_def)
  next
    fix items
    assume "entry_state e = EntryPending" "e' = e\<lparr>entry_progress := items\<rparr>"
    with shape(1,5) show ?thesis
      unfolding entry_cost_eq [OF assms(5,3)] entry_cost_eq [OF c assms(4)] by (simp add: state_name_def)
  qed simp
  with c shape show ?thesis by simp
qed

lemma settling_fits:
  assumes "accepted_snapshot es account" "n < length es" "settling account operation = Some (k, i, f)" "f (es ! n) = Inr e'"
    and "mutable_charge e' = Some charge" "charge \<le> account_audit_terminal_reservation (entry_operation (es ! n))"
  shows "accepted_snapshot (es[n := e']) account"
proof -
  have v: "valid_entry (es ! n) account" and c: "canonicalisable (entry_json (es ! n))"
    using assms(1,2) by (auto simp: accepted_snapshot_def canonicalisable_items_all list_all_iff)
  note v' = settling_valid [OF assms(3,4) v assms(5,6)]
  from settling_cost [OF assms(3,4) v v' c] accepted_snapshot_update [OF assms(1,2) v'] show ?thesis by simp
qed

subsection \<open>Properties\<close>

text \<open>
  C2: when the store reads as a list of entries and nothing fails around it, every operation
  does on the directory what its specification does on the map from key hashes to entries: it
  reports the same status, and the directory holds the canonical snapshot of the same map
  afterwards. Positions found by binary search, the order of the entries and the rewrite of the
  file are not visible in the specification.
\<close>

theorem store_refines_map:
  assumes "reads parse st w es"
  shows "\<exists>es'. keeps_snapshot st (snd (run_op parse st no_hooks operation w)) es' \<and>
    (fst (run_op parse st no_hooks operation w), abs_store es') = spec_op (store_account st) operation (abs_store es)"
  using run_op_refines [OF assms] by (simp add: refines_def)


end
