(* ===== verification/Idempotency_Decode.thy ===== *)
theory Idempotency_Decode
  imports Idempotency_Refinement Audit_Groups
begin

text \<open>
  Reading a snapshot back, and the references to attachment spools in it. The JSON parser is a
  parameter of the decoder; on the text of a snapshot it is taken to report the events and the
  document of that text, integers that are not negative being stored as unsigned ones.
\<close>

subsection \<open>What a parser reports\<close>

fun stored_json :: "json \<Rightarrow> json"
  and stored_items :: "json list \<Rightarrow> json list"
  and stored_members :: "(string \<times> json) list \<Rightarrow> (string \<times> json) list"
where
  "stored_json (JInt i) = (if i \<ge> 0 then JUInt (nat i) else JInt i)"
| "stored_json (JArray vs) = JArray (stored_items vs)"
| "stored_json (JObject ms) = JObject (stored_members ms)"
| "stored_json v = v"
| "stored_items [] = []"
| "stored_items (v # vs) = stored_json v # stored_items vs"
| "stored_members [] = []"
| "stored_members ((k, v) # ms) = (k, stored_json v) # stored_members ms"

fun json_events :: "nat \<Rightarrow> json \<Rightarrow> parse_event list"
  and item_events :: "nat \<Rightarrow> json list \<Rightarrow> parse_event list"
  and member_events :: "nat \<Rightarrow> (string \<times> json) list \<Rightarrow> parse_event list"
where
  "json_events depth (JArray vs) = OtherEvent # item_events (depth + 1) vs @ [OtherEvent]"
| "json_events depth (JObject ms) = ObjectStart depth # member_events (depth + 1) ms @ [ObjectEnd depth]"
| "json_events depth v = [OtherEvent]"
| "item_events depth [] = []"
| "item_events depth (v # vs) = json_events depth v @ item_events depth vs"
| "member_events depth [] = []"
| "member_events depth ((k, v) # ms) = ObjectKey depth k # json_events depth v @ member_events depth ms"

fun unique_keys :: "json \<Rightarrow> bool"
  and unique_item_keys :: "json list \<Rightarrow> bool"
  and unique_member_keys :: "(string \<times> json) list \<Rightarrow> bool"
where
  "unique_keys (JArray vs) = unique_item_keys vs"
| "unique_keys (JObject ms) = (distinct (map fst ms) \<and> unique_member_keys ms)"
| "unique_keys v = True"
| "unique_item_keys [] = True"
| "unique_item_keys (v # vs) = (unique_keys v \<and> unique_item_keys vs)"
| "unique_member_keys [] = True"
| "unique_member_keys ((k, v) # ms) = (unique_keys v \<and> unique_member_keys ms)"

lemma fst_stored_members [simp]: "map fst (stored_members ms) = map fst ms"
  by (induction ms) auto

lemma stored_items_map: "stored_items vs = map stored_json vs"
  by (induction vs) simp_all

lemma unique_item_keys_all: "unique_item_keys vs \<longleftrightarrow> list_all unique_keys vs"
  by (induction vs) simp_all

lemma unique_keys_stored [simp]:
  "unique_keys (stored_json v) = unique_keys v"
  "unique_item_keys (stored_items vs) = unique_item_keys vs"
  "unique_member_keys (stored_members ms) = unique_member_keys ms"
  by (induction v and vs and ms rule: stored_json_stored_items_stored_members.induct) auto

text \<open>The callback finds no duplicate in a document whose objects have distinct keys.\<close>

lemma callback_unique:
  "unique_keys v \<Longrightarrow> duplicate (fold parse_callback (json_events depth v) s) = duplicate s \<and>
     (\<forall>d \<le> depth. object_keys (fold parse_callback (json_events depth v) s) d = object_keys s d)"
  "unique_item_keys vs \<Longrightarrow> duplicate (fold parse_callback (item_events depth vs) s) = duplicate s \<and>
     (\<forall>d \<le> depth. object_keys (fold parse_callback (item_events depth vs) s) d = object_keys s d)"
  "unique_member_keys ms \<Longrightarrow> distinct (map fst ms) \<Longrightarrow> object_keys s depth \<inter> set (map fst ms) = {} \<Longrightarrow>
     duplicate (fold parse_callback (member_events depth ms) s) = duplicate s \<and>
     (\<forall>d < depth. object_keys (fold parse_callback (member_events depth ms) s) d = object_keys s d)"
proof (induction depth v and depth vs and depth ms arbitrary: s and s and s rule: json_events_item_events_member_events.induct)
  case (1 depth vs)
  then show ?case by simp
next
  case (2 depth ms)
  let ?s = "s\<lparr>object_keys := (object_keys s)(depth + 1 := {})\<rparr>"
  have "duplicate (fold parse_callback (member_events (depth + 1) ms) ?s) = duplicate ?s \<and>
     (\<forall>d < depth + 1. object_keys (fold parse_callback (member_events (depth + 1) ms) ?s) d = object_keys ?s d)"
    using 2 by simp
  then show ?case by (simp add: less_Suc_eq_le)
next
  case (7 depth k v ms)
  let ?s = "s\<lparr>object_keys := (object_keys s)(depth := insert k (object_keys s depth))\<rparr>"
  let ?t = "fold parse_callback (json_events depth v) ?s"
  have k: "parse_callback (ObjectKey depth k) s = ?s" using 7 by auto
  have t: "duplicate ?t = duplicate ?s" "\<forall>d \<le> depth. object_keys ?t d = object_keys ?s d"
    using 7(1) [of ?s] 7(3) by auto
  have "duplicate (fold parse_callback (member_events depth ms) ?t) = duplicate ?t \<and>
     (\<forall>d < depth. object_keys (fold parse_callback (member_events depth ms) ?t) d = object_keys ?t d)"
    by (rule 7(2)) (use 7(3-5) t in auto)
  with t k show ?case by (simp del: parse_callback.simps)
qed auto

subsection \<open>Entries and their documents\<close>

text \<open>An entry as the decoder builds it: documents as the parser stores them, times of a spool file in
  the range of \<open>std::int64_t\<close>.\<close>

definition parsed_json :: "json \<Rightarrow> bool" where
  "parsed_json v \<longleftrightarrow> stored_json v = v \<and> unique_keys v"

definition int64_range :: "int \<Rightarrow> bool" where
  "int64_range i \<longleftrightarrow> - (2 ^ 63) \<le> i \<and> i < 2 ^ 63"

definition parsed_entry :: "entry \<Rightarrow> bool" where
  "parsed_entry e \<longleftrightarrow>
     parsed_json (entry_plan e) \<and> parsed_json (entry_temporary_ids e) \<and> parsed_json (entry_progress e) \<and>
     (case entry_terminal e of None \<Rightarrow> True | Some t \<Rightarrow> parsed_json t) \<and>
     (case entry_spool e of
        None \<Rightarrow> True
      | Some spool \<Rightarrow> int64_range (fs_mtime_ns (spool_file spool)) \<and> int64_range (fs_ctime_ns (spool_file spool)))"

lemma get_int64_stored: "int64_range i \<Longrightarrow> get_int64 (stored_json (JInt i)) = i"
  using as_int64_small [of "nat i"] by (auto simp: int64_range_def)

lemma parse_spool_roundtrip:
  assumes "int64_range (fs_mtime_ns (spool_file spool))" "int64_range (fs_ctime_ns (spool_file spool))"
    and "validate_persisted_spool spool i"
  shows "parse_spool (stored_json (spool_json spool)) i = Some spool"
proof -
  let ?f = "JObject [(''ctime_ns'', stored_json (JInt (fs_ctime_ns (spool_file spool)))), (''device'', JUInt (fs_device (spool_file spool))),
       (''inode'', JUInt (fs_inode (spool_file spool))), (''mtime_ns'', stored_json (JInt (fs_mtime_ns (spool_file spool)))),
       (''name'', JString (fs_name (spool_file spool))), (''path'', JString (fs_path (spool_file spool))),
       (''sha256'', JString (fs_sha256 (spool_file spool))), (''size'', JUInt (fs_size (spool_file spool)))]"
  have f: "stored_json (spool_json spool) = JObject [(''file'', ?f), (''relative_path'', JString (relative_path spool))]"
    by (simp add: spool_json_def file_snapshot_json_def)
  have "\<lparr>relative_path = relative_path spool, spool_file = file_snapshot_from_audit ?f\<rparr> = spool"
    using get_int64_stored [OF assms(1)] get_int64_stored [OF assms(2)]
    by (cases spool, cases "spool_file spool") (simp add: file_snapshot_from_audit_def field_def del: stored_json.simps(1))
  moreover have "is_number_integer (stored_json (JInt x))" for x by simp
  ultimately show ?thesis using assms(3)
    by (simp add: parse_spool_def f exact_fields_def contains_def field_def Let_def del: stored_json.simps(1))
qed

lemma terminal_not_null: "validate_persisted_terminal operation t plan account \<Longrightarrow> t \<noteq> JNull"
  by (auto simp: validate_persisted_terminal_def valid_terminal_def valid_stored_error_def json_eval split: if_splits)

lemma parse_entry_roundtrip:
  assumes "valid_entry e account" "parsed_entry e"
  shows "parse_entry (stored_json (entry_json e)) account = Some e"
proof -
  note v = assms(1) [unfolded valid_entry_iff]
  let ?sp = "case entry_spool e of None \<Rightarrow> JNull | Some spool \<Rightarrow> stored_json (spool_json spool)"
  have terminal: "stored_json (terminal_json e) = terminal_json e" "terminal_json e = JNull \<longleftrightarrow> entry_terminal e = None"
    using assms(2) v terminal_not_null by (auto simp: parsed_entry_def terminal_json_def parsed_json_def split: option.splits if_splits)
  have doc: "stored_json (entry_json e) =
     JObject [(''audit_generation'', JUInt (entry_generation e)), (''created_at'', JUInt (entry_created_at e)),
       (''expires_at'', JUInt (entry_expires_at e)), (''forward_progress'', entry_progress e),
       (''invocation_id'', JString (entry_invocation_id e)), (''key_hash'', JString (entry_key_hash e)),
       (''operation'', JString (account_audit_operation_name (entry_operation e))), (''plan'', entry_plan e),
       (''request_fingerprint'', JString (entry_fingerprint e)),
       (''reserved_terminal_bytes'', JUInt (entry_reserved_bytes e)), (''spool'', ?sp),
       (''state'', JString (if entry_state e = EntryPending then ''pending'' else ''completed'')),
       (''temporary_message_ids'', entry_temporary_ids e), (''terminal'', terminal_json e)]"
    using assms(2) terminal by (simp add: entry_json_def parsed_entry_def parsed_json_def split: option.splits)
  have small: "entry_reserved_bytes e \<le> 4294967295"
    using v terminal_reservation_bounds(2) [of "entry_operation e"]
    by (auto simp: kIdempotencyStoreMaximumBytes_def split: if_splits)
  define d where "d = stored_json (entry_json e)"
  have fields: "exact_fields d [''key_hash'', ''request_fingerprint'', ''operation'', ''state'', ''invocation_id'',
      ''audit_generation'', ''created_at'', ''expires_at'', ''reserved_terminal_bytes'', ''plan'',
      ''temporary_message_ids'', ''forward_progress'', ''spool'', ''terminal'']"
    "field d ''key_hash'' = JString (entry_key_hash e)" "field d ''request_fingerprint'' = JString (entry_fingerprint e)"
    "field d ''operation'' = JString (account_audit_operation_name (entry_operation e))"
    "field d ''invocation_id'' = JString (entry_invocation_id e)" "field d ''audit_generation'' = JUInt (entry_generation e)"
    "field d ''created_at'' = JUInt (entry_created_at e)" "field d ''expires_at'' = JUInt (entry_expires_at e)"
    "field d ''reserved_terminal_bytes'' = JUInt (entry_reserved_bytes e)" "field d ''plan'' = entry_plan e"
    "field d ''temporary_message_ids'' = entry_temporary_ids e" "field d ''forward_progress'' = entry_progress e"
    "field d ''terminal'' = terminal_json e" "field d ''spool'' = ?sp"
    "field d ''state'' = JString (if entry_state e = EntryPending then ''pending'' else ''completed'')"
    unfolding d_def doc by (simp_all add: exact_fields_def contains_def field_def)
  have spool: "(if field d ''spool'' = JNull then Some None
      else map_option Some (parse_spool (field d ''spool'') (string_of (field d ''invocation_id'')))) = Some (entry_spool e)"
    using assms(2) v parse_spool_roundtrip
    by (auto simp: fields parsed_entry_def spool_json_def split: option.splits)
  have t: "(if field d ''terminal'' = JNull then None else Some (field d ''terminal'')) = entry_terminal e"
    using terminal(2) by (cases "entry_terminal e") (simp_all add: terminal_json_def fields)
  have op: "parse_account_audit_operation (string_of (field d ''operation'')) = Some (entry_operation e)"
    by (simp add: operation_of_name fields)
  have state: "(if json_eq (field d ''state'') (JString ''pending'') then Some EntryPending
      else if json_eq (field d ''state'') (JString ''completed'') then Some EntryCompleted else None) = Some (entry_state e)"
    by (cases "entry_state e") (simp_all add: fields)
  have valid: "valid_digest (entry_key_hash e)" "valid_digest (entry_fingerprint e)"
    "write_operation_idempotent (Some (entry_operation e))" using v by simp_all
  have whole: "\<lparr>entry_key_hash = entry_key_hash e, entry_fingerprint = entry_fingerprint e, entry_operation = entry_operation e,
      entry_state = entry_state e, entry_invocation_id = entry_invocation_id e, entry_generation = entry_generation e,
      entry_created_at = entry_created_at e, entry_expires_at = entry_expires_at e, entry_reserved_bytes = entry_reserved_bytes e,
      entry_plan = entry_plan e, entry_temporary_ids = entry_temporary_ids e, entry_progress = entry_progress e,
      entry_spool = entry_spool e, entry_terminal = entry_terminal e\<rparr> = e"
    by simp
  show ?thesis using small valid assms(1)
    unfolding parse_entry_def d_def [symmetric] op state spool t option.case Let_def by (simp add: fields whole)
qed

lemma parse_entries_roundtrip:
  "\<forall>e \<in> set es. valid_entry e account \<and> parsed_entry e \<Longrightarrow>
   parse_entries (map (\<lambda>e. stored_json (entry_json e)) es) account = Some es"
  by (induction es) (simp_all add: parse_entry_roundtrip)

lemma unique_keys_entry:
  assumes "parsed_entry e"
  shows "unique_keys (entry_json e)"
  using assms by (auto simp: entry_json_def parsed_entry_def parsed_json_def terminal_json_def spool_json_def file_snapshot_json_def
      split: option.splits)

subsection \<open>Spool references\<close>

lemma find_slash_Some:
  assumes "find_slash s p = Some n"
  shows "p \<le> n" "drop p s = take (n - p) (drop p s) @ CHR ''/'' # drop (n + 1) s" "CHR ''/'' \<notin> set (take (n - p) (drop p s))"
proof -
  let ?t = "takeWhile (\<lambda>c. c \<noteq> CHR ''/'') (drop p s)"
  have n: "n = p + length ?t" and m: "CHR ''/'' \<in> set (drop p s)"
    using assms by (auto simp: find_slash_def split: if_splits)
  then show "p \<le> n" by simp
  have t: "take (n - p) (drop p s) = ?t" unfolding n by (simp add: takeWhile_eq_take [symmetric])
  show "CHR ''/'' \<notin> set (take (n - p) (drop p s))" unfolding t by (auto dest: set_takeWhileD)
  show "drop p s = take (n - p) (drop p s) @ CHR ''/'' # drop (n + 1) s"
    using split_at_first [OF m] unfolding t by (simp add: n add.commute)
qed

lemma find_slash_found:
  assumes "CHR ''/'' \<notin> set a" "p = length q"
  shows "find_slash (q @ a @ CHR ''/'' # r) p = Some (p + length a)"
proof -
  have "takeWhile (\<lambda>c. c \<noteq> CHR ''/'') (a @ CHR ''/'' # r) = a" using assms(1) by (induction a) auto
  then show ?thesis using assms(2) by (simp add: find_slash_def)
qed

lemma parse_spool_path_iff:
  "parse_spool_path reference = Some (i, name) \<longleftrightarrow>
     relative_path reference = ''spool/'' @ i @ ''/'' @ name \<and> valid_hex i 32 \<and> valid_basename name \<and>
     name = fs_name (spool_file reference)"
  (is "?l \<longleftrightarrow> ?r")
proof
  let ?p = "relative_path reference"
  assume ?l
  then obtain a b where ab: "find_slash ?p 0 = Some a" "find_slash ?p (a + 1) = Some b"
    and rest: "take a ?p = ''spool''" "i = take (b - a - 1) (drop (a + 1) ?p)" "name = drop (b + 1) ?p"
      "valid_hex i 32" "valid_basename name" "name = fs_name (spool_file reference)"
    by (auto simp: parse_spool_path_def Let_def split: option.splits if_splits)
  have "?p = take a ?p @ CHR ''/'' # drop (a + 1) ?p" using find_slash_Some(2) [OF ab(1)] by simp
  moreover have "drop (a + 1) ?p = i @ CHR ''/'' # name"
    using find_slash_Some(2) [OF ab(2)] rest(2,3) by simp
  ultimately show ?r using rest by simp
next
  assume r: ?r
  let ?p = "relative_path reference"
  have i: "CHR ''/'' \<notin> set i" using r by (auto simp: valid_hex_def list_all_iff is_lower_hex_def char_between_def byte_of_def)
  have n: "CHR ''/'' \<notin> set name" using r unfolding valid_basename_def by blast
  have p: "?p = ''spool/'' @ i @ CHR ''/'' # name" using r by simp
  have a: "find_slash ?p 0 = Some 5" unfolding p by (simp add: find_slash_def)
  have b: "find_slash ?p 6 = Some (6 + length i)"
    unfolding p by (rule find_slash_found [OF i]) simp
  have len: "length (''spool/'' @ i @ ''/'') = 6 + length i + 1" by simp
  have "?p = (''spool/'' @ i @ ''/'') @ name" using p by simp
  then have d: "drop (6 + length i + 1) ?p = name" unfolding len [symmetric] by (metis append_eq_conv_conj)
  have c: "find_slash ?p (6 + length i + 1) = None" unfolding find_slash_def d using n by simp
  have t: "take 5 ?p = ''spool''" "drop 6 ?p = i @ CHR ''/'' # name"
    unfolding p by simp_all
  have "valid_hex i 32" "valid_basename name" "fs_name (spool_file reference) = name" using r by blast+
  with a b c t d show ?l by (simp add: parse_spool_path_def Let_def)
qed

lemma decode_roundtrip:
  assumes "accepted_snapshot es account" and "\<forall>e \<in> set es. parsed_entry e"
    and "parse (snapshot_text es) = (let document = stored_json (snapshot_document (map entry_json es))
                                    in (json_events 0 document, Some document))"
  shows "decode_snapshot parse (snapshot_text es) account = Inr \<lparr>snapshot_entries = es, canonical_bytes = snapshot_text es\<rparr>"
proof -
  let ?d = "stored_json (snapshot_document (map entry_json es))"
  have d: "?d = JObject [(''entries'', JArray (map (\<lambda>e. stored_json (entry_json e)) es)), (''schema_version'', JUInt 1)]"
    by (simp add: snapshot_document_def stored_items_map comp_def)
  have u: "unique_keys ?d"
    using assms(2) unique_keys_entry by (simp add: snapshot_document_def unique_item_keys_all list_all_iff stored_items_map)
  have doc: "parse_document parse (snapshot_text es) = (Some ?d, False)"
    using callback_unique(1) [OF u, of 0 "\<lparr>object_keys = (\<lambda>_. {}), duplicate = False\<rparr>"]
    by (simp add: parse_document_def assms(3) Let_def)
  have ne: "snapshot_text es \<noteq> []"
    using assms(1) canonicalisable_canon [of "snapshot_document (map entry_json es)"] canon_hd [of "snapshot_document (map entry_json es)"]
    by (simp add: snapshot_text_def accepted_snapshot_def canonicalisable_document canonical_json_canon)
  have len: "length es \<le> kIdempotencyStoreMaximumEntries" and valid: "\<forall>e \<in> set es. valid_entry e account"
    using assms(1) by (simp_all add: accepted_snapshot_def)
  have entries: "parse_entries (map (\<lambda>e. stored_json (entry_json e)) es) account = Some es"
    using parse_entries_roundtrip [of es account] valid assms(2) by blast
  show ?thesis using ne doc len entries assms(1)
    unfolding decode_snapshot_def d
    by (simp add: exact_fields_def contains_def field_def canonicalize_snapshot_iff as_int64_def)
qed

subsection \<open>Properties\<close>


text \<open>
  C40: the store records a spool only for \<open>saved_attach\<close>. For an entry of any other operation
  \<open>update_spool\<close> fails, in every account and whatever the spool. \<open>chat_set_photo\<close> is idempotent and
  spools its source file too: with an idempotency key it passes its \<open>spool_ready\<close> checkpoint and
  then always ends in this failure.
\<close>

theorem spool_only_for_attachments:
  assumes "reads parse st w es" and "e \<in> set es" and "entry_operation e \<noteq> A_SavedAttach"
  shows "fst (run_op parse st no_hooks (UpdateSpool (entry_key_hash e) (entry_invocation_id e) spool) w) = OpFailed \<and>
    write_operation_idempotent (Some A_ChatSetPhoto) \<and> write_operation_uses_photo_spool (Some A_ChatSetPhoto)"
proof -
  have s: "key_sorted es" by (rule accepted_sorted [OF reads_accepted [OF assms(1)]])
  have "abs_store es (entry_key_hash e) = Some e" using abs_store_iff [OF s] assms(2) by simp
  moreover have "apply_spool_transition spool (store_account st) e = Inl ''invalid spool transition''"
    using assms(3) by (simp add: apply_spool_transition_def)
  ultimately have "fst (spec_op (store_account st) (UpdateSpool (entry_key_hash e) (entry_invocation_id e) spool) (abs_store es)) = OpFailed"
    by (simp add: spec_mutate_def)
  with run_op_refines [OF assms(1), of "UpdateSpool (entry_key_hash e) (entry_invocation_id e) spool"]
  have "fst (run_op parse st no_hooks (UpdateSpool (entry_key_hash e) (entry_invocation_id e) spool) w) = OpFailed"
    unfolding refines_def by (metis fst_conv)
  moreover have "write_operation_idempotent (Some A_ChatSetPhoto)" "write_operation_uses_photo_spool (Some A_ChatSetPhoto)"
    by code_simp+
  ultimately show ?thesis by simp
qed

end
