(* ===== verification/Audit_Terminals.thy ===== *)
theory Audit_Terminals
  imports Audit_Recovery
begin

text \<open>
  \<^bold>\<open>Terminals the daemon derives\<close>: the shape of the values that a forward vector stores, and the two terminals that
  recovery builds itself, the incomplete terminal and the terminal of a complete forward vector, as terminals
  the validator accepts.
\<close>

subsection \<open>Shapes of stored values\<close>

fun json_depth :: "json \<Rightarrow> nat"
  and items_depth :: "json list \<Rightarrow> nat"
  and members_depth :: "(string \<times> json) list \<Rightarrow> nat"
where
  "json_depth (JArray vs) = items_depth vs"
| "json_depth (JObject ms) = members_depth ms"
| "json_depth _ = 0"
| "items_depth [] = 0"
| "items_depth (v # vs) = max (Suc (json_depth v)) (items_depth vs)"
| "members_depth [] = 0"
| "members_depth ((k, v) # ms) = max (Suc (json_depth v)) (members_depth ms)"

lemma tree_ok_move:
  "tree_ok d v \<Longrightarrow> e + json_depth v \<le> 32 \<Longrightarrow> tree_ok e v"
  "trees_ok d vs \<Longrightarrow> e + items_depth vs \<le> Suc 32 \<Longrightarrow> trees_ok e vs"
  "members_ok d ms \<Longrightarrow> e + members_depth ms \<le> Suc 32 \<Longrightarrow> members_ok e ms"
  by (induction v and vs and ms arbitrary: d e and d e and d e rule: json_depth_items_depth_members_depth.induct) auto

lemma tree_ok_field:
  assumes "tree_ok d v" "contains v k"
  shows "tree_ok (Suc d) (field v k)"
proof -
  from assms(2) obtain ms x where v: "v = JObject ms" "map_of ms k = Some x"
    by (cases v) (auto simp: contains_def)
  with assms(1) map_of_SomeD [OF v(2)] show ?thesis by (auto simp: field_def members_ok_iff)
qed

lemma exact_members:
  assumes "exact_fields v names" "distinct names"
  obtains ms where "v = JObject ms" "mset ms = mset (map (\<lambda>k. (k, field v k)) names)"
proof -
  from assms(1) obtain ms where v: "v = JObject ms" "length ms = length names"
    by (auto simp: exact_fields_def is_object_iff)
  have keys: "set (map fst ms) = set names" using exact_fields_keys [OF assms] v(1) by simp
  then have "card (set (map fst ms)) = length (map fst ms)" using v(2) assms(2) by (simp add: distinct_card)
  then have dist: "distinct (map fst ms)" by (rule card_distinct)
  then have "mset (map fst ms) = mset names" using keys assms(2) by (metis set_eq_iff_mset_eq_distinct)
  moreover have "map (\<lambda>m. (fst m, field v (fst m))) ms = ms"
    using dist by (intro map_idI) (auto simp: v(1) field_def map_of_is_SomeI)
  then have "ms = map (\<lambda>k. (k, field v k)) (map fst ms)" by (simp add: comp_def)
  ultimately have "mset ms = mset (map (\<lambda>k. (k, field v k)) names)" by (metis mset_map)
  with v(1) show thesis by (rule that)
qed

lemma exact_nodes:
  assumes "exact_fields v names" "distinct names"
  shows "tree_nodes v = Suc (sum_list (map (\<lambda>k. tree_nodes (field v k)) names))"
proof -
  obtain ms where v: "v = JObject ms" "mset ms = mset (map (\<lambda>k. (k, field v k)) names)" by (rule exact_members [OF assms])
  define size_of where "size_of = (\<lambda>m :: string \<times> json. tree_nodes (snd m))"
  define xs where "xs = map (\<lambda>k. (k, field v k)) names"
  have "mset (map size_of ms) = mset (map size_of xs)" using v(2) unfolding xs_def [symmetric] by simp
  then have "sum_list (map size_of ms) = sum_list (map size_of xs)" by (metis sum_mset_sum_list)
  then have "sum_list (map (\<lambda>m. tree_nodes (snd m)) ms) = sum_list (map (\<lambda>k. tree_nodes (field v k)) names)"
    unfolding xs_def by (simp add: size_of_def comp_def)
  then show ?thesis by (subst v(1)) (simp add: members_nodes_sum)
qed

lemma members_depth_le: "\<forall>m \<in> set ms. json_depth (snd m) < n \<Longrightarrow> members_depth ms \<le> n"
  by (induction ms) (auto simp: Suc_le_eq)

lemma exact_depth:
  assumes "exact_fields v names" "distinct names" "\<And>k. k \<in> set names \<Longrightarrow> json_depth (field v k) < n"
  shows "json_depth v \<le> n"
proof -
  obtain ms where v: "v = JObject ms" "mset ms = mset (map (\<lambda>k. (k, field v k)) names)" by (rule exact_members [OF assms(1,2)])
  have "set ms = set (map (\<lambda>k. (k, field v k)) names)" using v(2) by (metis set_mset_mset)
  with assms(3) have "\<forall>m \<in> set ms. json_depth (snd m) < n" by auto
  from members_depth_le [OF this] show ?thesis by (subst v(1)) simp
qed

definition scalar :: "json \<Rightarrow> bool" where
  "scalar v \<longleftrightarrow> \<not> is_object v \<and> \<not> is_array v"

lemma scalar_size: "scalar v \<Longrightarrow> tree_nodes v = 1" "scalar v \<Longrightarrow> json_depth v = 0"
  by (cases v; simp add: scalar_def)+

lemma scalar_numbers:
  "json_int64 v = Some i \<Longrightarrow> scalar v" "valid_message_id v \<Longrightarrow> scalar v" "valid_int53 v p \<Longrightarrow> scalar v"
  "valid_int32 v \<Longrightarrow> scalar v" "valid_nonnegative_int32 v \<Longrightarrow> scalar v"
  by (auto simp: scalar_def json_int64_Some message_id_Some valid_int53_def valid_int32_def valid_nonnegative_int32_def
      split: option.splits)

lemma scalar_texts:
  "is_string v \<Longrightarrow> scalar v" "is_boolean v \<Longrightarrow> scalar v" "valid_string v n \<Longrightarrow> scalar v" "scalar JNull" "scalar (JString s)"
  by (auto simp: scalar_def is_string_iff is_boolean_iff valid_string_def)

lemma timestamp_scalar: "valid_timestamp v \<Longrightarrow> scalar v"
  by (cases v) (simp_all add: scalar_def valid_timestamp_def timestamp_unix_seconds_def)

lemmas scalars = scalar_numbers scalar_texts timestamp_scalar

lemma exact_scalars:
  assumes "exact_fields v names" "distinct names" "list_all (\<lambda>k. scalar (field v k)) names"
  shows "tree_nodes v = Suc (length names)" "json_depth v \<le> 1"
proof -
  have "map (\<lambda>k. tree_nodes (field v k)) names = replicate (length names) 1"
    using assms(3) by (intro nth_equalityI) (auto simp: list_all_length scalar_size)
  then show "tree_nodes v = Suc (length names)" using exact_nodes [OF assms(1,2)] by (simp add: sum_list_replicate)
  show "json_depth v \<le> 1" by (rule exact_depth [OF assms(1,2)]) (use assms(3) in \<open>auto simp: list_all_iff scalar_size\<close>)
qed

text \<open>A check that returns false early is a conjunction.\<close>

lemma rejecting: "(if c then False else d) \<longleftrightarrow> \<not> c \<and> d"
  by simp

lemma topic_shape:
  assumes "valid_message_topic v"
  shows "tree_nodes v \<le> 3" "json_depth v \<le> 1"
proof -
  consider "v = JNull" | "exact_fields v [''kind'', ''id'']" "is_string (field v ''kind'')" "valid_int53 (field v ''id'') True"
    using assms by (auto simp: valid_message_topic_def Let_def split: if_splits)
  then have "tree_nodes v \<le> 3 \<and> json_depth v \<le> 1"
  proof cases
    case 2
    then show ?thesis using exact_scalars [of v "[''kind'', ''id'']"] by (simp add: scalars)
  qed simp
  then show "tree_nodes v \<le> 3" "json_depth v \<le> 1" by simp_all
qed

definition message_fields :: "string list" where
  "message_fields = [''id'', ''chat_id'', ''date'', ''sender'', ''is_outgoing'', ''topic'', ''type'', ''text'', ''scheduled'']"

lemma message_shape:
  assumes "valid_message_write_result v"
  shows "tree_nodes v \<le> 14" "json_depth v \<le> 2"
proof -
  note c = assms [unfolded valid_message_write_result_def Let_def rejecting de_Morgan_disj not_not]
  have e: "exact_fields v message_fields" and s: "scalar (field v ''id'')" "scalar (field v ''chat_id'')" "scalar (field v ''is_outgoing'')"
    "scalar (field v ''type'')" "scalar (field v ''text'')" "scalar (field v ''scheduled'')"
    and t: "valid_message_topic (field v ''topic'')"
    using c scalars unfolding message_fields_def by blast+
  have d: "scalar (field v ''date'')" using c scalars by metis
  have x: "exact_fields (field v ''sender'') [''type'', ''id'']" "scalar (field (field v ''sender'') ''type'')"
    using c scalars by blast+
  have i: "scalar (field (field v ''sender'') ''id'')" using c scalar_numbers(3) by metis
  note sender = exact_scalars [OF x(1)] and topic = topic_shape [OF t]
  have sn: "tree_nodes (field v ''sender'') = 3" "json_depth (field v ''sender'') \<le> 1" using sender x(2) i by simp_all
  have "tree_nodes v = Suc (sum_list (map (\<lambda>k. tree_nodes (field v k)) message_fields))"
    by (rule exact_nodes [OF e]) (simp add: message_fields_def)
  with s d topic(1) sn(1) show "tree_nodes v \<le> 14" by (simp add: message_fields_def scalar_size)
  show "json_depth v \<le> 2"
    by (rule exact_depth [OF e]) (use s d topic(2) sn(2) in \<open>auto simp: message_fields_def scalar_size\<close>)
qed

lemma forward_item_shape:
  assumes "valid_forward_item v"
  shows "tree_nodes v \<le> 17" "json_depth v \<le> 3"
proof -
  have s: "scalar (field v ''source_id'')" "scalar (field v ''status'')"
    using assms by (auto simp: valid_forward_item_def scalars split: if_splits)
  have "exact_fields v [''source_id'', ''status'', ''failure_reason'', ''tdlib_code'', ''retry_after''] \<and>
      scalar (field v ''failure_reason'') \<and> scalar (field v ''tdlib_code'') \<and> scalar (field v ''retry_after'')"
    if "field v ''status'' \<noteq> JString ''pending''" "field v ''status'' \<noteq> JString ''sent''"
    using assms that scalar_numbers(4,5) [of "field v ''tdlib_code''"] scalar_numbers(4,5) [of "field v ''retry_after''"]
    by (auto simp: valid_forward_item_def Let_def rejecting scalar_texts split: if_splits)
  moreover have "exact_fields v [''source_id'', ''status'', ''temporary_message_id''] \<and> scalar (field v ''temporary_message_id'')"
    if "field v ''status'' = JString ''pending''"
    using assms that by (auto simp: valid_forward_item_def scalar_numbers(2) split: if_splits)
  moreover have "exact_fields v [''source_id'', ''status'', ''message''] \<and> valid_message_write_result (field v ''message'')"
    if "field v ''status'' = JString ''sent''"
    using assms that by (auto simp: valid_forward_item_def split: if_splits)
  ultimately consider
      (pending) "exact_fields v [''source_id'', ''status'', ''temporary_message_id'']" "scalar (field v ''temporary_message_id'')"
    | (sent) "exact_fields v [''source_id'', ''status'', ''message'']" "valid_message_write_result (field v ''message'')"
    | (failed) "exact_fields v [''source_id'', ''status'', ''failure_reason'', ''tdlib_code'', ''retry_after'']"
        "scalar (field v ''failure_reason'')" "scalar (field v ''tdlib_code'')" "scalar (field v ''retry_after'')"
    by blast
  then have "tree_nodes v \<le> 17 \<and> json_depth v \<le> 3"
  proof cases
    case pending
    then show ?thesis using exact_scalars [OF pending(1)] s by simp
  next
    case sent
    note m = message_shape [OF sent(2)]
    have "tree_nodes v \<le> 17" using exact_nodes [OF sent(1)] s m(1) by (simp add: scalar_size)
    moreover have "json_depth v \<le> 3"
      by (rule exact_depth [OF sent(1)]) (use s m(2) in \<open>auto simp: scalar_size\<close>)
    ultimately show ?thesis ..
  next
    case failed
    then show ?thesis using exact_scalars [OF failed(1)] s by simp
  qed
  then show "tree_nodes v \<le> 17" "json_depth v \<le> 3" by simp_all
qed

lemma forward_items_shape:
  assumes "valid_forward_items items allow_empty terminal"
  shows "tree_nodes items \<le> 1701" "json_depth items \<le> 4"
proof -
  from assms have i: "is_array items" "length (items_of items) \<le> 100" "list_all valid_forward_item (items_of items)"
    unfolding valid_forward_items_iff kForwardItemCount_def by simp_all
  then obtain vs where v: "items = JArray vs" by (auto simp: is_array_iff)
  have n: "list_all valid_forward_item vs \<Longrightarrow> trees_nodes vs \<le> 17 * length vs \<and> items_depth vs \<le> 4" for vs
  proof (induction vs)
    case (Cons w ws)
    then show ?case using forward_item_shape [of w] by simp
  qed simp
  show "tree_nodes items \<le> 1701" "json_depth items \<le> 4" using n [of vs] i v by simp_all
qed

subsection \<open>Terminals of the recovery\<close>

definition text_ok :: "string \<Rightarrow> bool" where
  "text_ok s \<longleftrightarrow> length s \<le> kRequestSourceBytes \<and> valid_utf8 s \<and> \<not> contains_nul s"

lemma tree_ok_text: "tree_ok d (JString s) \<longleftrightarrow> d \<le> 32 \<and> text_ok s"
  by (auto simp: text_ok_def)

lemma text_ok_literal: "list_all (\<lambda>c. 0 < byte_of c \<and> byte_of c < 128) s \<Longrightarrow> length s \<le> 1000 \<Longrightarrow> text_ok s"
  by (auto simp: text_ok_def contains_nul_def kRequestSourceBytes_def list_all_iff byte_of_def intro!: valid_utf8_literal)

lemma bad_key_literal:
  "list_all (\<lambda>c. 0 < byte_of c \<and> byte_of c < 128) k \<Longrightarrow> k \<noteq> ''idempotency_key'' \<Longrightarrow> k \<noteq> ''invite'' \<Longrightarrow> \<not> bad_key k"
  by (auto simp: bad_key_def contains_nul_def list_all_iff byte_of_def intro!: valid_utf8_literal)

lemma stage_name_text: "text_ok (account_audit_stage_name stage)"
  by (cases stage) (simp_all add: stage_name_values text_ok_literal byte_of_def)

lemma mutation_name_text:
  "text_ok (account_audit_mutation_state_name m)" "account_audit_mutation_state_name m \<in> set mutation_names"
  by (cases m; simp add: text_ok_literal byte_of_def mutation_names_def)+

lemma stage_names_tree: "Suc d \<le> 32 \<Longrightarrow> tree_ok d (stage_names stages)" "tree_nodes (stage_names stages) = Suc (length stages)"
  by (auto simp: stage_names_def trees_ok_iff trees_nodes_sum tree_ok_text stage_name_text comp_def sum_list_triv
      simp del: tree_ok.simps(1))

text \<open>The stages and the mutation state that the details of an incomplete terminal may combine.\<close>

definition incomplete_consistent :: "audit_stage list \<Rightarrow> mutation_state \<Rightarrow> bool" where
  "incomplete_consistent stages m \<longleftrightarrow>
     (if DispatchStarted \<notin> set stages then m = MutationNone
      else if MutationConfirmed \<in> set stages then m = MutationCertain
      else if ForwardProgress \<in> set stages then True
      else m = MutationPossible)"

lemma valid_incomplete_terminal:
  assumes "valid_account_name account" "text_ok account" "path \<noteq> []" "text_ok path" "legal_completed_stages operation stages"
    "distinct stages" "length stages \<le> 6" "incomplete_consistent stages m"
  shows "valid_terminal operation (incomplete_terminal account path m stages)"
proof -
  have key: "\<not> bad_key ''code''" "\<not> bad_key ''details''" "\<not> bad_key ''exit_code''" "\<not> bad_key ''kind''" "\<not> bad_key ''message''"
    "\<not> bad_key ''account''" "\<not> bad_key ''completed_stages''" "\<not> bad_key ''mutation_state''" "\<not> bad_key ''path''"
    by (simp_all add: bad_key_literal byte_of_def)
  have words: "text_ok ''AUDIT_INCOMPLETE''" "text_ok ''error''" "text_ok ''a prior audited invocation did not reach a terminal proof''"
    by (simp_all add: text_ok_literal byte_of_def)
  have tree: "valid_json_tree (incomplete_terminal account path m stages)"
    unfolding valid_json_tree_iff incomplete_terminal_def
    using assms(2,4,7) by (simp add: key words tree_ok_text mutation_name_text stage_names_tree del: tree_ok.simps(1))
  have sel: "valid_selector_string (JString path)"
    using assms(3,4) by (simp add: valid_selector_string_def valid_string_def text_ok_def)
  have loop: "stages_loop [] (items_of (stage_names stages)) = Some stages" using stages_loop_names [of "[]" stages] assms(6) by simp
  have "valid_audit_incomplete_details operation
      (JObject [(''account'', JString account), (''completed_stages'', stage_names stages),
          (''mutation_state'', JString (account_audit_mutation_state_name m)), (''path'', JString path)])"
    using assms(1,5,8) sel loop mutation_name_text(2) [of m] unfolding valid_audit_incomplete_details_def
    by (cases m) (auto simp: json_eval incomplete_consistent_def stage_names_def split: if_splits)
  with tree show ?thesis
    unfolding valid_terminal_def valid_stored_error_def incomplete_terminal_def
    by (simp add: json_eval valid_int32_def json_int64_def valid_stored_error_message_def stored_error_messages_def
        valid_error_details_def kGeneric_def)
qed

text \<open>The terminal of a complete forward vector.\<close>

lemma forward_items_terminal:
  assumes "valid_forward_items items False False" "forward_vector_complete items"
  shows "valid_forward_items items allow_empty True"
  using assms unfolding valid_forward_items_iff forward_vector_complete_def by (auto simp: list_all_iff list_ex_iff)

lemma sent_items_loop_iff:
  assumes "list_all valid_forward_item items" "sorted_wrt (<) (forward_source_ids items)"
    "case previous of None \<Rightarrow> True | Some p \<Rightarrow> list_all (\<lambda>s. p < s) (forward_source_ids items)"
    "list_all (\<lambda>item. item_status item ''sent'') items"
  shows "sent_items_loop previous items"
  using assms
proof (induction items arbitrary: previous)
  case (Cons item items)
  then obtain s where s: "json_int64 (field item ''source_id'') = Some s" using forward_item_numbers(1) [of item] by auto
  have "sent_items_loop (Some s) items"
    by (rule Cons.IH) (use Cons.prems s in \<open>auto simp: forward_source_ids_def list_all_iff\<close>)
  with Cons.prems s show ?case by (auto simp: item_status_def forward_source_ids_def split: option.splits)
qed simp

lemma all_sent:
  assumes "length (filter P xs) = length xs"
  shows "list_all P xs"
  using assms by (metis filter_True length_filter_less list_all_iff nat_neq_iff)

lemma forward_item_status:
  assumes "valid_forward_item v"
  shows "item_status v ''pending'' \<or> item_status v ''sent'' \<or> item_status v ''failed''"
proof (rule ccontr)
  assume "\<not> ?thesis"
  then have n: "\<not> json_eq (field v ''status'') (JString ''pending'')" "\<not> json_eq (field v ''status'') (JString ''sent'')"
    "\<not> json_eq (field v ''status'') (JString ''failed'')" unfolding item_status_def by blast+
  have "\<not> valid_forward_item v"
    unfolding valid_forward_item_def if_not_P [OF n(1)] if_not_P [OF n(2)] using n(3) by (simp del: json_eq_string)
  with assms show False by simp
qed

lemma failed_item_retry:
  assumes "valid_forward_item v" "\<not> json_eq (field v ''status'') (JString ''pending'')" "\<not> json_eq (field v ''status'') (JString ''sent'')"
  shows "field v ''retry_after'' = JNull \<or> valid_nonnegative_int32 (field v ''retry_after'')"
proof (rule ccontr)
  assume n: "\<not> ?thesis"
  have "\<not> valid_forward_item v"
    unfolding valid_forward_item_def Let_def if_not_P [OF assms(2)] if_not_P [OF assms(3)] using n by (simp split: if_split)
  with assms(1) show False by simp
qed

lemma rate_limit_loop_max:
  assumes "list_all valid_forward_item items" "list_all rate_limited_item items" "list_all (\<lambda>item. item_status item ''failed'') items"
    "0 \<le> r" "r \<le> 2 ^ 31 - 1"
  defines "m \<equiv> foldl (\<lambda>r item. max r (get_int64 (field item ''retry_after''))) r items"
  shows "rate_limit_loop r items = Some m" "0 \<le> m" "m \<le> 2 ^ 31 - 1"
proof -
  have "rate_limit_loop r items = Some (foldl (\<lambda>r item. max r (get_int64 (field item ''retry_after''))) r items) \<and>
      0 \<le> foldl (\<lambda>r item. max r (get_int64 (field item ''retry_after''))) r items \<and>
      foldl (\<lambda>r item. max r (get_int64 (field item ''retry_after''))) r items \<le> 2 ^ 31 - 1"
    using assms(1-5)
  proof (induction items arbitrary: r)
    case (Cons item items)
    have f: "field item ''status'' = JString ''failed''" using Cons.prems by (simp add: item_status_def)
    have rate: "field item ''failure_reason'' = JString ''tdlib_error''" "json_eq (field item ''tdlib_code'') (JInt 429)"
      "field item ''retry_after'' \<noteq> JNull" using Cons.prems by (simp_all add: rate_limited_item_def)
    have "field item ''retry_after'' = JNull \<or> valid_nonnegative_int32 (field item ''retry_after'')"
      by (rule failed_item_retry) (use Cons.prems(1) in \<open>simp_all add: f\<close>)
    with rate have v: "valid_nonnegative_int32 (field item ''retry_after'')" by simp
    then obtain n where n: "json_int64 (field item ''retry_after'') = Some n" "0 \<le> n" "n \<le> 2 ^ 31 - 1"
      by (auto simp: valid_nonnegative_int32_def split: option.splits)
    have g: "get_int64 (field item ''retry_after'') = n" using n(1) by (auto simp: json_int64_Some as_int64_small)
    have "0 \<le> max r n" "max r n \<le> 2 ^ 31 - 1" using Cons.prems n by simp_all
    from Cons.IH [OF _ _ _ this] Cons.prems f rate v n(1) g show ?case by (simp add: item_status_def)
  qed simp
  then show "rate_limit_loop r items = Some m" "0 \<le> m" "m \<le> 2 ^ 31 - 1" unfolding m_def by simp_all
qed

lemma forward_failure_valid:
  assumes "code = ''FORWARD_PARTIAL'' \<and> message = ''some messages could not be forwarded'' \<or>
      code = ''FORWARD_FAILED'' \<and> message = ''messages could not be forwarded''"
    and "valid_forward_error_details code (JObject [(''from_chat_id'', src), (''items'', items),
      (''operation'', JString ''msg_forward''), (''to_chat_id'', dst)])"
    and "tree_ok d items" "valid_forward_items items False False" "scalar src" "scalar dst" "\<not> is_string src" "\<not> is_string dst"
  shows "valid_terminal A_MsgForward (forward_failure code message src dst items)"
proof -
  note shape = forward_items_shape [OF assms(4)]
  have key: "\<not> bad_key ''code''" "\<not> bad_key ''details''" "\<not> bad_key ''exit_code''" "\<not> bad_key ''kind''" "\<not> bad_key ''message''"
    "\<not> bad_key ''from_chat_id''" "\<not> bad_key ''items''" "\<not> bad_key ''operation''" "\<not> bad_key ''to_chat_id''"
    by (simp_all add: bad_key_literal byte_of_def)
  have words: "text_ok code" "text_ok ''error''" "text_ok message" "text_ok ''msg_forward''"
    using assms(1) by (auto simp: text_ok_literal byte_of_def)
  have ids: "tree_ok 2 src" "tree_ok 2 dst" using assms(5-8) by (cases src; cases dst; simp add: scalar_def)+
  have "tree_ok 2 items" by (rule tree_ok_move(1) [OF assms(3)]) (use shape in simp)
  with key words ids shape scalar_size(1) [OF assms(5)] scalar_size(1) [OF assms(6)]
  have tree: "valid_json_tree (forward_failure code message src dst items)"
    unfolding valid_json_tree_iff forward_failure_def by (simp add: tree_ok_text numeral_2_eq_2 del: tree_ok.simps(1))
  have m: "valid_stored_error_message code (JString message)"
    using assms(1) by (elim disjE conjE) (simp_all add: valid_stored_error_message_def stored_error_messages_def)
  have d: "valid_error_details A_MsgForward code (JString message) (JObject [(''from_chat_id'', src), (''items'', items),
      (''operation'', JString ''msg_forward''), (''to_chat_id'', dst)]) 1"
    using assms(1) by (elim disjE conjE) (use assms(2) in \<open>simp_all add: valid_error_details_def kGeneric_def\<close>)
  show ?thesis
    using tree m d unfolding valid_terminal_def valid_stored_error_def forward_failure_def
    by (simp add: json_eval valid_int32_def json_int64_def)
qed

lemma forward_result_valid:
  assumes "valid_forward_items items False False" "list_all (\<lambda>item. item_status item ''sent'') (items_of items)" "tree_ok d items"
    "valid_int53 src False" "\<not> json_eq src (JInt 0)" "valid_int53 dst False" "\<not> json_eq dst (JInt 0)"
  shows "valid_terminal A_MsgForward (JObject [(''data'', JObject [(''from_chat_id'', src), (''items'', items), (''to_chat_id'', dst)]),
             (''kind'', JString ''result'')])"
proof -
  note shape = forward_items_shape [OF assms(1)]
  have sc: "scalar src" "scalar dst" using assms(4,6) scalar_numbers(3) by blast+
  have key: "\<not> bad_key ''data''" "\<not> bad_key ''kind''" "\<not> bad_key ''from_chat_id''" "\<not> bad_key ''items''" "\<not> bad_key ''to_chat_id''"
    by (simp_all add: bad_key_literal byte_of_def)
  have words: "text_ok ''result''" by (simp add: text_ok_literal byte_of_def)
  have num: "\<not> is_string src" "\<not> is_string dst" using assms(4,6) by (cases src; cases dst; simp add: valid_int53_def json_int64_def)+
  have ids: "tree_ok 2 src" "tree_ok 2 dst" using num sc by (cases src; cases dst; simp add: scalar_def)+
  have "tree_ok 2 items" by (rule tree_ok_move(1) [OF assms(3)]) (use shape in simp)
  with key words ids shape scalar_size(1) [OF sc(1)] scalar_size(1) [OF sc(2)]
  have tree: "valid_json_tree (JObject [(''data'', JObject [(''from_chat_id'', src), (''items'', items), (''to_chat_id'', dst)]),
             (''kind'', JString ''result'')])"
    unfolding valid_json_tree_iff by (simp add: tree_ok_text numeral_2_eq_2 del: tree_ok.simps(1))
  have f: "is_array items" "items_of items \<noteq> []" "length (items_of items) \<le> kForwardItemCount" "list_all valid_forward_item (items_of items)"
    "sorted_wrt (<) (forward_source_ids (items_of items))"
    using assms(1) unfolding valid_forward_items_iff by auto
  have "sent_items_loop None (items_of items)" by (rule sent_items_loop_iff) (use f assms(2) in simp_all)
  moreover have "\<not> jempty items" "\<not> jsize items > kForwardItemCount" using f by (auto simp: is_array_iff jempty_def)
  ultimately have "valid_result_data A_MsgForward (JObject [(''from_chat_id'', src), (''items'', items), (''to_chat_id'', dst)])"
    using f(1) assms(4-7) unfolding valid_result_data_def by (simp add: exact_fields_def contains_def field_def)
  with tree show ?thesis unfolding valid_terminal_def by (simp add: exact_fields_def contains_def field_def)
qed

lemma forward_rate_limited_valid:
  assumes "valid_forward_items items False False" "forward_vector_complete items" "list_all rate_limited_item (items_of items)"
    "\<not> list_ex (\<lambda>item. item_status item ''sent'') (items_of items)" "tree_ok d items"
  defines "m \<equiv> foldl (\<lambda>r item. max r (get_int64 (field item ''retry_after''))) 0 (items_of items)"
  shows "valid_terminal A_MsgForward
     (JObject [(''code'', JString ''RATE_LIMITED''),
         (''details'', JObject [(''items'', items), (''operation'', JString ''msg_forward''), (''retry_after'', JInt m), (''tdlib_code'', JInt 429)]),
         (''exit_code'', JInt 5), (''kind'', JString ''error''), (''message'', JString ''Telegram rate limit exceeded'')])"
proof -
  note shape = forward_items_shape [OF assms(1)]
  have items: "list_all valid_forward_item (items_of items)" "items_of items \<noteq> []" "is_array items"
    using assms(1) unfolding valid_forward_items_iff by auto
  have "item_status item ''failed''" if "item \<in> set (items_of items)" for item
  proof -
    have "\<not> item_status item ''pending''" "\<not> item_status item ''sent''" "valid_forward_item item"
      using assms(2,4) items(1) that by (auto simp: forward_vector_complete_def list_ex_iff list_all_iff)
    with forward_item_status show ?thesis by blast
  qed
  then have failed: "list_all (\<lambda>item. item_status item ''failed'') (items_of items)" by (simp add: list_all_iff)
  note loop = rate_limit_loop_max [OF items(1) assms(3) failed, of 0, folded m_def]
  have key: "\<not> bad_key ''code''" "\<not> bad_key ''details''" "\<not> bad_key ''exit_code''" "\<not> bad_key ''kind''" "\<not> bad_key ''message''"
    "\<not> bad_key ''items''" "\<not> bad_key ''operation''" "\<not> bad_key ''retry_after''" "\<not> bad_key ''tdlib_code''"
    by (simp_all add: bad_key_literal byte_of_def)
  have words: "text_ok ''RATE_LIMITED''" "text_ok ''error''" "text_ok ''Telegram rate limit exceeded''" "text_ok ''msg_forward''"
    by (simp_all add: text_ok_literal byte_of_def)
  define details where
    "details = JObject [(''items'', items), (''operation'', JString ''msg_forward''), (''retry_after'', JInt m), (''tdlib_code'', JInt 429)]"
  have "tree_ok 2 items" by (rule tree_ok_move(1) [OF assms(5)]) (use shape in simp)
  with key words shape have tree: "valid_json_tree (JObject [(''code'', JString ''RATE_LIMITED''), (''details'', details),
         (''exit_code'', JInt 5), (''kind'', JString ''error''), (''message'', JString ''Telegram rate limit exceeded'')])"
    unfolding valid_json_tree_iff details_def by (simp add: tree_ok_text numeral_2_eq_2 del: tree_ok.simps(1))
  have f: "field details ''items'' = items" "field details ''operation'' = JString ''msg_forward''" "field details ''retry_after'' = JInt m"
    "field details ''tdlib_code'' = JInt 429" "exact_fields details [''operation'', ''tdlib_code'', ''retry_after'', ''items'']"
    "contains details ''items''" "is_object details"
    by (simp_all add: details_def exact_fields_def contains_def field_def)
  have v: "valid_nonnegative_int32 (JInt m)" using loop(2,3) by (simp add: valid_nonnegative_int32_def json_int64_def)
  have "valid_forward_error_details ''RATE_LIMITED'' details"
    unfolding valid_forward_error_details_def f using f v loop(1) forward_items_terminal [OF assms(1,2)] by simp
  then have d: "valid_error_details A_MsgForward ''RATE_LIMITED'' (JString ''Telegram rate limit exceeded'') details 5"
    using f by (simp add: valid_error_details_def kRateLimited_def)
  show ?thesis
    using tree d f(7) unfolding valid_terminal_def valid_stored_error_def details_def [symmetric]
    by (simp add: json_eval valid_int32_def json_int64_def valid_stored_error_message_def stored_error_messages_def)
qed

lemma count_sent: "length (filter P xs) > 0 \<longleftrightarrow> list_ex P xs"
  by (induction xs) auto

lemma forward_terminal_valid:
  assumes "valid_forward_items items False False" "forward_vector_complete items" "tree_ok d items"
    "valid_int53 src False" "\<not> json_eq src (JInt 0)" "valid_int53 dst False" "\<not> json_eq dst (JInt 0)"
  shows "valid_terminal A_MsgForward (forward_terminal_of src dst items)"
proof -
  define sent where "sent = length (filter (\<lambda>item. item_status item ''sent'') (items_of items))"
  have sc: "scalar src" "scalar dst" using assms(4,6) scalar_numbers(3) by blast+
  have num: "\<not> is_string src" "\<not> is_string dst" using assms(4,6) by (cases src; cases dst; simp add: valid_int53_def json_int64_def)+
  have arr: "jsize items = length (items_of items)" using assms(1) unfolding valid_forward_items_iff by (auto simp: is_array_iff)
  have failure: "valid_terminal A_MsgForward (forward_failure code message src dst items)"
    if "code = ''FORWARD_PARTIAL'' \<and> message = ''some messages could not be forwarded'' \<and> sent > 0 \<and> sent < length (items_of items) \<or>
        code = ''FORWARD_FAILED'' \<and> message = ''messages could not be forwarded'' \<and> sent = 0" for code message
  proof (rule forward_failure_valid [OF _ _ assms(3,1) sc num])
    define details where
      "details = JObject [(''from_chat_id'', src), (''items'', items), (''operation'', JString ''msg_forward''), (''to_chat_id'', dst)]"
    have f: "exact_fields details [''operation'', ''from_chat_id'', ''to_chat_id'', ''items'']" "field details ''items'' = items"
      "field details ''operation'' = JString ''msg_forward''" "field details ''from_chat_id'' = src" "field details ''to_chat_id'' = dst"
      by (simp_all add: details_def exact_fields_def contains_def field_def)
    show "valid_forward_error_details code (JObject [(''from_chat_id'', src), (''items'', items),
      (''operation'', JString ''msg_forward''), (''to_chat_id'', dst)])"
      unfolding details_def [symmetric] valid_forward_error_details_def f Let_def sent_def [symmetric] arr
      using that f(1) assms(4-7) forward_items_terminal [OF assms(1,2), of False] by auto
  qed (use that in blast)
  show ?thesis
  proof (cases "sent = length (items_of items)")
    case True
    then have "list_all (\<lambda>item. item_status item ''sent'') (items_of items)" unfolding sent_def by (rule all_sent)
    from forward_result_valid [OF assms(1) this assms(3-7)] True show ?thesis
      by (simp add: forward_terminal_of_def arr sent_def)
  next
    case False
    then have less: "sent < length (items_of items)" unfolding sent_def by (meson le_neq_implies_less length_filter_le)
    show ?thesis
    proof (cases "sent > 0")
      case True
      with failure less False show ?thesis unfolding forward_terminal_of_def Let_def arr sent_def [symmetric] by simp
    next
      case none: False
      then have ns: "\<not> list_ex (\<lambda>item. item_status item ''sent'') (items_of items)" unfolding sent_def count_sent .
      show ?thesis
      proof (cases "list_all rate_limited_item (items_of items)")
        case True
        from forward_rate_limited_valid [OF assms(1,2) True ns assms(3)] True none False show ?thesis
          unfolding forward_terminal_of_def Let_def arr sent_def [symmetric] by simp
      next
        case False
        with failure none less show ?thesis unfolding forward_terminal_of_def Let_def arr sent_def [symmetric] by simp
      qed
    qed
  qed
qed

text \<open>The members of the derived terminal that the other checks read.\<close>

definition sent_count :: "json \<Rightarrow> nat" where
  "sent_count items = length (filter (\<lambda>item. item_status item ''sent'') (items_of items))"

lemma forward_terminal_forms:
  fixes src dst items
  obtains (result) "sent_count items = jsize items" "forward_terminal_of src dst items =
      JObject [(''data'', JObject [(''from_chat_id'', src), (''items'', items), (''to_chat_id'', dst)]), (''kind'', JString ''result'')]"
  | (partial) "forward_terminal_of src dst items =
      forward_failure ''FORWARD_PARTIAL'' ''some messages could not be forwarded'' src dst items"
  | (rate) m where "sent_count items = 0" "forward_terminal_of src dst items =
      JObject [(''code'', JString ''RATE_LIMITED''),
        (''details'', JObject [(''items'', items), (''operation'', JString ''msg_forward''), (''retry_after'', JInt m), (''tdlib_code'', JInt 429)]),
        (''exit_code'', JInt 5), (''kind'', JString ''error''), (''message'', JString ''Telegram rate limit exceeded'')]"
  | (failed) "sent_count items = 0" "forward_terminal_of src dst items =
      forward_failure ''FORWARD_FAILED'' ''messages could not be forwarded'' src dst items"
proof (cases "sent_count items = jsize items")
  case True
  then show thesis by (intro result) (simp_all add: forward_terminal_of_def sent_count_def)
next
  case ne: False
  show thesis
  proof (cases "sent_count items > 0")
    case True
    with ne show thesis by (intro partial) (simp add: forward_terminal_of_def sent_count_def Let_def)
  next
    case False
    then have z: "sent_count items = 0" by simp
    show thesis
    proof (cases "list_all rate_limited_item (items_of items)")
      case True
      show thesis by (rule rate [OF z]) (use True ne False in \<open>simp only: forward_terminal_of_def sent_count_def Let_def if_False if_True\<close>)
    next
      case nr: False
      show thesis by (rule failed [OF z]) (use nr ne False in \<open>simp only: forward_terminal_of_def sent_count_def Let_def if_False\<close>)
    qed
  qed
qed

definition derived_terminal :: "json \<Rightarrow> json \<Rightarrow> json \<Rightarrow> json \<Rightarrow> bool" where
  "derived_terminal src dst items t \<longleftrightarrow>
     forward_terminal_items t = Some items \<and>
     (if sent_count items = jsize items
      then field t ''kind'' = JString ''result'' \<and> field (field t ''data'') ''from_chat_id'' = src \<and> field (field t ''data'') ''to_chat_id'' = dst
      else field t ''kind'' = JString ''error'' \<and> \<not> contains (field t ''details'') ''account'' \<and>
           field (field t ''details'') ''operation'' = JString ''msg_forward'' \<and>
           field t ''code'' = JString (if sent_count items > 0 then ''FORWARD_PARTIAL'' else string_of (field t ''code'')) \<and>
           string_of (field t ''code'') \<in> {''FORWARD_PARTIAL'', ''FORWARD_FAILED'', ''RATE_LIMITED''})"

lemma derived_forward_terminal:
  assumes "jsize items > 0"
  shows "derived_terminal src dst items (forward_terminal_of src dst items)"
proof (cases rule: forward_terminal_forms [of items src dst])
  case result
  then show ?thesis by (simp add: derived_terminal_def forward_terminal_items_def field_def contains_def)
next
  case partial
  show ?thesis
  proof (cases "sent_count items = jsize items")
    case True
    then have "forward_terminal_of src dst items = JObject [(''data'', JObject [(''from_chat_id'', src), (''items'', items), (''to_chat_id'', dst)]),
        (''kind'', JString ''result'')]" by (simp add: forward_terminal_of_def sent_count_def)
    with partial show ?thesis by (simp add: forward_failure_def)
  next
    case False
    then show ?thesis unfolding partial
      by (simp add: derived_terminal_def forward_failure_def forward_terminal_items_def field_def contains_def)
  qed
next
  case (rate m)
  with assms show ?thesis by (simp add: derived_terminal_def forward_terminal_items_def field_def contains_def)
next
  case failed
  with assms show ?thesis by (simp add: derived_terminal_def forward_failure_def forward_terminal_items_def field_def contains_def)
qed

lemma forward_terminal_proves:
  assumes "valid_terminal A_MsgForward t" "derived_terminal src dst items t" "sent_count items > 0"
  shows "terminal_proves_mutation A_MsgForward t"
  using assms by (cases "sent_count items = jsize items") (simp_all add: derived_terminal_def terminal_proves_mutation_iff Let_def)

lemma forward_terminal_shape:
  assumes "valid_forward_items items False False" "scalar src" "scalar dst"
  shows "tree_nodes (forward_terminal_of src dst items) \<le> 1710" "json_depth (forward_terminal_of src dst items) \<le> 6"
proof -
  note shape = forward_items_shape [OF assms(1)] and sc = scalar_size [OF assms(2)] scalar_size [OF assms(3)]
  have "tree_nodes (forward_terminal_of src dst items) \<le> 1710 \<and> json_depth (forward_terminal_of src dst items) \<le> 6"
    by (cases rule: forward_terminal_forms [of items src dst]) (use shape sc in \<open>simp_all add: forward_failure_def\<close>)
  then show "tree_nodes (forward_terminal_of src dst items) \<le> 1710" "json_depth (forward_terminal_of src dst items) \<le> 6" by simp_all
qed

lemma valid_terminal_tree: "valid_terminal operation t \<Longrightarrow> valid_json_tree t"
  unfolding valid_terminal_def valid_stored_error_def by (auto split: if_splits)

lemma digits_at_nth:
  assumes "digits_at t b n" "b \<le> i" "i < b + n" "i < length t"
  shows "is_digit (t ! i)"
proof -
  have "i - b < length (take n (drop b t))" using assms(2-4) by (simp add: less_diff_conv)
  with assms(1) have "is_digit (take n (drop b t) ! (i - b))" unfolding digits_at_def list_all_length by blast
  with assms(2-4) show ?thesis by simp
qed

lemma timestamp_text:
  assumes "valid_timestamp (JString s)"
  shows "text_ok s"
proof (rule text_ok_literal)
  have t: "length s = 20" "s ! 4 = CHR ''-''" "s ! 7 = CHR ''-''" "s ! 10 = CHR ''T''" "s ! 13 = CHR '':''" "s ! 16 = CHR '':''" "s ! 19 = CHR ''Z''"
    "digits_at s 0 4" "digits_at s 5 2" "digits_at s 8 2" "digits_at s 11 2" "digits_at s 14 2" "digits_at s 17 2"
    using assms by (auto simp: valid_timestamp_def timestamp_unix_seconds_def Let_def split: if_splits)
  show "length s \<le> 1000" using t(1) by simp
  have digit: "0 < byte_of c \<and> byte_of c < 128" if "is_digit c" for c
    using that by (simp add: is_digit_def char_between_def byte_of_def)
  have "0 < byte_of (s ! i) \<and> byte_of (s ! i) < 128" if "i < 20" for i
  proof -
    have "i < 4 \<or> i = 4 \<or> 5 \<le> i \<and> i < 7 \<or> i = 7 \<or> 8 \<le> i \<and> i < 10 \<or> i = 10 \<or> 11 \<le> i \<and> i < 13 \<or> i = 13 \<or>
      14 \<le> i \<and> i < 16 \<or> i = 16 \<or> 17 \<le> i \<and> i < 19 \<or> i = 19" using that by linarith
    then have "is_digit (s ! i) \<or> s ! i \<in> {CHR ''-'', CHR ''T'', CHR '':'', CHR ''Z''}"
      using t digits_at_nth [OF t(8), of i] digits_at_nth [OF t(9), of i] digits_at_nth [OF t(10), of i]
        digits_at_nth [OF t(11), of i] digits_at_nth [OF t(12), of i] digits_at_nth [OF t(13), of i] that by auto
    then show ?thesis using digit by (auto simp: byte_of_def)
  qed
  then show "list_all (\<lambda>c. 0 < byte_of c \<and> byte_of c < 128) s" using t(1) by (simp add: list_all_length)
qed

end
