(* ===== verification/Audit_Reconcile.thy ===== *)
theory Audit_Reconcile
  imports Audit_Terminals
begin

text \<open>
  \<^bold>\<open>daemon/idempotency_reconciliation.cpp, the recovery of an open group\<close>: the records that \<open>recover_open_group\<close>
  appends for the plan of \<open>classify_account_audit_recovery\<close>, and the proof that the log accepts them. The log
  is represented by what its scan yields, the open group or none; reading and writing the file are not
  part of this theory. The text of the recovery timestamp is a parameter. The theorem: recovery of a
  group that any sequence of records left open closes the group.
\<close>

subsection \<open>Records of the recovery\<close>

definition append_checkpoint :: "dumper \<Rightarrow> json \<Rightarrow> open_group option \<Rightarrow> string + open_group option" where
  "append_checkpoint dump document oldest_open =
     (case oldest_open of
        None \<Rightarrow> Inl ''checkpoint has no matching open group''
      | Some g \<Rightarrow>
          (case consume_v2 dump 0 document \<lparr>open_of = Some g, positive_v2 = False\<rparr> of
             Inl e \<Rightarrow> Inl e
           | Inr (state, view) \<Rightarrow> Inr (open_of state)))"

definition append_outcome :: "dumper \<Rightarrow> json \<Rightarrow> open_group option \<Rightarrow> string + open_group option" where
  "append_outcome dump document oldest_open =
     (case oldest_open of
        None \<Rightarrow> Inl ''outcome has no matching open group''
      | Some g \<Rightarrow>
          (case consume_v2 dump 0 document \<lparr>open_of = Some g, positive_v2 = False\<rparr> of
             Inl e \<Rightarrow> Inl e
           | Inr (state, view) \<Rightarrow> Inr (open_of state)))"

definition recovery_checkpoint :: "open_group \<Rightarrow> audit_operation \<Rightarrow> nat \<Rightarrow> json \<Rightarrow> string \<Rightarrow> checkpoint_input" where
  "recovery_checkpoint g operation sequence terminal timestamp =
     \<lparr>ci_invocation_id = string_of (field (intent g) ''invocation_id''), ci_timestamp = timestamp,
      ci_account = string_of (field (intent g) ''account''), ci_operation = operation, ci_sequence = sequence,
      ci_stage = MutationConfirmed, ci_data = JObject [(''terminal'', terminal)]\<rparr>"

definition append_recovery_checkpoint ::
  "dumper \<Rightarrow> open_group \<Rightarrow> audit_operation \<Rightarrow> nat \<Rightarrow> json \<Rightarrow> string \<Rightarrow> open_group option \<Rightarrow> string + open_group option" where
  "append_recovery_checkpoint dump g operation sequence terminal timestamp audit =
     (case make_account_audit_checkpoint dump (recovery_checkpoint g operation sequence terminal timestamp) of
        Inl e \<Rightarrow> Inl e
      | Inr document \<Rightarrow> append_checkpoint dump document audit)"

definition recovery_outcome ::
  "open_group \<Rightarrow> audit_operation \<Rightarrow> mutation_state \<Rightarrow> audit_stage list \<Rightarrow> json \<Rightarrow> string \<Rightarrow> outcome_input" where
  "recovery_outcome g operation mutation completed terminal timestamp =
     \<lparr>out_invocation_id = string_of (field (intent g) ''invocation_id''), out_timestamp = timestamp,
      out_account = string_of (field (intent g) ''account''), out_operation = operation,
      out_success = json_eq (field terminal ''kind'') (JString ''result''), out_mutation_state = mutation,
      out_completed_stages = completed, out_terminal = terminal\<rparr>"

definition append_recovery_outcome ::
  "dumper \<Rightarrow> open_group \<Rightarrow> audit_operation \<Rightarrow> mutation_state \<Rightarrow> audit_stage list \<Rightarrow> json \<Rightarrow> string \<Rightarrow> open_group option \<Rightarrow>
   string + open_group option" where
  "append_recovery_outcome dump g operation mutation completed terminal timestamp audit =
     (case make_account_audit_outcome dump (recovery_outcome g operation mutation completed terminal timestamp) of
        Inl e \<Rightarrow> Inl e
      | Inr document \<Rightarrow> append_outcome dump document audit)"

text \<open>The 32-bit sequence number after the last checkpoint.\<close>

definition recovery_sequence :: "open_group \<Rightarrow> nat" where
  "recovery_sequence g =
     (if checkpoints g = [] then 1
      else (get_uint64 (field (last (checkpoints g)) ''checkpoint_sequence'') + 1) mod 2 ^ 32)"

definition recovery_stages :: "open_group \<Rightarrow> recovery_plan \<Rightarrow> audit_stage list" where
  "recovery_stages g plan =
     completed_stages g @ (if AppendMutationProofAndSync \<in> set (rp_boundaries plan) then [MutationConfirmed] else [])"

text \<open>The audit records of \<open>recover_open_group\<close>; \<open>group\<close> is what the scan found, so the log starts with it open.\<close>

definition recover_open_group :: "dumper \<Rightarrow> string \<Rightarrow> audit_pin_source \<Rightarrow> string \<Rightarrow> open_group \<Rightarrow> string + open_group option" where
  "recover_open_group dump audit_path pins timestamp g =
     (case classify_account_audit_recovery g (string_of (field (intent g) ''account'')) audit_path pins of
        Inl e \<Rightarrow> Inl e
      | Inr plan \<Rightarrow>
          (case parse_account_audit_operation (string_of (field (intent g) ''command'')) of
             None \<Rightarrow> Inl ''open group lost its operation''
           | Some operation \<Rightarrow>
               let sequence = recovery_sequence g; proof_due = (AppendMutationProofAndSync \<in> set (rp_boundaries plan))
               in if proof_due \<and> sequence = 0 then Inl ''recovery checkpoint sequence overflowed''
                  else (case (if proof_due
                              then append_recovery_checkpoint dump g operation sequence (rp_terminal plan) timestamp (Some g)
                              else Inr (Some g)) of
                          Inl e \<Rightarrow> Inl e
                        | Inr audit \<Rightarrow>
                            if AppendOutcomeAndSync \<in> set (rp_boundaries plan)
                            then append_recovery_outcome dump g operation (rp_mutation_state plan) (recovery_stages g plan)
                                   (rp_terminal plan) timestamp audit
                            else Inr audit)))"

subsection \<open>Facts of the open group\<close>

lemma intent_facts:
  assumes "validate_intent_impl dump d = None" "parse_account_audit_operation (string_of (field d ''command'')) = Some operation"
  shows "valid_common_identity d" "valid_plan operation (field d ''plan'') (string_of (field d ''account''))" "valid_json_tree d"
    "valid_arguments operation (field d ''arguments'')"
  using assms unfolding validate_intent_impl_def Let_def by (auto split: if_splits)

definition forward_matches :: "open_group \<Rightarrow> bool" where
  "forward_matches g \<longleftrightarrow>
     (case final_forward_items g of
        None \<Rightarrow> True
      | Some items \<Rightarrow>
          let ids = field (field (intent g) ''arguments'') ''message_ids''
          in jsize items = jsize ids \<and> list_all2 (\<lambda>item source. json_eq (field item ''source_id'') source) (items_of items) (items_of ids))"

lemma scanned_forward: "scanned dump state \<Longrightarrow> open_of state = Some g \<Longrightarrow> forward_matches g"
proof (induction arbitrary: g rule: scanned.induct)
  case (step state generation document state' view)
  from step.hyps(2) show ?case
  proof (cases rule: consume_v2_cases)
    case intent_record
    then show ?thesis using step.prems by (auto simp: open_group_of_def forward_matches_def final_forward_items_def)
  next
    case (checkpoint_record g0 g')
    obtain operation cs h where inv: "group_inv dump operation cs h g0" using scanned_inv [OF step.hyps(1) checkpoint_record(1)] by blast
    have cs: "history_of (checkpoints g0) = Some cs" using inv unfolding group_inv_def by blast
    obtain c :: checkpoint_input where c: "checkpoint_of document = Some c" "field document ''stage'' = JString (account_audit_stage_name (ci_stage c))"
      "ci_data c = field document ''data''" using validated_checkpoint [OF checkpoint_record(3)] by blast
    note push = consume_checkpoint_Inr [OF checkpoint_record(4) c(1) cs]
    have g: "g = push_checkpoint document c g0" using step.prems checkpoint_record(5) push(1) by simp
    note final = final_forward_push [OF c(2,3), of g0]
    show ?thesis
    proof (cases "ci_stage c = ForwardProgress")
      case True
      with push(2) final show ?thesis unfolding g forward_matches_def
        by (auto simp: checkpoint_contradicts_def Let_def split: if_splits)
    next
      case False
      with final step.IH [OF checkpoint_record(1)] show ?thesis unfolding g forward_matches_def push_simps(2) by simp
    qed
  next
    case outcome_record
    then show ?thesis using step.prems by simp
  qed
qed simp

lemma final_items_tree:
  assumes "list_all (\<lambda>d. validate_checkpoint_impl dump d = None) (checkpoints g)" "final_forward_items g = Some items"
  shows "tree_ok 2 items"
proof -
  from assms(2) obtain d where d: "d \<in> set (checkpoints g)" "checkpoint_is (account_audit_stage_name ForwardProgress) d"
    "items = field (field d ''data'') ''items''"
    unfolding final_forward_items_def stage_name_values by (auto dest: find_SomeD)
  from d(1) assms(1) have v: "validate_checkpoint_impl dump d = None" by (simp add: list_all_iff)
  obtain c :: checkpoint_input where c: "field d ''stage'' = JString (account_audit_stage_name (ci_stage c))"
    "valid_checkpoint_data (ci_operation c) (ci_stage c) (field d ''data'')" "valid_json_tree d" "exact_fields d checkpoint_fields"
    using validated_checkpoint [OF v] by blast
  have "ci_stage c = ForwardProgress" using d(2) checkpoint_is_stage [OF c(1)] by blast
  with c(2) have x: "exact_fields (field d ''data'') [''items'']" by (simp add: valid_checkpoint_data_def)
  have "contains d ''data''" "contains (field d ''data'') ''items''"
    using exact_fields_contains [OF c(4), of "''data''"] exact_fields_contains [OF x, of "''items''"] by (simp_all add: checkpoint_fields_def)
  moreover have "tree_ok 0 d" using c(3) valid_json_tree_iff by blast
  ultimately show ?thesis unfolding d(3) using tree_ok_field by (metis numeral_2_eq_2)
qed

subsection \<open>Records that the log accepts\<close>

lemma operation_name_forward: "account_audit_operation_name A_MsgForward = ''msg_forward''"
  by code_simp

lemma outcome_document_fields:
  "exact_fields (outcome_document out) outcome_fields" "is_object (outcome_document out)"
  "field (outcome_document out) ''schema_version'' = JInt 2" "field (outcome_document out) ''phase'' = JString ''outcome''"
  "field (outcome_document out) ''invocation_id'' = JString (out_invocation_id out)"
  "field (outcome_document out) ''timestamp'' = JString (out_timestamp out)"
  "field (outcome_document out) ''account'' = JString (out_account out)"
  "field (outcome_document out) ''command'' = JString (account_audit_operation_name (out_operation out))"
  "field (outcome_document out) ''success'' = JBool (out_success out)"
  "field (outcome_document out) ''mutation_state'' = JString (account_audit_mutation_state_name (out_mutation_state out))"
  "field (outcome_document out) ''completed_stages'' = stage_names (out_completed_stages out)"
  "field (outcome_document out) ''terminal'' = out_terminal out" "contains (outcome_document out) ''phase''"
  "contains (outcome_document out) ''invocation_id''" "contains (outcome_document out) ''timestamp''"
  "contains (outcome_document out) ''account''" "contains (outcome_document out) ''command''"
  by (simp_all add: outcome_document_def outcome_fields_def exact_fields_def contains_def field_def)

lemma stage_names_array [simp]: "is_array (stage_names stages)"
  by (simp add: stage_names_def)

lemma parse_operation_name [simp]: "parse_account_audit_operation (account_audit_operation_name operation) = Some operation"
  by (simp add: operation_of_name)

lemma parse_stage_name [simp]: "parse_account_audit_stage (account_audit_stage_name stage) = Some stage"
  by (simp add: stage_of_name)

definition terminal_agrees :: "outcome_input \<Rightarrow> bool" where
  "terminal_agrees out \<longleftrightarrow>
     (field (out_terminal out) ''kind'' = JString ''error'' \<and> contains (field (out_terminal out) ''details'') ''account'' \<longrightarrow>
        field (field (out_terminal out) ''details'') ''account'' = JString (out_account out)) \<and>
     (field (out_terminal out) ''kind'' = JString ''error'' \<and> field (out_terminal out) ''code'' = JString ''AUDIT_INCOMPLETE'' \<longrightarrow>
        field (field (out_terminal out) ''details'') ''mutation_state'' = JString (account_audit_mutation_state_name (out_mutation_state out)) \<and>
        field (field (out_terminal out) ''details'') ''completed_stages'' = stage_names (out_completed_stages out))"

lemma outcome_document_valid:
  assumes "valid_hex (out_invocation_id out) 32" "valid_timestamp (JString (out_timestamp out))" "valid_account_name (out_account out)"
    "valid_terminal (out_operation out) (out_terminal out)" "distinct (out_completed_stages out)" "terminal_agrees out"
    "\<not> outcome_contradicts (out_operation out) (out_success out) (account_audit_mutation_state_name (out_mutation_state out))
        (out_completed_stages out) (out_terminal out)"
    "serialized_size_at_most dump (out_terminal out) (terminal_byte_ceiling (out_operation out))"
    "serialized_size_at_most dump (outcome_document out) kVectorJsonBytes"
  shows "validate_outcome_impl dump (outcome_document out) = None"
proof -
  have "valid_common_identity (outcome_document out)"
    using assms(1-3) by (simp add: valid_common_identity_def outcome_document_fields)
  moreover have "stages_loop [] (items_of (stage_names (out_completed_stages out))) = Some (out_completed_stages out)"
    using stages_loop_names [of "[]"] assms(5) by simp
  ultimately show ?thesis
    using assms(4,6-9) mutation_name_text(2) [of "out_mutation_state out"]
    unfolding validate_outcome_impl_def outcome_document_fields Let_def terminal_agrees_def
    by (simp add: outcome_document_fields json_eq_refl)
qed

lemma matching_outcome:
  assumes "intent g0 = intent g" "valid_common_identity (intent g)"
    "parse_account_audit_operation (string_of (field (intent g) ''command'')) = Some operation"
  shows "matching_group (outcome_document (recovery_outcome g0 operation m stages t timestamp)) \<lparr>open_of = Some g, positive_v2 = b\<rparr> = Some g"
proof -
  obtain i a c where "field (intent g) ''invocation_id'' = JString i" "field (intent g) ''account'' = JString a"
    "field (intent g) ''command'' = JString c"
    using assms(2) by (auto simp: valid_common_identity_def is_string_iff)
  moreover from this have "account_audit_operation_name operation = c" using assms(3) by (simp add: operation_of_name)
  ultimately show ?thesis by (simp add: matching_group_def outcome_document_fields recovery_outcome_def assms(1))
qed

lemma consume_outcome_accepts:
  assumes "field d ''completed_stages'' = stage_names (completed_stages g)"
    "field d ''mutation_state'' = JString (account_audit_mutation_state_name (derive_mutation_state g))"
    "parse_account_audit_operation (string_of (field (intent g) ''command'')) = Some operation"
    "terminal_matches_plan operation (field d ''terminal'') (intent g)"
    "operation = A_MsgForward \<Longrightarrow> terminal_matches_latest_forward dump g (field d ''terminal'')"
    "outcome_terminal_contradicts dump (field d ''terminal'') g = None" "valid_timestamp (field (intent g) ''timestamp'')"
  shows "\<exists>view. consume_outcome dump d g = Inr view"
  using assms unfolding consume_outcome_def make_completed_view_def valid_timestamp_def Let_def
  by (auto simp: json_eq_refl)

lemma outcome_closes:
  assumes inv: "group_inv dump operation cs h g" and same: "intent g0 = intent g"
    and ts: "valid_timestamp (JString timestamp)" and t: "valid_terminal operation t" "terminal_matches_plan operation t (intent g)"
    and fwd: "operation = A_MsgForward \<Longrightarrow> terminal_matches_latest_forward dump g t"
    and proven: "outcome_terminal_contradicts dump t g = None"
    and agrees: "terminal_agrees (recovery_outcome g operation (derive_mutation_state g) (completed_stages g) t timestamp)"
    and rel: "\<not> outcome_contradicts operation (json_eq (field t ''kind'') (JString ''result''))
        (account_audit_mutation_state_name (derive_mutation_state g)) (completed_stages g) t"
    and sizes: "serialized_size_at_most dump t (terminal_byte_ceiling operation)"
      "serialized_size_at_most dump (outcome_document (recovery_outcome g operation (derive_mutation_state g) (completed_stages g) t timestamp)) kVectorJsonBytes"
  shows "append_recovery_outcome dump g0 operation (derive_mutation_state g) (completed_stages g) t timestamp (Some g) = Inr None"
proof -
  define out where "out = recovery_outcome g operation (derive_mutation_state g) (completed_stages g) t timestamp"
  have out0: "recovery_outcome g0 operation (derive_mutation_state g) (completed_stages g) t timestamp = out"
    by (simp add: out_def recovery_outcome_def same)
  note i = inv [unfolded group_inv_def]
  have parse: "parse_account_audit_operation (string_of (field (intent g) ''command'')) = Some operation" using i by blast
  have "validate_intent_impl dump (intent g) = None" using i by blast
  note facts = intent_facts [OF this parse]
  have id: "valid_hex (string_of (field (intent g) ''invocation_id'')) 32" "valid_account_name (string_of (field (intent g) ''account''))"
    "valid_timestamp (field (intent g) ''timestamp'')" using facts(1) by (simp_all add: valid_common_identity_def)
  have valid: "validate_outcome_impl dump (outcome_document out) = None"
    by (rule outcome_document_valid)
      (use id ts t(1) group_stages(2) [OF inv] agrees rel sizes in \<open>simp_all add: out_def [symmetric]\<close>, simp_all add: out_def recovery_outcome_def)
  have matched: "matching_group (outcome_document out) \<lparr>open_of = Some g, positive_v2 = False\<rparr> = Some g"
    unfolding out_def by (rule matching_outcome [OF refl facts(1) parse])
  obtain view where view: "consume_outcome dump (outcome_document out) g = Inr view"
    using consume_outcome_accepts [of "outcome_document out" g operation dump] parse t(2) fwd proven id(3)
    by (auto simp: outcome_document_fields out_def recovery_outcome_def)
  have "consume_v2 dump 0 (outcome_document out) \<lparr>open_of = Some g, positive_v2 = False\<rparr> =
      Inr (\<lparr>open_of = None, positive_v2 = False\<rparr>, Some view)"
    unfolding consume_v2_def using valid matched view by (simp add: outcome_document_fields)
  then show ?thesis
    unfolding append_recovery_outcome_def out0 make_account_audit_outcome_def append_outcome_def using valid by simp
qed

subsection \<open>Each plan closes its group\<close>

lemma group_facts:
  assumes "group_inv dump operation cs h g"
  obtains account where "field (intent g) ''account'' = JString account" "valid_account_name account" "text_ok account"
    "parse_account_audit_operation (string_of (field (intent g) ''command'')) = Some operation"
    "valid_plan operation (field (intent g) ''plan'') account" "length (completed_stages g) \<le> 6"
    "any_forward_sent g = vector_sent (final_forward_items g)" "forward_complete g = vector_complete (final_forward_items g)"
    "mutation_confirmed g \<Longrightarrow> proof_inv dump operation g" "list_all (\<lambda>d. validate_checkpoint_impl dump d = None) (checkpoints g)"
proof -
  note i = assms [unfolded group_inv_def]
  have parse: "parse_account_audit_operation (string_of (field (intent g) ''command'')) = Some operation" using i by blast
  have "validate_intent_impl dump (intent g) = None" using i by blast
  note facts = intent_facts [OF this parse]
  obtain a where a: "field (intent g) ''account'' = JString a" "valid_account_name a" "contains (intent g) ''account''"
    using facts(1) by (auto simp: valid_common_identity_def is_string_iff)
  have "tree_ok 0 (intent g)" using facts(3) valid_json_tree_iff by blast
  from tree_ok_field [OF this a(3)] have "text_ok a" by (simp only: a(1) tree_ok_text)
  moreover have "length (completed_stages g) \<le> 6" using i by (simp add: stages_of_def)
  moreover have "any_forward_sent g = vector_sent (final_forward_items g)" "forward_complete g = vector_complete (final_forward_items g)"
    "mutation_confirmed g \<Longrightarrow> proof_inv dump operation g" "list_all (\<lambda>d. validate_checkpoint_impl dump d = None) (checkpoints g)"
    using i by blast+
  moreover have "valid_plan operation (field (intent g) ''plan'') a" using facts(2) a(1) by simp
  ultimately show thesis using a parse that by blast
qed

lemma incomplete_terminal_fields:
  "field (incomplete_terminal account path m stages) ''kind'' = JString ''error''"
  "field (incomplete_terminal account path m stages) ''code'' = JString ''AUDIT_INCOMPLETE''"
  "contains (field (incomplete_terminal account path m stages) ''details'') ''account''"
  "field (field (incomplete_terminal account path m stages) ''details'') ''account'' = JString account"
  "\<not> contains (field (incomplete_terminal account path m stages) ''details'') ''operation''"
  "\<not> contains (field (incomplete_terminal account path m stages) ''details'') ''items''"
  "field (field (incomplete_terminal account path m stages) ''details'') ''mutation_state'' = JString (account_audit_mutation_state_name m)"
  "field (field (incomplete_terminal account path m stages) ''details'') ''completed_stages'' = stage_names stages"
  by (simp_all add: incomplete_terminal_def contains_def field_def)

lemma unproved_state:
  assumes "group_inv dump operation cs h g" "\<not> mutation_confirmed g" "\<not> forward_complete g"
  shows "incomplete_consistent (completed_stages g) (derive_mutation_state g)"
    "derive_mutation_state g = MutationCertain \<Longrightarrow> ForwardProgress \<in> set (completed_stages g)"
proof -
  note st = group_stages [OF assms(1)]
  have sent: "any_forward_sent g \<Longrightarrow> final_forward_items g \<noteq> None"
    using group_facts [OF assms(1)] by (metis option.simps(4) vector_sent_def)
  then show "derive_mutation_state g = MutationCertain \<Longrightarrow> ForwardProgress \<in> set (completed_stages g)"
    using st(6) assms(2,3) by (auto simp: derive_mutation_state_def split: if_splits option.splits)
  show "incomplete_consistent (completed_stages g) (derive_mutation_state g)"
    unfolding incomplete_consistent_def derive_mutation_state_def using sent st(3,4,6,8) assms(2,3) by auto
qed

lemma incomplete_closes:
  assumes inv: "group_inv dump operation cs h g" and open_state: "\<not> mutation_confirmed g" "\<not> forward_complete g"
    and ts: "valid_timestamp (JString timestamp)" and path: "path \<noteq> []" "text_ok path"
  defines "t \<equiv> incomplete_terminal (string_of (field (intent g) ''account'')) path (derive_mutation_state g) (completed_stages g)"
  assumes sizes: "serialized_size_at_most dump t (terminal_byte_ceiling operation)"
      "serialized_size_at_most dump (outcome_document (recovery_outcome g operation (derive_mutation_state g) (completed_stages g) t timestamp)) kVectorJsonBytes"
  shows "append_recovery_outcome dump g operation (derive_mutation_state g) (completed_stages g) t timestamp (Some g) = Inr None"
proof (rule group_facts [OF inv])
  fix account
  assume a: "field (intent g) ''account'' = JString account" "valid_account_name account" "text_ok account" "length (completed_stages g) \<le> 6"
  note st = group_stages [OF inv] and un = unproved_state [OF inv open_state]
  have t: "t = incomplete_terminal account path (derive_mutation_state g) (completed_stages g)" by (simp add: t_def a(1))
  note f = incomplete_terminal_fields [of account path "derive_mutation_state g" "completed_stages g", folded t]
  show ?thesis
  proof (rule outcome_closes [OF inv refl ts _ _ _ _ _ _ sizes])
    show "valid_terminal operation t" unfolding t by (rule valid_incomplete_terminal) (use a path st(1,2) un(1) in simp_all)
    show "terminal_matches_plan operation t (intent g)" unfolding terminal_matches_plan_def by (simp add: f a(1))
    show "terminal_matches_latest_forward dump g t" by (simp add: terminal_matches_latest_forward_def forward_terminal_items_def f)
    show "outcome_terminal_contradicts dump t g = None" using open_state by (simp add: outcome_terminal_contradicts_def)
    show "terminal_agrees (recovery_outcome g operation (derive_mutation_state g) (completed_stages g) t timestamp)"
      by (simp add: terminal_agrees_def recovery_outcome_def f a(1))
    show "\<not> outcome_contradicts operation (json_eq (field t ''kind'') (JString ''result''))
        (account_audit_mutation_state_name (derive_mutation_state g)) (completed_stages g) t"
      using st(1,3,4) un open_state unfolding outcome_contradicts_def Let_def f incomplete_consistent_def
      by (cases "derive_mutation_state g") (auto split: if_splits)
  qed
qed

lemma proof_closes:
  assumes inv: "group_inv dump operation cs h g" and same: "intent g0 = intent g" and confirmed: "mutation_confirmed g"
    and ts: "valid_timestamp (JString timestamp)" and t: "proof_terminal g = Inr t"
    and size: "serialized_size_at_most dump (outcome_document (recovery_outcome g operation MutationCertain (completed_stages g) t timestamp)) kVectorJsonBytes"
  shows "append_recovery_outcome dump g0 operation MutationCertain (completed_stages g) t timestamp (Some g) = Inr None"
proof (rule group_facts [OF inv])
  fix account
  assume a: "field (intent g) ''account'' = JString account" "mutation_confirmed g \<Longrightarrow> proof_inv dump operation g"
  from t obtain found where found: "find (checkpoint_is ''mutation_confirmed'') (rev (checkpoints g)) = Some found"
    "t = field (field found ''data'') ''terminal''" by (auto simp: proof_terminal_def split: option.splits)
  have p: "terminal_proves_mutation operation t" "terminal_matches_plan operation t (intent g)"
    "serialized_size_at_most dump t (terminal_byte_ceiling operation)"
    "operation = A_MsgForward \<Longrightarrow> terminal_matches_latest_forward dump g t"
    using a(2) [OF confirmed] found by (simp_all add: proof_inv_def Let_def)
  note st = group_stages [OF inv]
  have m: "derive_mutation_state g = MutationCertain" using confirmed by (simp add: derive_mutation_state_def)
  have code: "string_of (field t ''code'') \<notin> {''AUDIT_INCOMPLETE'', ''SPOOL_UNAVAILABLE''}" if "field t ''kind'' = JString ''error''"
    using p(1) that by (auto simp: terminal_proves_mutation_iff Let_def split: if_splits)
  have "append_recovery_outcome dump g0 operation (derive_mutation_state g) (completed_stages g) t timestamp (Some g) = Inr None"
  proof (rule outcome_closes [OF inv same ts _ p(2) p(4)])
    show "valid_terminal operation t" using p(1) by (auto simp: terminal_proves_mutation_iff split: if_splits)
    show "outcome_terminal_contradicts dump t g = None"
      using confirmed found p(3)
      by (auto simp: outcome_terminal_contradicts_def canonical_json_equal_def serialized_size_at_most_def split: option.splits)
    show "terminal_agrees (recovery_outcome g operation (derive_mutation_state g) (completed_stages g) t timestamp)"
      using p(2) code a(1) by (auto simp: terminal_agrees_def recovery_outcome_def terminal_matches_plan_def Let_def split: if_splits)
    show "\<not> outcome_contradicts operation (json_eq (field t ''kind'') (JString ''result''))
        (account_audit_mutation_state_name (derive_mutation_state g)) (completed_stages g) t"
      using st(1,3,4,7) confirmed code unfolding outcome_contradicts_def Let_def m by auto
  qed (use p(3) size m in simp_all)
  then show ?thesis by (simp only: m)
qed

lemma chat_identity_id:
  assumes "valid_chat_identity v"
  shows "valid_int53 (field v ''id'') False" "\<not> json_eq (field v ''id'') (JInt 0)"
  using assms [unfolded valid_chat_identity_def Let_def rejecting de_Morgan_disj not_not] by blast+

lemma noop_closes:
  assumes inv: "group_inv dump operation cs h g" and undispatched: "\<not> dispatch_started g" and noop: "mark_read_noop operation g"
    and ts: "valid_timestamp (JString timestamp)"
    and sizes: "serialized_size_at_most dump (mark_read_result g) (terminal_byte_ceiling operation)"
      "serialized_size_at_most dump (outcome_document (recovery_outcome g operation MutationNone (completed_stages g) (mark_read_result g) timestamp)) kVectorJsonBytes"
  shows "append_recovery_outcome dump g operation MutationNone (completed_stages g) (mark_read_result g) timestamp (Some g) = Inr None"
proof (rule group_facts [OF inv])
  fix account
  assume a: "valid_plan operation (field (intent g) ''plan'') account" "forward_complete g = vector_complete (final_forward_items g)"
    "any_forward_sent g = vector_sent (final_forward_items g)"
  note st = group_stages [OF inv]
  have op: "operation = A_ChatMarkRead" and last: "field (field (intent g) ''plan'') ''last_message_id'' = JNull"
    using noop by (simp_all add: mark_read_noop_def)
  have none: "final_forward_items g = None" "\<not> mutation_confirmed g" using st(7,8) undispatched by blast+
  then have m: "derive_mutation_state g = MutationNone" "\<not> forward_complete g"
    using a(2,3) undispatched by (simp_all add: derive_mutation_state_def vector_sent_def vector_complete_def)
  define chat where "chat = field (field (field (intent g) ''plan'') ''chat'') ''id''"
  have "valid_chat_identity (field (field (intent g) ''plan'') ''chat'')"
    using a(1) unfolding op valid_plan_def by (simp split: if_splits)
  note id = chat_identity_id [OF this, folded chat_def]
  have sc: "scalar chat" by (rule scalar_numbers(3) [OF id(1)])
  have "\<not> is_string chat" using id(1) by (cases chat) (simp_all add: valid_int53_def json_int64_def)
  with sc have tr: "tree_ok 2 chat" "tree_nodes chat = 1" by (cases chat; simp add: scalar_def)+
  have key: "\<not> bad_key ''data''" "\<not> bad_key ''kind''" "\<not> bad_key ''chat_id''" "\<not> bad_key ''last_read_message_id''" "\<not> bad_key ''marked_read''"
    by (simp_all add: bad_key_literal byte_of_def)
  have words: "text_ok ''result''" by (simp add: text_ok_literal byte_of_def)
  define t where "t = mark_read_result g"
  have tree: "valid_json_tree t"
    unfolding t_def mark_read_result_def chat_def [symmetric] valid_json_tree_iff using key words tr
    by (simp add: tree_ok_text numeral_2_eq_2 del: tree_ok.simps(1))
  have f: "field t ''kind'' = JString ''result''" "field (field t ''data'') ''chat_id'' = chat"
    "field (field t ''data'') ''last_read_message_id'' = JNull" "field (field t ''data'') ''marked_read'' = JBool True"
    "exact_fields (field t ''data'') [''chat_id'', ''last_read_message_id'', ''marked_read'']" "exact_fields t [''kind'', ''data'']"
    by (simp_all add: t_def mark_read_result_def chat_def exact_fields_def contains_def field_def)
  have "append_recovery_outcome dump g operation (derive_mutation_state g) (completed_stages g) t timestamp (Some g) = Inr None"
  proof (rule outcome_closes [OF inv refl ts])
    show "valid_terminal operation t"
      using tree f id unfolding valid_terminal_def op by (simp add: valid_result_data_def valid_nonzero_int53_def)
    show "terminal_matches_plan operation t (intent g)"
      unfolding terminal_matches_plan_def op using f last by (simp add: result_field_def chat_def json_eq_refl)
    show "operation = A_MsgForward \<Longrightarrow> terminal_matches_latest_forward dump g t" by (simp add: op)
    show "outcome_terminal_contradicts dump t g = None" using none m(2) by (simp add: outcome_terminal_contradicts_def)
    show "terminal_agrees (recovery_outcome g operation (derive_mutation_state g) (completed_stages g) t timestamp)"
      by (simp add: terminal_agrees_def recovery_outcome_def f)
    show "\<not> outcome_contradicts operation (json_eq (field t ''kind'') (JString ''result''))
        (account_audit_mutation_state_name (derive_mutation_state g)) (completed_stages g) t"
      using st(1,3,4) undispatched none(2) unfolding outcome_contradicts_def Let_def f m op by simp
  qed (use sizes m in \<open>simp_all add: t_def\<close>)
  then show ?thesis by (simp only: m t_def)
qed

text \<open>The terminal of a complete vector, with what the checks of a proof or an outcome need of it.\<close>

lemma derived_forward:
  assumes inv: "group_inv dump operation cs h g" and matches: "forward_matches g" and complete: "forward_complete g"
    and dumps: "\<And>items. final_forward_items g = Some items \<Longrightarrow> dump items \<noteq> None"
  obtains items src dst t where "final_forward_items g = Some items" "derive_forward_terminal g = Inr t" "operation = A_MsgForward"
    "valid_terminal A_MsgForward t" "derived_terminal src dst items t" "terminal_matches_plan A_MsgForward t (intent g)"
    "terminal_matches_latest_forward dump g t" "any_forward_sent g \<longleftrightarrow> sent_count items > 0" "tree_nodes t \<le> 1710" "json_depth t \<le> 6"
proof (rule group_facts [OF inv])
  fix account
  assume a: "forward_complete g = vector_complete (final_forward_items g)" "any_forward_sent g = vector_sent (final_forward_items g)"
    "list_all (\<lambda>d. validate_checkpoint_impl dump d = None) (checkpoints g)" "valid_plan operation (field (intent g) ''plan'') account"
  from complete a(1) obtain items where items: "final_forward_items g = Some items" "forward_vector_complete items"
    by (auto simp: vector_complete_def split: option.splits)
  have op: "operation = A_MsgForward" using group_stages(9) [OF inv] items(1) by simp
  define src where "src = field (field (field (intent g) ''plan'') ''from'') ''id''"
  define dst where "dst = field (field (field (intent g) ''plan'') ''to'') ''id''"
  have "valid_chat_identity (field (field (intent g) ''plan'') ''from'')" "valid_chat_identity (field (field (intent g) ''plan'') ''to'')"
    using a(4) unfolding op valid_plan_def by (simp_all split: if_splits)
  note ids = chat_identity_id [OF this(1), folded src_def] chat_identity_id [OF this(2), folded dst_def]
  note v = final_items_valid [OF a(3) items(1)] and tr = final_items_tree [OF a(3) items(1)]
  define t where "t = forward_terminal_of src dst items"
  have d: "derive_forward_terminal g = Inr t"
    using items unfolding derive_forward_terminal_def final_forward_items_def t_def src_def dst_def
    by (auto simp: Let_def split: option.splits)
  have valid: "valid_terminal A_MsgForward t" unfolding t_def by (rule forward_terminal_valid [OF v items(2) tr ids])
  have "is_array items" "items_of items \<noteq> []" using v unfolding valid_forward_items_iff by auto
  then have ne: "jsize items > 0" by (auto simp: is_array_iff)
  note der = derived_forward_terminal [OF ne, of src dst, folded t_def]
  have plan: "terminal_matches_plan A_MsgForward t (intent g)"
    using der unfolding derived_terminal_def terminal_matches_plan_def
    by (auto simp: Let_def src_def dst_def json_eq_refl operation_name_forward split: if_splits)
  have latest: "terminal_matches_latest_forward dump g t"
    using der matches items(1) dumps [OF items(1)] unfolding derived_terminal_def terminal_matches_latest_forward_def forward_matches_def
    by (auto simp: canonical_json_equal_def Let_def)
  have "any_forward_sent g \<longleftrightarrow> sent_count items > 0"
    unfolding a(2) items(1) vector_sent_def option.case sent_count_def count_sent by (rule refl)
  moreover have "tree_nodes t \<le> 1710" "json_depth t \<le> 6"
    unfolding t_def using forward_terminal_shape [OF v scalar_numbers(3) scalar_numbers(3)] ids(1,3) by blast+
  ultimately show thesis using items(1) d op valid der plan latest by (intro that)
qed

lemma derived_closes:
  assumes inv: "group_inv dump operation cs h g" and matches: "forward_matches g" and complete: "forward_complete g"
    and open_state: "\<not> mutation_confirmed g" "\<not> any_forward_sent g" and ts: "valid_timestamp (JString timestamp)"
    and dumps: "\<And>items. final_forward_items g = Some items \<Longrightarrow> dump items \<noteq> None"
    and t: "derive_forward_terminal g = Inr t"
    and sizes: "serialized_size_at_most dump t (terminal_byte_ceiling operation)"
      "serialized_size_at_most dump (outcome_document (recovery_outcome g operation (derive_mutation_state g) (completed_stages g) t timestamp)) kVectorJsonBytes"
  shows "append_recovery_outcome dump g operation (derive_mutation_state g) (completed_stages g) t timestamp (Some g) = Inr None"
proof (rule derived_forward [OF inv matches complete dumps])
  fix items src dst t'
  assume d: "final_forward_items g = Some items" "derive_forward_terminal g = Inr t'" "operation = A_MsgForward" "valid_terminal A_MsgForward t'"
    "derived_terminal src dst items t'" "terminal_matches_plan A_MsgForward t' (intent g)" "terminal_matches_latest_forward dump g t'"
    "any_forward_sent g \<longleftrightarrow> sent_count items > 0"
  have t': "t' = t" using d(2) t by simp
  note d = d [unfolded t']
  note st = group_stages [OF inv]
  have "list_all (\<lambda>d. validate_checkpoint_impl dump d = None) (checkpoints g)" using inv unfolding group_inv_def by blast
  from final_items_valid [OF this d(1)] have ne: "items_of items \<noteq> []" "is_array items" unfolding valid_forward_items_iff by auto
  then have "sent_count items \<noteq> jsize items" using d(8) open_state(2) by (auto simp: is_array_iff)
  then have k: "field t ''kind'' = JString ''error''" "\<not> contains (field t ''details'') ''account''"
    "string_of (field t ''code'') \<in> {''FORWARD_PARTIAL'', ''FORWARD_FAILED'', ''RATE_LIMITED''}"
    using d(5) unfolding derived_terminal_def by (simp_all split: if_splits)
  have s: "DispatchStarted \<in> set (completed_stages g)" "ForwardProgress \<in> set (completed_stages g)" "MutationConfirmed \<notin> set (completed_stages g)"
    using st(3,4,6,8) d(1) open_state(1) by auto
  have m: "derive_mutation_state g \<noteq> MutationCertain"
    using open_state by (auto simp: derive_mutation_state_def split: option.splits)
  show ?thesis
  proof (rule outcome_closes [OF inv refl ts _ _ _ _ _ _ sizes])
    show "outcome_terminal_contradicts dump t g = None"
      using open_state complete t sizes(1)
      by (auto simp: outcome_terminal_contradicts_def canonical_json_equal_def serialized_size_at_most_def split: option.splits)
    show "terminal_agrees (recovery_outcome g operation (derive_mutation_state g) (completed_stages g) t timestamp)"
      using k by (auto simp: terminal_agrees_def recovery_outcome_def)
    show "\<not> outcome_contradicts operation (json_eq (field t ''kind'') (JString ''result''))
        (account_audit_mutation_state_name (derive_mutation_state g)) (completed_stages g) t"
      using st(1) s k m unfolding outcome_contradicts_def Let_def by (cases "derive_mutation_state g") auto
  qed (use d in simp_all)
qed

text \<open>The proof that recovery appends for a complete vector with a sent item.\<close>

lemma checkpoint_document_fields:
  "exact_fields (checkpoint_document c) checkpoint_fields" "is_object (checkpoint_document c)"
  "field (checkpoint_document c) ''schema_version'' = JInt 2" "field (checkpoint_document c) ''phase'' = JString ''checkpoint''"
  "field (checkpoint_document c) ''invocation_id'' = JString (ci_invocation_id c)"
  "field (checkpoint_document c) ''timestamp'' = JString (ci_timestamp c)"
  "field (checkpoint_document c) ''account'' = JString (ci_account c)"
  "field (checkpoint_document c) ''command'' = JString (account_audit_operation_name (ci_operation c))"
  "field (checkpoint_document c) ''checkpoint_sequence'' = JUInt (ci_sequence c)"
  "field (checkpoint_document c) ''stage'' = JString (account_audit_stage_name (ci_stage c))"
  "field (checkpoint_document c) ''data'' = ci_data c" "contains (checkpoint_document c) ''phase''"
  "contains (checkpoint_document c) ''invocation_id''" "contains (checkpoint_document c) ''timestamp''"
  "contains (checkpoint_document c) ''account''" "contains (checkpoint_document c) ''command''"
  by (simp_all add: checkpoint_document_def checkpoint_fields_def exact_fields_def contains_def field_def)

lemma checkpoint_of_document: "checkpoint_of (checkpoint_document c) = Some c"
  by (simp add: checkpoint_of_def checkpoint_document_fields)

lemma last_sequence:
  assumes "history_loop operation history_init cs = Inr h" "history_of ds = Some cs"
  shows "previous_sequence h = (if ds = [] then 0 else get_uint64 (field (last ds) ''checkpoint_sequence''))"
proof (cases ds rule: rev_cases)
  case Nil
  with assms show ?thesis by (auto simp: history_init_def)
next
  case (snoc ds' d)
  with assms(2) obtain cs' c where c: "cs = cs' @ [c]" "checkpoint_of d = Some c" by (auto simp: history_of_snoc split: option.splits)
  with assms(1) obtain h0 where "history_step operation c h0 = Inr h" by (auto simp: history_loop_snoc split: sum.splits)
  then have "previous_sequence h = ci_sequence c"
    by (rule history_step_shape) (cases "ci_stage c"; auto simp: history_switch_def split: if_splits)
  moreover have "ci_sequence c = get_uint64 (field d ''checkpoint_sequence'')" using c(2) by (auto simp: checkpoint_of_def split: option.splits)
  ultimately show ?thesis using snoc by simp
qed

lemma proof_step:
  assumes "history_inv A_MsgForward h" "saw_dispatch h" "\<not> saw_mutation h" "ci_operation c = A_MsgForward" "ci_stage c = MutationConfirmed"
    "ci_sequence c > previous_sequence h" "valid_checkpoint_data A_MsgForward MutationConfirmed (ci_data c)"
  shows "\<exists>h'. history_step A_MsgForward c h = Inr h'"
proof -
  have photo: "\<not> write_operation_uses_photo_spool (Some A_MsgForward)" by code_simp
  have order: "allowed_order A_MsgForward =
      [IdempotencyPending, DispatchStarted, TemporaryIdsObserved, ForwardProgress, MutationConfirmed]"
    by (simp add: allowed_order_def photo)
  have p: "p < 4" if "previous_position h = Some p" for p
  proof -
    have ne: "stages_of h \<noteq> []" "index_of (last (stages_of h)) (allowed_order A_MsgForward) = Some p"
      using assms(1) that unfolding history_inv_def by (auto split: if_splits)
    have "last (stages_of h) \<noteq> MutationConfirmed" using last_in_set [OF ne(1)] stages_of_memb(6) assms(3) by metis
    moreover have "p < 5" "allowed_order A_MsgForward ! p = last (stages_of h)" using index_of_Some [OF ne(2)] by (simp_all add: order)
    ultimately have "p \<noteq> 4" by (auto simp: order)
    with \<open>p < 5\<close> show ?thesis by simp
  qed
  have i: "index_of MutationConfirmed (allowed_order A_MsgForward) = Some 4" by (simp add: order)
  show ?thesis
    using assms(2-7) i p unfolding history_step_def history_switch_def
    by (cases "previous_position h") (auto split: if_splits)
qed

lemma checkpoint_sequence_bound: "validate_checkpoint_impl dump d = None \<Longrightarrow> get_uint64 (field d ''checkpoint_sequence'') < 2 ^ 32"
  unfolding validate_checkpoint_impl_def by (auto split: if_splits)

lemma next_sequence:
  assumes "group_inv dump operation cs h g" "recovery_sequence g \<noteq> 0"
  shows "previous_sequence h < recovery_sequence g"
proof -
  have cs: "history_of (checkpoints g) = Some cs" "history_loop operation history_init cs = Inr h"
    "list_all (\<lambda>d. validate_checkpoint_impl dump d = None) (checkpoints g)" using assms(1) unfolding group_inv_def by blast+
  show ?thesis
  proof (cases "checkpoints g = []")
    case True
    then show ?thesis using last_sequence [OF cs(2,1)] by (simp add: recovery_sequence_def)
  next
    case False
    define n where "n = get_uint64 (field (last (checkpoints g)) ''checkpoint_sequence'')"
    have "n < 2 ^ 32" unfolding n_def by (rule checkpoint_sequence_bound [of dump]) (use cs(3) False in \<open>simp add: list_all_iff\<close>)
    moreover have "(n + 1) mod 2 ^ 32 \<noteq> 0" using assms(2) False by (simp add: recovery_sequence_def n_def)
    ultimately have "n < (n + 1) mod 2 ^ 32" by (cases "n + 1 = 2 ^ 32") auto
    then show ?thesis using last_sequence [OF cs(2,1)] False by (simp add: recovery_sequence_def n_def)
  qed
qed

lemma proof_document_tree:
  assumes "valid_json_tree t" "tree_nodes t \<le> 1710" "json_depth t \<le> 6" "text_ok account" "text_ok invocation" "text_ok timestamp"
  shows "valid_json_tree (checkpoint_document \<lparr>ci_invocation_id = invocation, ci_timestamp = timestamp, ci_account = account,
      ci_operation = A_MsgForward, ci_sequence = n, ci_stage = MutationConfirmed, ci_data = JObject [(''terminal'', t)]\<rparr>)"
proof -
  have "tree_ok 0 t" using assms(1) valid_json_tree_iff by blast
  then have "tree_ok 2 t" by (rule tree_ok_move(1)) (use assms(3) in simp)
  moreover have "\<not> bad_key ''account''" "\<not> bad_key ''checkpoint_sequence''" "\<not> bad_key ''command''" "\<not> bad_key ''data''"
    "\<not> bad_key ''invocation_id''" "\<not> bad_key ''phase''" "\<not> bad_key ''schema_version''" "\<not> bad_key ''stage''"
    "\<not> bad_key ''timestamp''" "\<not> bad_key ''terminal''"
    by (simp_all add: bad_key_literal byte_of_def)
  moreover have "text_ok ''checkpoint''" "text_ok ''msg_forward''" by (simp_all add: text_ok_literal byte_of_def)
  ultimately show ?thesis
    unfolding valid_json_tree_iff checkpoint_document_def using assms(2,4-6) stage_name_text
    by (simp add: tree_ok_text numeral_2_eq_2 operation_name_forward del: tree_ok.simps(1))
qed

lemma proof_appended:
  assumes inv: "group_inv dump operation cs h g" and matches: "forward_matches g" and complete: "forward_complete g"
    and open_state: "\<not> mutation_confirmed g" "any_forward_sent g" and ts: "valid_timestamp (JString timestamp)"
    and dumps: "\<And>items. final_forward_items g = Some items \<Longrightarrow> dump items \<noteq> None"
    and t: "derive_forward_terminal g = Inr t" and sequence: "recovery_sequence g \<noteq> 0"
  defines "c \<equiv> recovery_checkpoint g operation (recovery_sequence g) t timestamp"
  assumes sizes: "serialized_size_at_most dump t (terminal_byte_ceiling operation)"
      "serialized_size_at_most dump (checkpoint_document c) kVectorJsonBytes"
  shows "append_recovery_checkpoint dump g operation (recovery_sequence g) t timestamp (Some g) =
       Inr (Some (push_checkpoint (checkpoint_document c) c g))"
    "\<exists>cs' h'. group_inv dump operation cs' h' (push_checkpoint (checkpoint_document c) c g)"
    "proof_terminal (push_checkpoint (checkpoint_document c) c g) = Inr t"
proof -
  obtain items src dst where d: "final_forward_items g = Some items" "operation = A_MsgForward" "valid_terminal A_MsgForward t"
    "derived_terminal src dst items t" "terminal_matches_plan A_MsgForward t (intent g)" "terminal_matches_latest_forward dump g t"
    "any_forward_sent g \<longleftrightarrow> sent_count items > 0" "tree_nodes t \<le> 1710" "json_depth t \<le> 6"
    using derived_forward [OF inv matches complete dumps] t by (metis sum.inject(2))
  note i = inv [unfolded group_inv_def] and op = d(2)
  have parse: "parse_account_audit_operation (string_of (field (intent g) ''command'')) = Some operation" using i by blast
  have vi: "validate_intent_impl dump (intent g) = None" using i by blast
  note facts = intent_facts [OF vi parse]
  obtain a v where id: "field (intent g) ''account'' = JString a" "valid_account_name a" "contains (intent g) ''account''"
    "field (intent g) ''invocation_id'' = JString v" "valid_hex v 32" "contains (intent g) ''invocation_id''"
    using facts(1) by (auto simp: valid_common_identity_def is_string_iff)
  have root: "tree_ok 0 (intent g)" using facts(3) valid_json_tree_iff by blast
  have av: "text_ok a" "text_ok v"
    using tree_ok_field [OF root id(3)] tree_ok_field [OF root id(6)] by (simp_all only: id(1,4) tree_ok_text)
  have c: "c = \<lparr>ci_invocation_id = v, ci_timestamp = timestamp, ci_account = a, ci_operation = A_MsgForward,
      ci_sequence = recovery_sequence g, ci_stage = MutationConfirmed, ci_data = JObject [(''terminal'', t)]\<rparr>"
    by (simp add: c_def recovery_checkpoint_def id op)
  have sent: "sent_count items > 0" using d(7) open_state(2) by blast
  note proves = forward_terminal_proves [OF d(3,4) sent]
  have data: "valid_checkpoint_data A_MsgForward MutationConfirmed (ci_data c)"
    using proves by (simp add: c valid_checkpoint_data_def exact_fields_def contains_def field_def)
  have cs: "history_of (checkpoints g) = Some cs" "history_loop operation history_init cs = Inr h" using i by blast+
  have prev: "previous_sequence h < recovery_sequence g" by (rule next_sequence [OF inv sequence])
  have hi: "history_inv A_MsgForward h" using history_loop_inv cs(2) op by blast
  have flags: "saw_dispatch h" "\<not> saw_mutation h" using i open_state(1) group_stages(8) [OF inv] d(1) by auto
  obtain h' where h': "history_step A_MsgForward c h = Inr h'" using proof_step [OF hi flags, of c] data prev by (auto simp: c)
  have trans: "transition_history A_MsgForward (cs @ [c]) = None"
    using cs(2) h' by (simp add: transition_history_def history_loop_snoc op)
  have tree: "valid_json_tree (checkpoint_document c)"
    unfolding c by (rule proof_document_tree [OF valid_terminal_tree [OF d(3)] d(8,9) av timestamp_text [OF ts]])
  have small: "recovery_sequence g < 2 ^ 32" by (simp add: recovery_sequence_def)
  have common: "valid_common_identity (checkpoint_document c)"
    using id(2,5) ts by (simp add: valid_common_identity_def checkpoint_document_fields c)
  have valid: "validate_checkpoint_impl dump (checkpoint_document c) = None"
    using common data tree sizes small sequence
    unfolding validate_checkpoint_impl_def checkpoint_document_fields
    by (simp add: checkpoint_document_fields c field_def op checkpoint_json_bytes_def)
  have contra: "checkpoint_contradicts g c = None" by (simp add: checkpoint_contradicts_def c)
  have tf: "field (ci_data c) ''terminal'' = t" by (simp add: c field_def)
  have codes: "\<not> (field t ''kind'' = JString ''error'' \<and> field t ''code'' = JString ''INTERNAL'')"
    "\<not> (field t ''kind'' = JString ''error'' \<and> field t ''code'' = JString ''TIMEOUT'')"
    using d(4) unfolding derived_terminal_def by (auto split: if_splits)
  have pc: "proof_contradicts dump g c = None"
    unfolding proof_contradicts_def Let_def tf using d(5,6) codes complete t sizes(1)
    by (auto simp: c canonical_json_equal_def serialized_size_at_most_def split: option.splits)
  have consumed: "consume_checkpoint dump (checkpoint_document c) g = Inr (push_checkpoint (checkpoint_document c) c g)"
    unfolding consume_checkpoint_def checkpoint_of_document using contra cs(1) trans pc by (simp add: c)
  have cmd: "field (intent g) ''command'' = JString (account_audit_operation_name operation)"
    using facts(1) parse by (auto simp: valid_common_identity_def is_string_iff operation_of_name)
  have matched: "matching_group (checkpoint_document c) \<lparr>open_of = Some g, positive_v2 = False\<rparr> = Some g"
    by (simp add: matching_group_def checkpoint_document_fields id cmd op) (simp add: c)
  have "consume_v2 dump 0 (checkpoint_document c) \<lparr>open_of = Some g, positive_v2 = False\<rparr> =
      Inr (\<lparr>open_of = Some (push_checkpoint (checkpoint_document c) c g), positive_v2 = False\<rparr>, None)"
    unfolding consume_v2_def using valid matched consumed by (simp add: checkpoint_document_fields)
  then show "append_recovery_checkpoint dump g operation (recovery_sequence g) t timestamp (Some g) =
       Inr (Some (push_checkpoint (checkpoint_document c) c g))"
    unfolding append_recovery_checkpoint_def c_def [symmetric] make_account_audit_checkpoint_def append_checkpoint_def using valid by simp
  show "\<exists>cs' h'. group_inv dump operation cs' h' (push_checkpoint (checkpoint_document c) c g)"
    by (rule group_inv_checkpoint [OF inv valid _ consumed]) (simp add: checkpoint_document_fields cmd c op)
  show "proof_terminal (push_checkpoint (checkpoint_document c) c g) = Inr t"
    unfolding proof_terminal_def push_simps find_checkpoint_names(2) [OF checkpoint_document_fields(10)]
    by (simp add: checkpoint_document_fields) (simp add: c field_def)
qed

subsection \<open>Recovery always closes the group\<close>

lemma recover_proved_plan:
  assumes "recover_proved g operation = Inr plan"
  shows "rp_mutation_state plan = derive_mutation_state g" "AppendOutcomeAndSync \<in> set (rp_boundaries plan)"
    "AppendMutationProofAndSync \<in> set (rp_boundaries plan) \<longleftrightarrow> forward_complete g \<and> any_forward_sent g \<and> \<not> mutation_confirmed g"
    "mutation_confirmed g \<Longrightarrow> proof_terminal g = Inr (rp_terminal plan)"
    "\<not> mutation_confirmed g \<Longrightarrow> derive_forward_terminal g = Inr (rp_terminal plan)"
  using assms by (auto simp: recover_proved_def Let_def split: sum.splits if_splits)

lemma items_dump:
  assumes "list_all (\<lambda>d. validate_checkpoint_impl dump d = None) (checkpoints g)" "final_forward_items g = Some items"
    "\<And>v. valid_json_tree v \<Longrightarrow> dump v \<noteq> None"
  shows "dump items \<noteq> None"
proof (rule assms(3))
  note shape = forward_items_shape [OF final_items_valid [OF assms(1,2)]]
  have "tree_ok 0 items" by (rule tree_ok_move(1) [OF final_items_tree [OF assms(1,2)]]) (use shape in simp)
  with shape show "valid_json_tree items" by (simp add: valid_json_tree_iff)
qed

lemma recover_run:
  assumes "classify_account_audit_recovery g (string_of (field (intent g) ''account'')) path pins = Inr plan"
    "parse_account_audit_operation (string_of (field (intent g) ''command'')) = Some operation" "recovery_sequence g \<noteq> 0"
    "AppendOutcomeAndSync \<in> set (rp_boundaries plan)"
  shows "recover_open_group dump path pins timestamp g =
      (case (if AppendMutationProofAndSync \<in> set (rp_boundaries plan)
             then append_recovery_checkpoint dump g operation (recovery_sequence g) (rp_terminal plan) timestamp (Some g)
             else Inr (Some g)) of
         Inl e \<Rightarrow> Inl e
       | Inr audit \<Rightarrow> append_recovery_outcome dump g operation (rp_mutation_state plan) (recovery_stages g plan) (rp_terminal plan) timestamp audit)"
  using assms by (simp add: recover_open_group_def Let_def split: sum.split)

lemma recovery_closes:
  assumes reach: "scanned dump state" "open_of state = Some g"
    and parse: "parse_account_audit_operation (string_of (field (intent g) ''command'')) = Some operation"
    and plan: "classify_account_audit_recovery g (string_of (field (intent g) ''account'')) path pins = Inr plan"
    and ts: "valid_timestamp (JString timestamp)" and path: "valid_selector_string (JString path)"
    and sequence: "recovery_sequence g \<noteq> 0" and dump_text: "\<And>v. valid_json_tree v \<Longrightarrow> dump v \<noteq> None"
    and sizes: "serialized_size_at_most dump (rp_terminal plan) (terminal_byte_ceiling operation)"
      "serialized_size_at_most dump (checkpoint_document (recovery_checkpoint g operation (recovery_sequence g) (rp_terminal plan) timestamp)) kVectorJsonBytes"
      "serialized_size_at_most dump (outcome_document (recovery_outcome g operation (rp_mutation_state plan) (recovery_stages g plan) (rp_terminal plan) timestamp)) kVectorJsonBytes"
  shows "recover_open_group dump path pins timestamp g = Inr None"
proof -
  obtain op cs h where inv: "group_inv dump op cs h g" using scanned_inv [OF reach] by blast
  have "op = operation" using inv parse unfolding group_inv_def by (metis option.inject)
  note inv = inv [unfolded this]
  note st = group_stages [OF inv]
  obtain fwd: "forward_complete g = vector_complete (final_forward_items g)" "any_forward_sent g = vector_sent (final_forward_items g)"
    "list_all (\<lambda>d. validate_checkpoint_impl dump d = None) (checkpoints g)" using group_facts [OF inv] by blast
  have p: "path \<noteq> []" "text_ok path" using path by (simp_all add: valid_selector_string_def valid_string_def text_ok_def)
  have dumps: "dump items \<noteq> None" if "final_forward_items g = Some items" for items
    using items_dump [OF fwd(3) that dump_text] .
  note matches = scanned_forward [OF reach]
  note run = recover_run [OF plan parse sequence]
  consider (undispatched) "\<not> dispatch_started g" "plan = recover_undispatched g operation (string_of (field (intent g) ''account'')) path"
    | (unproved) "dispatch_started g" "\<not> mutation_confirmed g" "\<not> forward_complete g"
        "plan = recover_unproved g (string_of (field (intent g) ''account'')) path"
    | (proved) "dispatch_started g" "mutation_confirmed g \<or> forward_complete g" "recover_proved g operation = Inr plan"
    using plan parse by (auto simp: classify_account_audit_recovery_def split: if_splits audit_pin_source.splits)
  then show ?thesis
  proof cases
    case undispatched
    have none: "\<not> mutation_confirmed g" "\<not> forward_complete g" "derive_mutation_state g = MutationNone"
      using st(7,8) undispatched(1) fwd by (auto simp: derive_mutation_state_def vector_complete_def vector_sent_def split: option.splits)
    have b: "AppendMutationProofAndSync \<notin> set (rp_boundaries plan)" "AppendOutcomeAndSync \<in> set (rp_boundaries plan)"
      "rp_mutation_state plan = MutationNone" "recovery_stages g plan = completed_stages g"
      by (simp_all add: undispatched(2) recover_undispatched_def recovery_stages_def)
    show ?thesis
    proof (cases "mark_read_noop operation g")
      case True
      then have t: "rp_terminal plan = mark_read_result g" by (simp add: undispatched(2) recover_undispatched_def)
      show ?thesis unfolding run [OF b(2)] using b noop_closes [OF inv undispatched(1) True ts] sizes t by simp
    next
      case False
      then have t: "rp_terminal plan = incomplete_terminal (string_of (field (intent g) ''account'')) path MutationNone (completed_stages g)"
        by (simp add: undispatched(2) recover_undispatched_def)
      show ?thesis unfolding run [OF b(2)] using b incomplete_closes [OF inv none(1,2) ts p] sizes t none(3) by simp
    qed
  next
    case unproved
    have b: "AppendMutationProofAndSync \<notin> set (rp_boundaries plan)" "AppendOutcomeAndSync \<in> set (rp_boundaries plan)"
      "rp_mutation_state plan = derive_mutation_state g" "recovery_stages g plan = completed_stages g"
      "rp_terminal plan = incomplete_terminal (string_of (field (intent g) ''account'')) path (derive_mutation_state g) (completed_stages g)"
      by (simp_all add: unproved(4) recover_unproved_def recovery_stages_def)
    show ?thesis unfolding run [OF b(2)] using b incomplete_closes [OF inv unproved(2,3) ts p] sizes by simp
  next
    case proved
    note pl = recover_proved_plan [OF proved(3)]
    consider (confirmed) "mutation_confirmed g" | (derived) "\<not> mutation_confirmed g" "forward_complete g" "\<not> any_forward_sent g"
      | (sent) "\<not> mutation_confirmed g" "forward_complete g" "any_forward_sent g" using proved(2) by blast
    then show ?thesis
    proof cases
      case confirmed
      have b: "AppendMutationProofAndSync \<notin> set (rp_boundaries plan)" "recovery_stages g plan = completed_stages g"
        "rp_mutation_state plan = MutationCertain"
        using pl(1,3) confirmed by (simp_all add: recovery_stages_def derive_mutation_state_def)
      show ?thesis unfolding run [OF pl(2)] using b proof_closes [OF inv refl confirmed ts pl(4) [OF confirmed]] sizes(3) by simp
    next
      case derived
      have b: "AppendMutationProofAndSync \<notin> set (rp_boundaries plan)" "recovery_stages g plan = completed_stages g"
        using pl(3) derived by (simp_all add: recovery_stages_def)
      show ?thesis unfolding run [OF pl(2)]
        using b pl(1) derived_closes [OF inv matches derived(2,1,3) ts dumps pl(5) [OF derived(1)]] sizes(1,3) by simp
    next
      case sent
      define c where "c = recovery_checkpoint g operation (recovery_sequence g) (rp_terminal plan) timestamp"
      define g' where "g' = push_checkpoint (checkpoint_document c) c g"
      note app = proof_appended [OF inv matches sent(2,1,3) ts dumps pl(5) [OF sent(1)] sequence sizes(1,2), folded c_def g'_def]
      obtain cs' h' where inv': "group_inv dump operation cs' h' g'" using app(2) by blast
      have g': "intent g = intent g'" "mutation_confirmed g'" "completed_stages g' = recovery_stages g plan"
        using pl(3) sent by (simp_all add: g'_def c_def recovery_checkpoint_def recovery_stages_def push_stage_def)
      have m: "rp_mutation_state plan = MutationCertain" using pl(1) sent(3) by (simp add: derive_mutation_state_def)
      have size': "serialized_size_at_most dump (outcome_document (recovery_outcome g' operation MutationCertain (completed_stages g')
          (rp_terminal plan) timestamp)) kVectorJsonBytes"
        using sizes(3) m g'(1,3) by (simp add: recovery_outcome_def)
      show ?thesis unfolding run [OF pl(2)]
        using app(1) proof_closes [OF inv' g'(1,2) ts app(3) size'] g'(3) m pl(3) sent by simp
    qed
  qed
qed


end
