(* ===== verification/Audit_Example.thy ===== *)
theory Audit_Example
  imports Audit_Reconcile
begin

text \<open>
  \<^bold>\<open>A concrete group\<close>: an intent to mark a chat as read that has no message, its outcome, and the applications of
  the theorems on groups to them.
\<close>

definition example_hash :: string where
  "example_hash = ''sha256:0123456789abcdef0123456789abcdef0123456789abcdef0123456789abcdef''"

definition example_intent :: intent_input where
  "example_intent =
     \<lparr>in_invocation_id = ''0123456789abcdef0123456789abcdef'', in_timestamp = ''2024-02-29T12:00:00Z'', in_account = ''main'',
      in_operation = A_ChatMarkRead, in_arguments = JObject [(''chat'', JString ''me'')],
      in_plan = JObject [(''account'', JString ''main''),
        (''chat'', JObject [(''id'', JInt 7), (''is_bot'', JBool False), (''title'', JString ''Me''), (''type'', JString ''private''),
           (''usernames'', JArray [])]),
        (''last_message_id'', JNull), (''operation'', JString ''chat_mark_read''), (''tdlib_request'', JNull)],
      in_request_fingerprint = example_hash, in_config_snapshot = example_hash @ '';dev:1;ino:2;size:3;ctime_ns:4'',
      in_authority_source = ''request'', in_confirmation_source = None, in_idempotency_key_hash = None,
      in_request_source_bytes = 1\<rparr>"

definition empty_dump :: dumper where
  "empty_dump v = Some []"

lemma example_fits [simp]: "serialized_size_at_most empty_dump v n"
  by (simp add: serialized_size_at_most_def empty_dump_def)

lemma example_timestamp: "valid_timestamp (JString ''2024-02-29T12:00:00Z'')"
  by code_simp

lemma example_texts: "valid_hash (JString example_hash)"
  "valid_config_snapshot_identity (example_hash @ '';dev:1;ino:2;size:3;ctime_ns:4'') False"
  "valid_hex ''0123456789abcdef0123456789abcdef'' 32" "valid_account_name ''main''"
  by (simp_all add: valid_hash_def valid_hex_def example_hash_def valid_config_snapshot_identity_def starts_with_def consume_identity_field_def
      valid_unsigned_decimal_def valid_account_name_def kMaxAccountNameLength_def is_lower_hex_def is_alpha_def is_digit_def char_between_def
      byte_of_def digits_value_def)

lemma mark_read_name: "account_audit_operation_name A_ChatMarkRead = ''chat_mark_read''" "\<not> write_operation_destructive (Some A_ChatMarkRead)"
  by code_simp+

lemma example_tree: "valid_json_tree (intent_document example_intent)"
  unfolding valid_json_tree_iff intent_document_def example_intent_def example_hash_def
  by (simp add: nullable_string_def mark_read_name bad_key_literal tree_ok_text text_ok_literal byte_of_def del: tree_ok.simps(1))

lemma example_arguments: "valid_arguments A_ChatMarkRead (in_arguments example_intent)"
  by (simp add: valid_arguments_def example_intent_def json_eval valid_selector_string_def valid_string_def kRequestSourceBytes_def
      valid_utf8_literal byte_of_def contains_nul_def)

lemma example_plan: "valid_plan A_ChatMarkRead (in_plan example_intent) ''main''"
  unfolding valid_plan_def example_intent_def
  by (simp add: json_eval mark_read_name valid_plan_request_def expected_tdlib_functions_def plan_fields_def valid_chat_identity_def
      valid_int53_def json_int64_def valid_string_def kChatTitleBytes_def valid_utf8_literal byte_of_def kChatUsernameCount_def)

lemma example_valid: "validate_intent_impl empty_dump (intent_document example_intent) = None"
proof -
  define d where "d = intent_document example_intent"
  have f: "exact_fields d intent_fields" "field d ''schema_version'' = JInt 2" "field d ''phase'' = JString ''intent''"
    "field d ''command'' = JString ''chat_mark_read''" "field d ''confirmation_source'' = JNull" "field d ''idempotency_key_hash'' = JNull"
    "field d ''arguments'' = in_arguments example_intent" "field d ''plan'' = in_plan example_intent" "field d ''account'' = JString ''main''"
    "field d ''request_fingerprint'' = JString example_hash" "field d ''authority_source'' = JString ''request''"
    "field d ''config_snapshot'' = JString (example_hash @ '';dev:1;ino:2;size:3;ctime_ns:4'')"
    "field d ''timestamp'' = JString ''2024-02-29T12:00:00Z''" "field d ''invocation_id'' = JString ''0123456789abcdef0123456789abcdef''"
    "contains d ''invocation_id''" "contains d ''timestamp''" "contains d ''account''" "contains d ''command''"
    by (simp_all add: d_def intent_document_def example_intent_def nullable_string_def mark_read_name intent_fields_def exact_fields_def
        contains_def field_def)
  have op: "parse_account_audit_operation ''chat_mark_read'' = Some A_ChatMarkRead" by (simp add: operation_of_name mark_read_name)
  have common: "valid_common_identity d"
    unfolding valid_common_identity_def f using f example_timestamp example_texts by (simp add: op)
  have match: "arguments_match_plan A_ChatMarkRead (in_arguments example_intent) (in_plan example_intent)"
    by (simp add: arguments_match_plan_def)
  show ?thesis
    unfolding d_def [symmetric] validate_intent_impl_def f
    using common f example_arguments example_plan match example_texts example_tree
    by (simp add: op valid_confirmation_def mark_read_name d_def [symmetric])
qed

subsection \<open>The scan of the intent, and recovery of its group\<close>

definition example_group :: open_group where
  "example_group = open_group_of 1 (intent_document example_intent)"

definition example_state :: scan_state where
  "example_state = \<lparr>open_of = Some example_group, positive_v2 = True\<rparr>"

lemma example_scanned: "scanned empty_dump example_state" "open_of example_state = Some example_group"
proof -
  have "scanned empty_dump \<lparr>open_of = None, positive_v2 = True\<rparr>" by (rule scanned.start) simp
  moreover have "consume_v2 empty_dump 1 (intent_document example_intent) \<lparr>open_of = None, positive_v2 = True\<rparr> = Inr (example_state, None)"
    using example_valid by (simp add: consume_v2_def example_state_def example_group_def intent_document_def contains_def field_def)
  ultimately show "scanned empty_dump example_state" by (rule scanned.step)
  show "open_of example_state = Some example_group" by (simp add: example_state_def)
qed

lemma example_fields:
  "string_of (field (intent example_group) ''command'') = ''chat_mark_read''" "string_of (field (intent example_group) ''account'') = ''main''"
  "checkpoints example_group = []" "\<not> dispatch_started example_group" "mark_read_noop A_ChatMarkRead example_group"
  "completed_stages example_group = []" "\<not> keyed example_group" "\<not> has_spool example_group" "recovery_sequence example_group = 1"
  by (simp_all add: example_group_def open_group_of_def intent_document_def example_intent_def mark_read_name nullable_string_def
      mark_read_noop_def recovery_sequence_def field_def)

lemma example_parse: "parse_account_audit_operation (string_of (field (intent example_group) ''command'')) = Some A_ChatMarkRead"
  by (simp add: example_fields operation_of_name mark_read_name)

definition example_plan_of_recovery :: recovery_plan where
  "example_plan_of_recovery = recover_undispatched example_group A_ChatMarkRead ''main'' ''/audit.log''"

lemma example_classified:
  "classify_account_audit_recovery example_group (string_of (field (intent example_group) ''account'')) ''/audit.log'' (KnownPins []) =
     Inr example_plan_of_recovery"
  using example_parse example_fields by (simp add: classify_account_audit_recovery_def example_plan_of_recovery_def)

lemma example_path: "valid_selector_string (JString ''/audit.log'')"
  by (simp add: valid_selector_string_def valid_string_def kRequestSourceBytes_def valid_utf8_literal byte_of_def contains_nul_def)


definition example_outcome :: json where
  "example_outcome = outcome_document (recovery_outcome example_group A_ChatMarkRead MutationNone [] (mark_read_result example_group)
     ''2024-02-29T12:00:00Z'')"

lemma example_accepted:
  "validate_outcome_impl empty_dump example_outcome = None"
  "\<exists>state' view. consume_v2 empty_dump 0 example_outcome \<lparr>open_of = Some example_group, positive_v2 = False\<rparr> = Inr (state', Some view)"
proof -
  obtain op cs h where inv: "group_inv empty_dump op cs h example_group" using scanned_inv [OF example_scanned] by blast
  then have op: "op = A_ChatMarkRead" using example_parse unfolding group_inv_def by (metis option.inject)
  have "append_recovery_outcome empty_dump example_group A_ChatMarkRead MutationNone (completed_stages example_group)
      (mark_read_result example_group) ''2024-02-29T12:00:00Z'' (Some example_group) = Inr None"
    by (rule noop_closes [OF inv [unfolded op] example_fields(4,5) example_timestamp]) simp_all
  then have a: "validate_outcome_impl empty_dump example_outcome = None" and "append_outcome empty_dump example_outcome (Some example_group) = Inr None"
    by (simp_all add: append_recovery_outcome_def make_account_audit_outcome_def example_outcome_def example_fields split: option.splits)
  then obtain s v where c: "consume_v2 empty_dump 0 example_outcome \<lparr>open_of = Some example_group, positive_v2 = False\<rparr> = Inr (s, v)" "open_of s = None"
    by (auto simp: append_outcome_def split: sum.splits)
  from c(1) c(2) obtain view where "v = Some view" by (cases rule: consume_v2_cases) auto
  with c(1) a show "validate_outcome_impl empty_dump example_outcome = None"
    "\<exists>state' view. consume_v2 empty_dump 0 example_outcome \<lparr>open_of = Some example_group, positive_v2 = False\<rparr> = Inr (state', Some view)" by auto
qed

theorem open_group_invariant_witness:
  "scanned empty_dump example_state \<and> open_of example_state = Some example_group \<and>
     (\<exists>operation. parse_account_audit_operation (string_of (field (intent example_group) ''command'')) = Some operation \<and>
        legal_completed_stages operation (completed_stages example_group))"
  using open_group_invariant [OF example_scanned] example_scanned by blast

theorem group_bytes_bounded_witness:
  "sum_list (map (record_bytes empty_dump) (intent example_group # checkpoints example_group @ [example_outcome])) \<le> kMaximumGroupBytes"
  by (rule group_bytes_bounded [OF example_scanned example_accepted(1)])

lemma example_open: "scanned empty_dump \<lparr>open_of = Some example_group, positive_v2 = False\<rparr>"
proof -
  have "scanned empty_dump \<lparr>open_of = None, positive_v2 = False\<rparr>" by (rule scanned.start) simp
  moreover have "consume_v2 empty_dump 1 (intent_document example_intent) \<lparr>open_of = None, positive_v2 = False\<rparr> =
      Inr (\<lparr>open_of = Some example_group, positive_v2 = False\<rparr>, None)"
    using example_valid by (simp add: consume_v2_def example_group_def intent_document_def contains_def field_def)
  ultimately show ?thesis by (rule scanned.step)
qed

theorem success_needs_proof_witness:
  "\<exists>state' view operation. consume_v2 empty_dump 0 example_outcome \<lparr>open_of = Some example_group, positive_v2 = False\<rparr> = Inr (state', Some view) \<and>
     parse_account_audit_operation (string_of (field (intent example_group) ''command'')) = Some operation \<and>
     (operation = A_ChatMarkRead \<or> mutation_confirmed example_group)"
proof -
  obtain state' view where c: "consume_v2 empty_dump 0 example_outcome \<lparr>open_of = Some example_group, positive_v2 = False\<rparr> = Inr (state', Some view)"
    using example_accepted(2) by blast
  have s: "field example_outcome ''success'' = JBool True"
    by (simp add: example_outcome_def outcome_document_fields recovery_outcome_def) (simp add: mark_read_result_def field_def)
  from success_needs_proof [OF example_open c s] c show ?thesis by auto
qed

end
