(* ===== verification/Idempotency_Example.thy ===== *)
theory Idempotency_Example
  imports Idempotency_Decode Audit_Example
begin

text \<open>
  \<^bold>\<open>A concrete store\<close> with one pending entry, for a mark-read without messages, and the
  applications of the theorems on the store to it.
\<close>

definition example_store :: store where
  "example_store = \<lparr>store_directory = ''/s/main'', store_path = ''/s/main/idempotency.db'', store_account = ''main'', store_uid = 7\<rparr>"

definition example_entry :: entry where
  "example_entry =
     pending_entry \<lparr>pi_key_hash = example_hash, pi_fingerprint = example_hash, pi_operation = A_ChatMarkRead,
       pi_invocation_id = ''0123456789abcdef0123456789abcdef'', pi_generation = 1, pi_created_at = 0,
       pi_plan = JObject [(''account'', JString ''main''),
        (''chat'', JObject [(''id'', JUInt 7), (''is_bot'', JBool False), (''title'', JString ''Me''), (''type'', JString ''private''),
           (''usernames'', JArray [])]),
        (''last_message_id'', JNull), (''operation'', JString ''chat_mark_read''), (''tdlib_request'', JNull)]\<rparr>"

definition example_parse :: json_parser where
  "example_parse bytes =
     (if bytes = snapshot_text [example_entry]
      then (let document = stored_json (snapshot_document [entry_json example_entry]) in (json_events 0 document, Some document))
      else ([], None))"

definition example_file :: stored_file where
  "example_file =
     \<lparr>file_dev = 1, file_ino = 2, file_kind = RegularFile, file_perm = 384, file_uid = 7, file_nlink = 1,
      file_contents = snapshot_text [example_entry]\<rparr>"

definition example_world :: world where
  "example_world =
     \<lparr>lease_error = None, scan_interruption = None, failing = (\<lambda>_. False), transfer = (\<lambda>_. 4096),
      state_root = \<lparr>st_dev = 1, st_ino = 1, st_kind = DirectoryFile, st_perm = 448, st_uid = 7, st_nlink = 2, st_size = 0\<rparr>,
      process_uid = 7, created_perm = 384, fresh_inode = 3, final_file = Some example_file, temp_file = None, clock = 0\<rparr>"

lemma example_entry_plan: "valid_plan A_ChatMarkRead (entry_plan example_entry) ''main''"
  unfolding valid_plan_def example_entry_def pending_entry_def
  by (simp add: json_eval mark_read_name valid_plan_request_def expected_tdlib_functions_def plan_fields_def valid_chat_identity_def
      valid_int53_def json_int64_def valid_string_def kChatTitleBytes_def valid_utf8_literal byte_of_def kChatUsernameCount_def)

lemma example_digest: "valid_digest example_hash"
  by (simp add: valid_digest_def example_hash_def starts_with_def is_lower_hex_def char_between_def byte_of_def)

lemma example_entry_valid: "valid_entry example_entry ''main''"
proof -
  have "mutable_charge example_entry = Some 0"
    by (simp add: mutable_charge_eq entry_mutables_def entry_charge_def example_entry_def pending_entry_def terminal_json_def)
  moreover have "write_operation_idempotent (Some A_ChatMarkRead)" by code_simp
  ultimately show ?thesis using example_entry_plan example_digest example_texts(3)
    by (simp add: valid_entry_iff example_entry_def pending_entry_def kIdempotencyMaximumUnixSeconds_def kIdempotencyRetentionSeconds_def
        validate_persisted_temporary_ids_def validate_persisted_forward_progress_def json_eval)
qed

lemma example_text: "canonicalisable (entry_json example_entry)"
  by (simp add: entry_json_def example_entry_def pending_entry_def terminal_json_def mark_read_name valid_utf8_literal byte_of_def
      example_hash_def)

lemma length_quoted: "length (quoted s) = 2 + sum_list (map (\<lambda>c. length (esc c)) s)"
  by (simp add: quoted_def length_concat comp_def)

lemma example_reservation: "account_audit_terminal_reservation A_ChatMarkRead = 32768"
proof -
  have "m6_operation_for_audit A_ChatMarkRead = None" by code_simp
  then show ?thesis
    by (simp add: account_audit_terminal_reservation_def terminal_byte_ceiling_def kOtherTerminalBytes_def)
qed

lemma example_numbers:
  "length (to_string_nat (Suc 0)) = 1" "length (to_string_nat 0) = 1" "length (to_string_nat 7) = 1"
  "length (to_string_nat kIdempotencyRetentionSeconds) = 6"
  "length (to_string_nat 32768) = 5" "text_size (JBool False) = 5"
  by (simp_all add: to_string_nat.simps kIdempotencyRetentionSeconds_def text_size_def canonical_json_canon)

lemma example_size: "text_size (entry_json example_entry) \<le> 10000"
  unfolding entry_json_def example_entry_def pending_entry_def
  by (simp add: text_size_object text_size_array terminal_json_def mark_read_name valid_utf8_literal byte_of_def example_hash_def text_size_string length_quoted
      esc_def append_character_def Let_def quote_char_def backslash_char_def example_numbers example_reservation)

lemma example_snapshot_accepted: "accepted_snapshot [example_entry] ''main''"
proof -
  have c: "canonicalisable_items [entry_json example_entry]" using example_text by simp
  have r: "entry_remaining example_entry \<le> 32768"
    by (simp add: entry_remaining_def example_entry_def pending_entry_def example_reservation)
  have q: "length (quoted ''entries'') \<le> 100" "length (quoted ''schema_version'') \<le> 100" "text_size (JInt 1) \<le> 100"
    by (simp_all add: length_quoted esc_def append_character_def Let_def quote_char_def backslash_char_def byte_of_def
        text_size_def canonical_json_canon to_string_int_def to_string_nat.simps)
  have "text_size (snapshot_document [entry_json example_entry]) + entry_remaining example_entry \<le> 50000"
    using example_size r q by (simp add: text_size_document [OF c] text_size_array [OF c])
  then show ?thesis using example_entry_valid c
    by (simp add: accepted_snapshot_def kIdempotencyStoreMaximumEntries_def kIdempotencyStoreMaximumBytes_def)
qed

lemma example_parsed: "parsed_entry example_entry"
  by (simp add: parsed_entry_def parsed_json_def example_entry_def pending_entry_def)


lemma example_decoded:
  "decode_snapshot example_parse (snapshot_text [example_entry]) ''main'' =
     Inr \<lparr>snapshot_entries = [example_entry], canonical_bytes = snapshot_text [example_entry]\<rparr>"
  by (rule decode_roundtrip [OF example_snapshot_accepted]) (simp_all add: example_parsed example_parse_def)

lemma example_reads: "reads example_parse example_store example_world [example_entry]"
proof -
  have "classify_file (stat_of example_file) 7 True = None"
    using accepted_text_size [OF example_snapshot_accepted] by (simp add: classify_file_def stat_of_def example_file_def)
  then show ?thesis using example_decoded
    by (simp add: reads_def quiet_def example_world_def example_store_def classify_root_def example_file_def)
qed

theorem store_refines_map_witness:
  "\<exists>es'. keeps_snapshot example_store (snd (run_op example_parse example_store no_hooks
      (RemoveOwned example_hash ''0123456789abcdef0123456789abcdef'') example_world)) es' \<and>
    (fst (run_op example_parse example_store no_hooks (RemoveOwned example_hash ''0123456789abcdef0123456789abcdef'') example_world),
     abs_store es') =
    spec_op (store_account example_store) (RemoveOwned example_hash ''0123456789abcdef0123456789abcdef'') (abs_store [example_entry])"
  by (rule store_refines_map [OF example_reads])


theorem spool_only_for_attachments_witness:
  "fst (run_op example_parse example_store no_hooks (UpdateSpool (entry_key_hash example_entry) (entry_invocation_id example_entry)
     \<lparr>relative_path = [], spool_file = file_snapshot_from_audit JNull\<rparr>) example_world) = OpFailed"
  using spool_only_for_attachments [OF example_reads, of example_entry] by (simp add: example_entry_def pending_entry_def)

theorem store_never_torn_witness:
  "(let w' = snd (run_op example_parse example_store no_hooks CleanupStaleTemp (example_world\<lparr>failing := (\<lambda>_. True)\<rparr>))
    in final_file w' = Some example_file \<or> (\<exists>es. holds_snapshot example_store w' es))"
  using store_never_torn [OF no_hooks_leaves_files surjective_pairing, of example_parse example_store CleanupStaleTemp
      "example_world\<lparr>failing := (\<lambda>_. True)\<rparr>"] by (simp add: Let_def example_world_def)

end
