(* ===== verification/Spec2Isabelle.thy ===== *)
theory Spec2Isabelle
  imports Audit_Rotation Sha256_Fips Activity_Tracker Idempotency_Example
begin

text \<open>
  \<^bold>\<open>A verification of the durable core of tgcli.\<close>

  tgcli is a command line client for Telegram. A short-lived client process talks to one daemon per
  account, which owns the TDLib session. Reads are answered from TDLib. A write goes through four
  parts of the daemon that must survive its end at any moment: its request is reduced to a closed
  JSON \<^emph>\<open>plan\<close>, the plan is recorded as an intent in the \<^emph>\<open>audit log\<close>, a keyed write is entered in the
  \<^emph>\<open>idempotency store\<close>, and the log receives checkpoints and, at the end, an outcome. When a daemon
  starts and finds a group of records without outcome it \<^emph>\<open>recovers\<close> the group. This development models
  these parts, the byte-level code below them and the tracker that lets an idle daemon exit. File
  names are relative to \<open>src/\<close> of the repository's root directory \<open>src/\<close>.

  \<^bold>\<open>Byte-level code.\<close>
  \<^item> \<^verbatim>\<open>Prelude\<close>: byte strings, generic lemmas, and the locale \<open>invariant_machine\<close>, the contract of a
    component that moves from state to state. It is interpreted on the scan of the audit log and on the
    activity tracker.
  \<^item> \<^verbatim>\<open>Utf8\<close>: the validator of \<open>common/utf8.hpp\<close> and the scalar count of \<open>daemon/account_audit.cpp\<close>. The
    validator accepts exactly the encodings of sequences of Unicode scalars, and the count is their length.
  \<^item> \<^verbatim>\<open>Json_Value\<close>: the values of the JSON library as the sources use them, with the conversions of its
    comparison and of its numeric accessors.
  \<^item> \<^verbatim>\<open>Canonical_Json\<close>: \<open>common/canonical_json.cpp\<close>. The canonical text determines the value, and it exists
    for exactly the values without floats and with valid strings.
  \<^item> \<^verbatim>\<open>Sha256\<close>: \<open>common/sha256.cpp\<close> on words of 32 and 64 bits. Feeding a message in pieces gives the digest
    that the standard defines on the padded message; domains separate.

  \<^bold>\<open>Vocabularies and schemas.\<close>
  \<^item> \<^verbatim>\<open>Operations\<close>: \<open>proto/operation.hpp\<close>, \<open>daemon/write_operation.cpp\<close>, \<open>daemon/m6_write_policy.cpp\<close> and the
    tables of \<open>daemon/account_audit.cpp\<close>, with the locale \<open>name_table\<close> interpreted on each table.
  \<^item> \<^verbatim>\<open>Selectors\<close>: \<open>daemon/local_selector.cpp\<close>, \<open>common/invite_link.hpp\<close>, \<open>valid_account_name\<close> of \<open>common/paths.cpp\<close>.
  \<^item> \<^verbatim>\<open>M6_Domain\<close>, \<^verbatim>\<open>M6_Audit\<close>: \<open>daemon/m6_domain.cpp\<close> and \<open>daemon/m6_audit_contract.cpp\<close>, the account management
    commands and the values the log stores for them.
  \<^item> \<^verbatim>\<open>Audit_Values\<close>, \<^verbatim>\<open>Audit_Contract\<close>: the value checks of \<open>daemon/account_audit.cpp\<close>, the byte limits of
    \<open>daemon/account_audit_limits.hpp\<close>, and the validators of intents, checkpoints and outcomes.

  \<^bold>\<open>The audit log.\<close>
  \<^item> \<^verbatim>\<open>Audit_History\<close>: the automaton of a group of records. The record \<open>open_group\<close> is \<open>AccountAuditOpenGroup\<close>,
    \<open>scan_state\<close> is \<open>ScanState\<close>, \<open>consume_v2\<close> is the step of one record, and \<open>classify_account_audit_recovery\<close>
    chooses how an open group is closed.
  \<^item> \<^verbatim>\<open>Audit_Order\<close>, \<^verbatim>\<open>Audit_Groups\<close>, \<^verbatim>\<open>Audit_Recovery\<close>: the invariant of the open group over every sequence of
    records, the bound on the bytes of a group, and the proof behind every reported success.
  \<^item> \<^verbatim>\<open>Audit_Terminals\<close>, \<^verbatim>\<open>Audit_Reconcile\<close>: \<open>recover_open_group\<close> of \<open>daemon/idempotency_reconciliation.cpp\<close>
    appends records that the log accepts and that close the group. \<^verbatim>\<open>Audit_Example\<close> holds a concrete group.
  \<^item> \<^verbatim>\<open>Audit_Rotation\<close>: the five segments of the log and \<open>rotate_for_intent\<close>, with every call that may fail.
    No segment is lost but an unpinned archived one, and rotation succeeds whenever there is room.

  \<^bold>\<open>The idempotency store\<close>, \<open>daemon/idempotency_store.cpp\<close>.
  \<^item> \<^verbatim>\<open>File_Status\<close>: what the daemon sees of a file.
  \<^item> \<^verbatim>\<open>Idempotency_Entry\<close>: entries, their JSON form and their bounds, \<open>canonicalize_snapshot\<close>, \<open>decode_snapshot\<close>.
  \<^item> \<^verbatim>\<open>Idempotency_Store\<close>: the \<open>world\<close> (directory, lease, failing calls, sizes of transfers) and every operation
    of the class \<open>IdempotencyStore\<close> on it.
  \<^item> \<^verbatim>\<open>Idempotency_Atomic\<close>: whatever call fails, the snapshot file is unchanged or holds a complete snapshot.
  \<^item> \<^verbatim>\<open>Idempotency_Refinement\<close>: the operations implement \<open>spec_op\<close> on the map from key hashes to entries, and an
    admitted entry can always be settled within the space reserved for it.
  \<^item> \<^verbatim>\<open>Idempotency_Decode\<close>: a snapshot is read back from its text. \<^verbatim>\<open>Idempotency_Example\<close> holds a concrete store.

  \<^bold>\<open>The activity tracker\<close>, \<open>daemon/activity_tracker.cpp\<close>, in \<^verbatim>\<open>Activity_Tracker\<close>: the tracker, its tokens and the
  interleavings of the threads that use them as a step relation. The tracker counts the live tokens,
  expires only after a full idle period, and does expire after one.

  \<^bold>\<open>Conventions.\<close> A \<open>std::string\<close> is a HOL \<open>string\<close>, an exception or an error out-parameter is a value of an
  option or sum type, a \<open>std::map\<close> is an association list in key order. Machine integers have their
  width where wrap-around is reachable (SHA-256, the conversions of the JSON library, sequence numbers,
  the revision counter) and are \<open>int\<close> or \<open>nat\<close> elsewhere. Loops are structural recursions or have a
  termination proof, so that no function needs fuel. The JSON library's printer and parser are
  parameters: \<open>dump\<close> gives the text of a value or \<open>None\<close> for its exception, \<open>json_parser\<close> the events of a
  text; the theorems that rely on them name what they rely on. Time, failing system calls and the sizes
  of reads and writes are arguments of the functions that meet them.

  \<^bold>\<open>Not modelled.\<close>
  \<^item> TDLib, the adapters in \<open>core/\<close>, and the commands whose substance is the sequence of requests to it
    (reads, writes, login, logout, downloads, raw requests). Their types are generated from a schema
    outside the repository.
  \<^item> The client process, the sockets, the dispatch table and the sessions of the daemon: terminal and
    network input and output.
  \<^item> Streams (\<open>daemon/stream_*\<close>): lock-free buffers whose correctness depends on the memory order of
    atomics.
  \<^item> Of the audit log: reading and appending lines, the coordinator lock and its lease, and the permits
    and spool holds that tie object lifetimes to them. Of the recovery: the repair of store entries and
    spooled files.
  \<^item> The contents of the file spool, the configuration (toml++), the removal of accounts from disk, and
    the wiping of secrets from memory.
\<close>

end
